(* ===== verification/ZPrelude.thy ===== *)
theory ZPrelude
  imports Main "HOL-Library.Word" "HOL-Library.Monad_Syntax"
begin

unbundle bit_operations_syntax

text \<open>
  Shared vocabulary of the ZeOS development.

  The kernel is C compiled for a 32-bit x86. The conventions of every theory are:
  \<^item> unsigned C integers are words of their width, so that arithmetic wraps as in C;
  \<^item> a C int is an HOL int, and the operations that can leave its range go through
    \<open>c_int\<close>, which is None there (signed overflow is undefined behaviour in C);
  \<^item> a C array is a function from its indices, and every access through an index that the
    code does not bound checks the bound first;
  \<^item> an operation that may execute undefined behaviour (a null or wild pointer, an index out
    of its array, signed overflow) or take a page fault in the kernel returns an option, and
    None is that event. Error codes such as \<open>-ENOMEM\<close> are ordinary return values.
\<close>

section \<open>Collections used by the component theories\<close>

named_theorems frame_simps \<open>what an operation leaves unchanged\<close>
named_theorems const_simps \<open>the numeric values of the constants of the headers\<close>

section \<open>Machine types\<close>

type_synonym Byte = "8 word"
type_synonym Word = "16 word"
type_synonym DWord = "32 word"

abbreviation INT_MAX :: int where "INT_MAX \<equiv> 2147483647"
abbreviation INT_MIN :: int where "INT_MIN \<equiv> - 2147483648"

definition int_ok :: "int \<Rightarrow> bool" where
  "int_ok z \<longleftrightarrow> INT_MIN \<le> z \<and> z \<le> INT_MAX"

text \<open>The value of a signed expression, when it does not overflow.\<close>

definition c_int :: "int \<Rightarrow> int option" where
  "c_int z = (if int_ok z then Some z else None)"

lemma c_int_Some [simp]: "int_ok z \<Longrightarrow> c_int z = Some z"
  by (simp add: c_int_def)

lemma c_int_eq_Some_iff: "c_int z = Some r \<longleftrightarrow> int_ok z \<and> r = z"
  by (auto simp: c_int_def)

text \<open>The C conversion of an int to an unsigned 32-bit value and back.\<close>

definition to_u32 :: "int \<Rightarrow> DWord" where
  "to_u32 z = word_of_int z"

definition to_s32 :: "DWord \<Rightarrow> int" where
  "to_s32 w = sint w"

lemma to_s32_to_u32: "int_ok z \<Longrightarrow> to_s32 (to_u32 z) = z"
  by (simp add: to_s32_def to_u32_def int_ok_def signed_of_int signed_take_bit_int_eq_self)

lemma int_ok_to_s32 [simp]: "int_ok (to_s32 w)"
  using sint_range_size [of w] by (simp add: to_s32_def int_ok_def word_size)

lemma to_s32_small: "unat w < 2147483648 \<Longrightarrow> to_s32 w = int (unat w)"
proof -
  assume small: "unat w < 2147483648"
  have eq: "uint w = int (unat w)" by (rule uint_nat)
  with small have "uint w < 2147483648" and "INT_MIN \<le> uint w" by linarith+
  then have "signed_take_bit 31 (uint w) = uint w"
    by (intro signed_take_bit_int_eq_self) simp_all
  then show ?thesis by (simp add: to_s32_def sint_uint)
qed

lemma unat_to_u32: "0 \<le> z \<Longrightarrow> z < 4294967296 \<Longrightarrow> unat (to_u32 z) = nat z"
  by (simp add: to_u32_def unsigned_of_int take_bit_int_eq_self)

section \<open>Options and lists\<close>

lemma bind_eq_SomeE:
  assumes "Option.bind m f = Some r"
  obtains x where "m = Some x" and "f x = Some r"
  using assms by (cases m) auto

lemma bind_Some_cong: "m = Some x \<Longrightarrow> Option.bind m f = f x"
  by simp

lemma nth_append_middle: "(xs @ x # ys) ! length xs = x"
  by simp

lemma last_notin_butlast: "distinct (x # xs) \<Longrightarrow> last (x # xs) \<notin> set (butlast (x # xs))"
  by (induction xs arbitrary: x) (auto dest: in_set_butlastD)

lemma hd_append_in: "hd (ys @ [q]) \<in> insert q (set ys)"
  by (cases ys) auto

lemma hd_snoc_notin_tl: "distinct (q # ys) \<Longrightarrow> hd (ys @ [q]) \<notin> set (tl (ys @ [q]))"
  by (cases ys) auto

lemma butlast_hd_tl_snoc: "butlast (hd (ys @ [q]) # tl (ys @ [q])) = ys"
  by (cases ys) (auto simp: butlast_append)

text \<open>The search loops return the first index that passes.\<close>

lemma find_upt:
  assumes "a \<le> k" "k < b" "P k" "\<And>p. a \<le> p \<Longrightarrow> p < k \<Longrightarrow> \<not> P p"
  shows "find P [a..<b] = Some k"
proof -
  have "[a..<b] = [a..<k] @ k # [Suc k..<b]"
    using assms(1,2) upt_add_eq_append [of a k "b - k"] by (simp add: upt_conv_Cons)
  moreover have "find P [a..<k] = None" using assms(4) by (auto simp: find_None_iff)
  moreover have "find P xs = None \<Longrightarrow> find P (xs @ ys) = find P ys" for xs ys
    by (induction xs) (auto split: if_splits)
  ultimately show ?thesis using assms(3) by simp
qed

text \<open>A loop \<open>for (i = a; i < b; i++)\<close> whose body is a state transformer.\<close>

definition for_loop :: "nat \<Rightarrow> nat \<Rightarrow> (nat \<Rightarrow> 's \<Rightarrow> 's) \<Rightarrow> 's \<Rightarrow> 's" where
  "for_loop a b f s = fold f [a..<b] s"

lemma for_loop_empty: "b \<le> a \<Longrightarrow> for_loop a b f s = s"
  by (simp add: for_loop_def)

lemma for_loop_step: "a < b \<Longrightarrow> for_loop a b f s = for_loop (Suc a) b f (f a s)"
  by (simp add: for_loop_def upt_conv_Cons)

lemma for_loop_last: "a \<le> b \<Longrightarrow> for_loop a (Suc b) f s = f b (for_loop a b f s)"
  by (simp add: for_loop_def)

text \<open>Invariant rule: what holds on entry and is kept by each turn holds at the end.\<close>

lemma for_loop_invariant:
  assumes "a \<le> b" and "P a s"
    and "\<And>i t. a \<le> i \<Longrightarrow> i < b \<Longrightarrow> P i t \<Longrightarrow> P (Suc i) (f i t)"
  shows "P b (for_loop a b f s)"
  using assms
proof (induction "b - a" arbitrary: a s)
  case 0
  then show ?case by (simp add: for_loop_empty)
next
  case (Suc n)
  then have "a < b" by simp
  have "P b (for_loop (Suc a) b f (f a s))"
    using Suc \<open>a < b\<close> by (intro Suc.hyps(1)) auto
  then show ?case using \<open>a < b\<close> by (simp add: for_loop_step)
qed

text \<open>A loop that stores \<open>g i\<close> in cell \<open>i\<close> of an array.\<close>

lemma for_loop_store:
  "for_loop a b (\<lambda>i m. m(i := g i)) m = (\<lambda>k. if a \<le> k \<and> k < b then g k else m k)"
proof (cases "a \<le> b")
  case True
  then show ?thesis
    by (rule for_loop_invariant
        [where P = "\<lambda>i t. t = (\<lambda>k. if a \<le> k \<and> k < i then g k else m k)"])
      (auto simp: fun_eq_iff less_Suc_eq)
next
  case False
  then show ?thesis by (auto simp: for_loop_empty fun_eq_iff)
qed

text \<open>A loop that updates every cell of a range from its old value.\<close>

lemma for_loop_update:
  "for_loop a b (\<lambda>i m. m(i := g i (m i))) m = (\<lambda>k. if a \<le> k \<and> k < b then g k (m k) else m k)"
proof (cases "a \<le> b")
  case True
  then show ?thesis
    by (rule for_loop_invariant
        [where P = "\<lambda>i t. t = (\<lambda>k. if a \<le> k \<and> k < i then g k (m k) else m k)"])
      (auto simp: fun_eq_iff less_Suc_eq)
next
  case False
  then show ?thesis by (auto simp: for_loop_empty fun_eq_iff)
qed

section \<open>Words\<close>

lemma unat_lt_power [simp]: "unat (w :: DWord) < 4294967296"
  using unsigned_less [of w, where ?'a = nat] by simp

lemma of_nat_inj_u32:
  "m < 4294967296 \<Longrightarrow> n < 4294967296 \<Longrightarrow> (of_nat m :: DWord) = of_nat n \<longleftrightarrow> m = n"
  by (simp add: word_of_nat_eq_iff take_bit_nat_eq_self)

lemma unat_of_nat_u32 [simp]: "n < 4294967296 \<Longrightarrow> unat (of_nat n :: DWord) = n"
  by (simp add: unsigned_of_nat take_bit_nat_eq_self)

lemma unat_add_u32:
  "unat a + unat b < 4294967296 \<Longrightarrow> unat (a + b :: DWord) = unat a + unat b"
  by (simp add: unat_word_ariths)

lemma unat_drop_bit_12: "unat (drop_bit 12 (w :: DWord)) = unat w div 4096"
  by (simp add: drop_bit_eq_div unat_div)

end
