(* ===== verification/KList.thy ===== *)
theory KList
  imports ZPrelude
begin

text \<open>
  The intrusive doubly linked lists of \<open>list.c\<close> and \<open>list.h\<close>. A node is a place of
  some type \<open>'p\<close>; a pointer to a node is \<open>'p option\<close>, with None for NULL; the heap gives
  every node its two links. Following or writing through NULL is None. \<open>dll h q xs\<close> says
  that the list headed by \<open>q\<close> holds exactly the nodes \<open>xs\<close>, in order, correctly linked
  both ways. The last sections state what the scheduler relies on as a locale and interpret it
  on these operations.
\<close>

section \<open>Nodes and the list heap\<close>

record 'p list_head =
  lnext :: "'p option"
  lprev :: "'p option"

type_synonym 'p lheap = "'p \<Rightarrow> 'p list_head"

definition get_next :: "'p option \<Rightarrow> 'p lheap \<Rightarrow> 'p option option" where
  "get_next p h = (case p of None \<Rightarrow> None | Some a \<Rightarrow> Some (lnext (h a)))"

definition get_prev :: "'p option \<Rightarrow> 'p lheap \<Rightarrow> 'p option option" where
  "get_prev p h = (case p of None \<Rightarrow> None | Some a \<Rightarrow> Some (lprev (h a)))"

definition set_next :: "'p option \<Rightarrow> 'p option \<Rightarrow> 'p lheap \<Rightarrow> 'p lheap option" where
  "set_next p v h = (case p of None \<Rightarrow> None | Some a \<Rightarrow> Some (h(a := (h a)\<lparr>lnext := v\<rparr>)))"

definition set_prev :: "'p option \<Rightarrow> 'p option \<Rightarrow> 'p lheap \<Rightarrow> 'p lheap option" where
  "set_prev p v h = (case p of None \<Rightarrow> None | Some a \<Rightarrow> Some (h(a := (h a)\<lparr>lprev := v\<rparr>)))"

section \<open>The operations of list.c\<close>

definition INIT_LIST_HEAD :: "'p option \<Rightarrow> 'p lheap \<Rightarrow> 'p lheap option" where
  "INIT_LIST_HEAD list h =
     do { h \<leftarrow> set_next list list h;
          set_prev list list h }"

text \<open>\<open>__list_add\<close>\<close>

definition list_add_between ::
  "'p option \<Rightarrow> 'p option \<Rightarrow> 'p option \<Rightarrow> 'p lheap \<Rightarrow> 'p lheap option" where
  "list_add_between new prv nxt h =
     do { h \<leftarrow> set_prev nxt new h;
          h \<leftarrow> set_next new nxt h;
          h \<leftarrow> set_prev new prv h;
          set_next prv new h }"

definition list_add :: "'p option \<Rightarrow> 'p option \<Rightarrow> 'p lheap \<Rightarrow> 'p lheap option" where
  "list_add new head h =
     do { nxt \<leftarrow> get_next head h;
          list_add_between new head nxt h }"

definition list_add_tail :: "'p option \<Rightarrow> 'p option \<Rightarrow> 'p lheap \<Rightarrow> 'p lheap option" where
  "list_add_tail new head h =
     do { prv \<leftarrow> get_prev head h;
          list_add_between new prv head h }"

text \<open>\<open>__list_del\<close>\<close>

definition list_del_between :: "'p option \<Rightarrow> 'p option \<Rightarrow> 'p lheap \<Rightarrow> 'p lheap option" where
  "list_del_between prv nxt h =
     do { h \<leftarrow> set_prev nxt prv h;
          set_next prv nxt h }"

definition list_del :: "'p option \<Rightarrow> 'p lheap \<Rightarrow> 'p lheap option" where
  "list_del entry h =
     do { prv \<leftarrow> get_prev entry h;
          nxt \<leftarrow> get_next entry h;
          h \<leftarrow> list_del_between prv nxt h;
          h \<leftarrow> set_next entry None h;
          set_prev entry None h }"

definition list_is_last :: "'p option \<Rightarrow> 'p option \<Rightarrow> 'p lheap \<Rightarrow> bool option" where
  "list_is_last list head h =
     do { nxt \<leftarrow> get_next list h;
          Some (nxt = head) }"

definition list_empty :: "'p option \<Rightarrow> 'p lheap \<Rightarrow> bool option" where
  "list_empty head h =
     do { nxt \<leftarrow> get_next head h;
          Some (nxt = head) }"

text \<open>The macro \<open>list_first(head)\<close>.\<close>

definition list_first :: "'p option \<Rightarrow> 'p lheap \<Rightarrow> 'p option option" where
  "list_first head h = get_next head h"

text \<open>
  The macro \<open>list_for_each\<close>: the positions it visits, at most \<open>fuel\<close> of them. None when
  it meets NULL or has not come back to the head after \<open>fuel\<close> nodes.
\<close>

fun list_for_each_from :: "nat \<Rightarrow> 'p option \<Rightarrow> 'p option \<Rightarrow> 'p lheap \<Rightarrow> 'p list option" where
  "list_for_each_from fuel pos head h =
     (if pos = head then Some []
      else case fuel of
        0 \<Rightarrow> None
      | Suc fuel' \<Rightarrow>
          (case pos of
             None \<Rightarrow> None
           | Some a \<Rightarrow> do { rest \<leftarrow> list_for_each_from fuel' (lnext (h a)) head h;
                            Some (a # rest) }))"

declare list_for_each_from.simps [simp del]

definition list_for_each :: "nat \<Rightarrow> 'p option \<Rightarrow> 'p lheap \<Rightarrow> 'p list option" where
  "list_for_each fuel head h =
     do { pos \<leftarrow> get_next head h;
          list_for_each_from fuel pos head h }"

text \<open>
  The macro \<open>list_for_each_safe\<close> around a loop body: the next node is read before the body runs, so
  that the body may unlink the node it is at.
\<close>

fun list_for_each_safe_from ::
  "nat \<Rightarrow> ('p \<Rightarrow> 'p lheap \<Rightarrow> 'p lheap option) \<Rightarrow> 'p option \<Rightarrow> 'p option \<Rightarrow> 'p option \<Rightarrow> 'p lheap \<Rightarrow>
    'p lheap option" where
  "list_for_each_safe_from fuel body pos n head h =
     (if pos = head then Some h
      else case fuel of
        0 \<Rightarrow> None
      | Suc fuel' \<Rightarrow>
          (case pos of
             None \<Rightarrow> None
           | Some a \<Rightarrow> do { h \<leftarrow> body a h;
                            n' \<leftarrow> get_next n h;
                            list_for_each_safe_from fuel' body n n' head h }))"

declare list_for_each_safe_from.simps [simp del]

definition list_for_each_safe ::
  "nat \<Rightarrow> ('p \<Rightarrow> 'p lheap \<Rightarrow> 'p lheap option) \<Rightarrow> 'p option \<Rightarrow> 'p lheap \<Rightarrow> 'p lheap option" where
  "list_for_each_safe fuel body head h =
     do { pos \<leftarrow> get_next head h;
          n \<leftarrow> get_next pos h;
          list_for_each_safe_from fuel body pos n head h }"

lemmas list_op_defs = INIT_LIST_HEAD_def list_add_between_def list_add_def list_add_tail_def
  list_del_between_def list_del_def list_is_last_def list_empty_def list_first_def
  list_for_each_def get_next_def get_prev_def set_next_def set_prev_def

section \<open>Well-formed circular lists\<close>

definition linked :: "'p lheap \<Rightarrow> 'p \<Rightarrow> 'p \<Rightarrow> bool" where
  "linked h a b \<longleftrightarrow> lnext (h a) = Some b \<and> lprev (h b) = Some a"

text \<open>\<open>path h a xs\<close>: from \<open>a\<close> along \<open>xs\<close>, every step linked both ways.\<close>

fun path :: "'p lheap \<Rightarrow> 'p \<Rightarrow> 'p list \<Rightarrow> bool" where
  "path h a [] = True"
| "path h a (x # xs) = (linked h a x \<and> path h x xs)"

definition dll :: "'p lheap \<Rightarrow> 'p \<Rightarrow> 'p list \<Rightarrow> bool" where
  "dll h q xs \<longleftrightarrow> distinct (q # xs) \<and> path h q (xs @ [q])"

lemma path_append: "path h a (xs @ ys) \<longleftrightarrow> path h a xs \<and> path h (last (a # xs)) ys"
  by (induction xs arbitrary: a) auto

lemma path_cong:
  assumes "\<And>x. x \<in> set (butlast (a # xs)) \<Longrightarrow> lnext (h' x) = lnext (h x)"
    and "\<And>x. x \<in> set xs \<Longrightarrow> lprev (h' x) = lprev (h x)"
  shows "path h' a xs \<longleftrightarrow> path h a xs"
  using assms by (induction xs arbitrary: a) (auto simp: linked_def)

text \<open>Frame: a list whose nodes are untouched stays the same list.\<close>

lemma dll_frame:
  assumes "\<And>x. x \<in> insert q (set xs) \<Longrightarrow> h' x = h x"
  shows "dll h' q xs \<longleftrightarrow> dll h q xs"
proof -
  have "path h' q (xs @ [q]) \<longleftrightarrow> path h q (xs @ [q])"
    by (rule path_cong) (use assms in \<open>auto simp: butlast_append\<close>)
  then show ?thesis by (simp add: dll_def)
qed

lemma dll_distinct: "dll h q xs \<Longrightarrow> distinct (q # xs)"
  by (simp add: dll_def)

lemma dll_next_head: "dll h q xs \<Longrightarrow> lnext (h q) = Some (hd (xs @ [q]))"
  by (cases xs) (auto simp: dll_def linked_def)

lemma dll_prev_head: "dll h q xs \<Longrightarrow> lprev (h q) = Some (last (q # xs))"
  by (auto simp: dll_def linked_def path_append)

text \<open>A list heads one sequence of nodes only.\<close>

lemma path_unique:
  assumes "path h a (xs @ [q])" and "path h a (ys @ [q])" and "q \<notin> set xs" and "q \<notin> set ys"
  shows "xs = ys"
  using assms
proof (induction xs arbitrary: a ys)
  case Nil
  then show ?case by (cases ys) (auto simp: linked_def)
next
  case (Cons x xs)
  then obtain ys' where "ys = x # ys'"
    by (cases ys) (auto simp: linked_def)
  with Cons show ?case by auto
qed

lemma dll_unique: "dll h q xs \<Longrightarrow> dll h q ys \<Longrightarrow> xs = ys"
  by (auto simp: dll_def intro: path_unique)

section \<open>What the operations do to a well-formed list\<close>

text \<open>Opening a list at a point: the node before it, the node after it, and the two arcs.\<close>

lemma dll_open:
  assumes "dll h q (xs @ ys)"
  defines "a \<equiv> last (q # xs)" and "b \<equiv> hd (ys @ [q])"
  shows "path h q xs" and "linked h a b" and "path h b (tl (ys @ [q]))"
proof -
  have "ys @ [q] = b # tl (ys @ [q])"
    by (cases ys) (simp_all add: b_def)
  then have "path h q (xs @ b # tl (ys @ [q]))"
    using assms(1) by (metis append_assoc dll_def)
  then show "path h q xs" and "linked h a b" and "path h b (tl (ys @ [q]))"
    by (simp_all add: path_append a_def)
qed

text \<open>
  Closing it again with other nodes \<open>ms\<close> in between, in a heap that changed the forward link
  of \<open>a\<close>, the backward link of \<open>b\<close> and nodes outside the list only.
\<close>

lemma dll_close:
  assumes "dll h q (xs @ zs @ ys)"
    and "distinct (q # xs @ ms @ ys)"
  defines "a \<equiv> last (q # xs)" and "b \<equiv> hd (ys @ [q])"
  assumes nxt: "\<And>p. p \<in> insert q (set xs \<union> set ys) \<Longrightarrow> p \<noteq> a \<Longrightarrow> lnext (h' p) = lnext (h p)"
    and prv: "\<And>p. p \<in> insert q (set xs \<union> set ys) \<Longrightarrow> p \<noteq> b \<Longrightarrow> lprev (h' p) = lprev (h p)"
    and mid: "path h' a (ms @ [b])"
  shows "dll h' q (xs @ ms @ ys)"
proof -
  have dist: "distinct (q # xs @ ys)" using assms(2) by auto
  have b: "ys @ [q] = b # tl (ys @ [q])"
    by (cases ys) (simp_all add: b_def)
  have "a \<notin> set (butlast (q # xs))"
    unfolding a_def by (rule last_notin_butlast) (use dist in simp)
  moreover have "b \<notin> set xs"
    using hd_append_in [of ys q] dist by (auto simp: b_def)
  moreover have "path h q xs" using dll_open(1) assms(1) .
  ultimately have left: "path h' q xs"
    by (subst path_cong [where h = h])
      (auto intro!: nxt prv dest: in_set_butlastD split: if_splits)
  have "a \<notin> set ys"
    using dist by (cases xs rule: rev_cases) (auto simp: a_def)
  moreover have "b \<notin> set (tl (ys @ [q]))"
    unfolding b_def by (rule hd_snoc_notin_tl) (use dist in simp)
  moreover have "set (tl (ys @ [q])) \<subseteq> insert q (set ys)"
    by (cases ys) auto
  moreover have "path h b (tl (ys @ [q]))"
    using dll_open(3) [of h q "xs @ zs" ys] assms(1) by (simp add: b_def)
  ultimately have right: "path h' b (tl (ys @ [q]))"
    by (subst path_cong [where h = h])
      (auto simp: b_def butlast_hd_tl_snoc simp del: butlast.simps intro!: nxt prv)
  have "path h' q (xs @ (ms @ [b]) @ tl (ys @ [q]))"
    using left mid right by (simp add: path_append a_def)
  then have "path h' q ((xs @ ms @ ys) @ [q])"
    using b by simp
  then show ?thesis using assms(2) by (simp add: dll_def)
qed

lemma list_add_between_eq:
  assumes "new \<noteq> a" and "new \<noteq> b"
  shows "list_add_between (Some new) (Some a) (Some b) h =
    Some (\<lambda>p. \<lparr>lnext = (if p = a then Some new else if p = new then Some b else lnext (h p)),
               lprev = (if p = b then Some new else if p = new then Some a else lprev (h p))\<rparr>)"
  using assms by (auto simp: list_op_defs fun_eq_iff)

lemma list_del_eq:
  assumes "lprev (h x) = Some a" and "lnext (h x) = Some b" and "x \<noteq> a" and "x \<noteq> b"
  shows "list_del (Some x) h =
    Some (\<lambda>p. \<lparr>lnext = (if p = x then None else if p = a then Some b else lnext (h p)),
               lprev = (if p = x then None else if p = b then Some a else lprev (h p))\<rparr>)"
  using assms by (auto simp: list_op_defs fun_eq_iff)

lemma dll_init: "INIT_LIST_HEAD (Some q) h = Some (h(q := \<lparr>lnext = Some q, lprev = Some q\<rparr>))"
  by (simp add: list_op_defs fun_eq_iff)

lemma dll_singleton_head: "dll (h(q := \<lparr>lnext = Some q, lprev = Some q\<rparr>)) q []"
  by (simp add: dll_def linked_def)

lemma dll_insert:
  assumes "dll h q (xs @ ys)" and "new \<notin> insert q (set (xs @ ys))"
  obtains h' where
    "list_add_between (Some new) (Some (last (q # xs))) (Some (hd (ys @ [q]))) h = Some h'"
    "dll h' q (xs @ new # ys)"
    "\<And>p. p \<notin> insert new (insert q (set (xs @ ys))) \<Longrightarrow> h' p = h p"
proof -
  let ?a = "last (q # xs)" and ?b = "hd (ys @ [q])"
  let ?h = "\<lambda>p. \<lparr>lnext = (if p = ?a then Some new else if p = new then Some ?b else lnext (h p)),
                 lprev = (if p = ?b then Some new else if p = new then Some ?a else lprev (h p))\<rparr>"
  have a: "?a \<in> insert q (set xs)" using last_in_set [of "q # xs"] by simp
  have b: "?b \<in> insert q (set ys)" by (rule hd_append_in)
  have new: "new \<noteq> ?a" "new \<noteq> ?b" using a b assms(2) by auto
  have "dll ?h q (xs @ [new] @ ys)"
  proof (rule dll_close [where zs = "[]" and h = h])
    show "path ?h ?a ([new] @ [?b])" using new by (simp add: linked_def)
  qed (use assms new in \<open>auto simp: dll_def\<close>)
  moreover have "?h p = h p" if "p \<notin> insert new (insert q (set (xs @ ys)))" for p
    using that a b by auto
  ultimately show ?thesis
    using list_add_between_eq [OF new, of h] that [of ?h] by simp
qed

lemma dll_add:
  assumes "dll h q xs" and "new \<notin> insert q (set xs)"
  obtains h' where "list_add (Some new) (Some q) h = Some h'" "dll h' q (new # xs)"
    "\<And>p. p \<notin> insert new (insert q (set xs)) \<Longrightarrow> h' p = h p"
  using dll_insert [of h q "[]" xs new] assms
  by (auto simp: list_add_def get_next_def dll_next_head)

lemma dll_add_tail:
  assumes "dll h q xs" and "new \<notin> insert q (set xs)"
  obtains h' where "list_add_tail (Some new) (Some q) h = Some h'" "dll h' q (xs @ [new])"
    "\<And>p. p \<notin> insert new (insert q (set xs)) \<Longrightarrow> h' p = h p"
  using dll_insert [of h q xs "[]" new] assms
  by (auto simp: list_add_tail_def get_prev_def dll_prev_head)

lemma dll_del:
  assumes "dll h q (xs @ x # ys)"
  obtains h' where "list_del (Some x) h = Some h'" "dll h' q (xs @ ys)"
    "h' x = \<lparr>lnext = None, lprev = None\<rparr>"
    "\<And>p. p \<notin> insert q (set (xs @ x # ys)) \<Longrightarrow> h' p = h p"
proof -
  let ?a = "last (q # xs)" and ?b = "hd (ys @ [q])"
  let ?h = "\<lambda>p. \<lparr>lnext = (if p = x then None else if p = ?a then Some ?b else lnext (h p)),
                 lprev = (if p = x then None else if p = ?b then Some ?a else lprev (h p))\<rparr>"
  have a: "?a \<in> insert q (set xs)" using last_in_set [of "q # xs"] by simp
  have b: "?b \<in> insert q (set ys)" by (rule hd_append_in)
  have x: "x \<noteq> ?a" "x \<noteq> ?b" using a b dll_distinct [OF assms] by auto
  have "linked h ?a x" using dll_open(2) [OF assms] by simp
  moreover have "linked h x ?b"
    using dll_open(2) [of h q "xs @ [x]" ys] assms by simp
  ultimately have del: "list_del (Some x) h = Some ?h"
    using list_del_eq [OF _ _ x, of h] by (simp add: linked_def)
  have "dll ?h q (xs @ [] @ ys)"
  proof (rule dll_close [where zs = "[x]" and h = h])
    show "path ?h ?a ([] @ [?b])" using x by (simp add: linked_def)
  qed (use assms in \<open>auto simp: dll_def\<close>)
  moreover have "?h p = h p" if "p \<notin> insert q (set (xs @ x # ys))" for p
    using that a b by auto
  ultimately show ?thesis using del that [of ?h] x by simp
qed

lemma dll_empty_iff: "dll h q xs \<Longrightarrow> list_empty (Some q) h = Some (xs = [])"
  using dll_next_head [of h q xs] dll_distinct [of h q xs]
  by (cases xs) (auto simp: list_empty_def get_next_def)

lemma dll_first: "dll h q xs \<Longrightarrow> list_first (Some q) h = Some (Some (hd (xs @ [q])))"
  by (simp add: list_first_def get_next_def dll_next_head)

lemma dll_is_last:
  assumes "dll h q (xs @ x # ys)"
  shows "list_is_last (Some x) (Some q) h = Some (ys = [])"
proof -
  have "linked h x (hd (ys @ [q]))"
    using dll_open(2) [of h q "xs @ [x]" ys] assms by simp
  then show ?thesis
    using dll_distinct [OF assms]
    by (cases ys) (auto simp: list_is_last_def get_next_def linked_def)
qed

text \<open>Traversal visits exactly the nodes of the list, in order.\<close>

lemma path_for_each:
  "path h a (xs @ [q]) \<Longrightarrow> q \<notin> set xs \<Longrightarrow> length xs \<le> fuel \<Longrightarrow>
    list_for_each_from fuel (lnext (h a)) (Some q) h = Some xs"
proof (induction xs arbitrary: a fuel)
  case Nil
  then show ?case by (simp add: list_for_each_from.simps linked_def)
next
  case (Cons x xs)
  then obtain fuel' where "fuel = Suc fuel'" by (cases fuel) auto
  with Cons show ?case
    by (subst list_for_each_from.simps) (auto simp: linked_def)
qed

lemma dll_for_each:
  "dll h q xs \<Longrightarrow> length xs \<le> fuel \<Longrightarrow> list_for_each fuel (Some q) h = Some xs"
  by (simp add: dll_def list_for_each_def get_next_def path_for_each)

text \<open>
  A node that has no links and that no link leads to, such as a head that was never initialised: the
  operations on other nodes leave it so, whatever their lists look like, and a list whose head it
  would be cannot be used.
\<close>

definition unlinked :: "'p lheap \<Rightarrow> 'p \<Rightarrow> bool" where
  "unlinked h p \<longleftrightarrow> lnext (h p) = None \<and> lprev (h p) = None \<and>
     (\<forall>x. lnext (h x) \<noteq> Some p \<and> lprev (h x) \<noteq> Some p)"

lemma unlinked_set:
  "set_next (Some a) v h = Some h' \<Longrightarrow> unlinked h p \<Longrightarrow> a \<noteq> p \<Longrightarrow> v \<noteq> Some p \<Longrightarrow> unlinked h' p"
  "set_prev (Some a) v h = Some h' \<Longrightarrow> unlinked h p \<Longrightarrow> a \<noteq> p \<Longrightarrow> v \<noteq> Some p \<Longrightarrow> unlinked h' p"
  by (auto simp: unlinked_def set_next_def set_prev_def split: if_splits)

lemma unlinked_get:
  "get_next a h = Some v \<Longrightarrow> unlinked h p \<Longrightarrow> v \<noteq> Some p"
  "get_prev a h = Some v \<Longrightarrow> unlinked h p \<Longrightarrow> v \<noteq> Some p"
  by (auto simp: unlinked_def get_next_def get_prev_def split: option.splits)

lemma unlinked_init: "INIT_LIST_HEAD (Some q) h = Some h' \<Longrightarrow> unlinked h p \<Longrightarrow> q \<noteq> p \<Longrightarrow> unlinked h' p"
  by (auto simp: unlinked_def dll_init split: if_splits)

lemma unlinked_add_between:
  assumes "list_add_between (Some new) a b h = Some h'" and "unlinked h p"
    and "new \<noteq> p" and "a \<noteq> Some p" and "b \<noteq> Some p"
  shows "unlinked h' p"
proof -
  obtain x y h1 h2 h3 where "b = Some x" "a = Some y" and h: "set_prev b (Some new) h = Some h1"
    "set_next (Some new) b h1 = Some h2" "set_prev (Some new) a h2 = Some h3" "set_next a (Some new) h3 = Some h'"
    using assms(1) by (auto simp: list_add_between_def set_next_def set_prev_def split: option.splits elim!: bind_eq_SomeE)
  then have ab: "b = Some x" "a = Some y" "x \<noteq> p" "y \<noteq> p" using assms(4,5) by auto
  have "unlinked h1 p" by (rule unlinked_set(2) [OF h(1) [unfolded ab(1)] assms(2)]) (use ab assms(3) in auto)
  then have "unlinked h2 p" by (rule unlinked_set(1) [OF h(2)]) (use assms(3,5) in auto)
  then have "unlinked h3 p" by (rule unlinked_set(2) [OF h(3)]) (use assms(3,4) in auto)
  then show ?thesis by (rule unlinked_set(1) [OF h(4) [unfolded ab(2)]]) (use ab assms(3) in auto)
qed

lemma unlinked_add:
  "list_add (Some new) (Some q) h = Some h' \<Longrightarrow> unlinked h p \<Longrightarrow> new \<noteq> p \<Longrightarrow> q \<noteq> p \<Longrightarrow> unlinked h' p"
  "list_add_tail (Some new) (Some q) h = Some h' \<Longrightarrow> unlinked h p \<Longrightarrow> new \<noteq> p \<Longrightarrow> q \<noteq> p \<Longrightarrow> unlinked h' p"
  by (auto simp: list_add_def list_add_tail_def elim!: bind_eq_SomeE
      intro: unlinked_add_between dest: unlinked_get)

lemma unlinked_del:
  assumes "list_del (Some x) h = Some h'" and "unlinked h p" and "x \<noteq> p"
  shows "unlinked h' p"
proof -
  obtain a b h1 h2 h3 where l: "get_prev (Some x) h = Some a" "get_next (Some x) h = Some b"
    and h: "set_prev b a h = Some h1" "set_next a b h1 = Some h2" "set_next (Some x) None h2 = Some h3"
      "set_prev (Some x) None h3 = Some h'"
    using assms(1) by (auto simp: list_del_def list_del_between_def elim!: bind_eq_SomeE)
  obtain y z where ab: "a = Some y" "b = Some z" using h(1,2) by (cases a; cases b) (auto simp: set_next_def set_prev_def)
  have ne: "y \<noteq> p" "z \<noteq> p" using unlinked_get(2) [OF l(1) assms(2)] unlinked_get(1) [OF l(2) assms(2)] ab by auto
  have "unlinked h1 p" by (rule unlinked_set(2) [OF h(1) [unfolded ab(2)] assms(2)]) (use ab ne in auto)
  then have "unlinked h2 p" by (rule unlinked_set(1) [OF h(2) [unfolded ab(1)]]) (use ab ne in auto)
  then have "unlinked h3 p" by (rule unlinked_set(1) [OF h(3)]) (use assms(3) in auto)
  then show ?thesis by (rule unlinked_set(2) [OF h(4)]) (use assms(3) in auto)
qed

lemma unlinked_unusable:
  assumes "unlinked h q"
  shows "list_empty (Some q) h = Some False" "list_first (Some q) h = Some None"
    "list_add_tail (Some new) (Some q) h = None" "list_for_each n (Some q) h = None" "list_del None h = None"
proof -
  have "list_for_each_from n None (Some q) h = None" by (cases n) (simp_all add: list_for_each_from.simps)
  with assms show "list_empty (Some q) h = Some False" "list_first (Some q) h = Some None"
    "list_add_tail (Some new) (Some q) h = None" "list_for_each n (Some q) h = None" "list_del None h = None"
    by (auto simp: unlinked_def list_op_defs split: option.splits)
qed

text \<open>A safe traversal that unlinks every node it visits reaches all of them and empties the list.\<close>

lemma dll_next_node:
  assumes "dll h q (x # xs)"
  shows "lnext (h x) = Some (hd (xs @ [q]))"
  using assms by (cases xs) (auto simp: dll_def linked_def)

lemma for_each_safe_del:
  "dll h q xs \<Longrightarrow> length xs \<le> fuel \<Longrightarrow>
    \<exists>h'. list_for_each_safe_from fuel (\<lambda>a. list_del (Some a)) (Some (hd (xs @ [q])))
      (lnext (h (hd (xs @ [q])))) (Some q) h = Some h' \<and> dll h' q []"
proof (induction xs arbitrary: h fuel)
  case Nil
  then show ?case by (auto simp: list_for_each_safe_from.simps)
next
  case (Cons x xs)
  then obtain f where f: "fuel = Suc f" "length xs \<le> f" by (cases fuel) auto
  have x: "x \<noteq> q" using dll_distinct [OF Cons.prems(1)] by auto
  obtain h1 where h1: "list_del (Some x) h = Some h1" "dll h1 q xs"
    using dll_del [of h q "[]" x xs] Cons.prems(1) by auto
  obtain h' where "list_for_each_safe_from f (\<lambda>a. list_del (Some a)) (Some (hd (xs @ [q])))
      (lnext (h1 (hd (xs @ [q])))) (Some q) h1 = Some h'" "dll h' q []"
    using Cons.IH [OF h1(2) f(2)] by blast
  with h1(1) x show ?case
    by (subst list_for_each_safe_from.simps)
      (simp add: f(1) dll_next_node [OF Cons.prems(1)] get_next_def)
qed

lemma dll_for_each_safe:
  assumes "dll h q xs" and "length xs \<le> fuel"
  shows "\<exists>h'. list_for_each_safe fuel (\<lambda>a. list_del (Some a)) (Some q) h = Some h' \<and> dll h' q []"
  using for_each_safe_del [OF assms] dll_next_head [OF assms(1)]
  by (simp add: list_for_each_safe_def get_next_def)

text \<open>A node that has been unlinked cannot be unlinked again: its links are NULL.\<close>

lemma list_del_unlinked: "lnext (h x) = None \<Longrightarrow> list_del (Some x) h = None"
  by (simp add: list_op_defs)

section \<open>The interface the scheduler uses\<close>

text \<open>
  The kernel never looks at links itself: it initialises a queue, pushes a node at the back,
  takes the first one, unlinks a node and asks whether a queue is empty. \<open>isq h q xs\<close> is the
  abstraction (queue \<open>q\<close> holds \<open>xs\<close>) and \<open>cell h p\<close> what the heap stores at \<open>p\<close>,
  which is what a frame condition compares.
\<close>

locale node_queues =
  fixes isq :: "'h \<Rightarrow> 'p \<Rightarrow> 'p list \<Rightarrow> bool"
    and cell :: "'h \<Rightarrow> 'p \<Rightarrow> 'n"
    and push_back :: "'p option \<Rightarrow> 'p option \<Rightarrow> 'h \<Rightarrow> 'h option"
    and unlink :: "'p option \<Rightarrow> 'h \<Rightarrow> 'h option"
    and front :: "'p option \<Rightarrow> 'h \<Rightarrow> 'p option option"
    and isempty :: "'p option \<Rightarrow> 'h \<Rightarrow> bool option"
  assumes isq_distinct: "isq h q xs \<Longrightarrow> distinct (q # xs)"
    and isq_frame: "(\<And>x. x \<in> insert q (set xs) \<Longrightarrow> cell h' x = cell h x) \<Longrightarrow> isq h q xs \<Longrightarrow> isq h' q xs"
    and push_back_spec: "isq h q xs \<Longrightarrow> new \<notin> insert q (set xs) \<Longrightarrow>
      \<exists>h'. push_back (Some new) (Some q) h = Some h' \<and> isq h' q (xs @ [new]) \<and>
        (\<forall>p. p \<notin> insert new (insert q (set xs)) \<longrightarrow> cell h' p = cell h p)"
    and unlink_spec: "isq h q (xs @ x # ys) \<Longrightarrow>
      \<exists>h'. unlink (Some x) h = Some h' \<and> isq h' q (xs @ ys) \<and>
        (\<forall>p. p \<notin> insert q (set (xs @ x # ys)) \<longrightarrow> cell h' p = cell h p)"
    and front_spec: "isq h q xs \<Longrightarrow> front (Some q) h = Some (Some (hd (xs @ [q])))"
    and isempty_spec: "isq h q xs \<Longrightarrow> isempty (Some q) h = Some (xs = [])"
begin

text \<open>A queue whose nodes are disjoint from the one an operation worked on is not affected.\<close>

lemma isq_other:
  assumes "isq h r zs" and "\<And>p. p \<notin> S \<Longrightarrow> cell h' p = cell h p"
    and "insert r (set zs) \<inter> S = {}"
  shows "isq h' r zs"
  by (rule isq_frame [OF _ assms(1)]) (use assms(2,3) in auto)

text \<open>Taking the first node.\<close>

lemma pop_front:
  assumes "isq h q (x # xs)"
  obtains h' where "isempty (Some q) h = Some False" "front (Some q) h = Some (Some x)"
    "unlink (Some x) h = Some h'" "isq h' q xs"
    "\<And>p. p \<notin> insert q (set (x # xs)) \<Longrightarrow> cell h' p = cell h p"
  using unlink_spec [of h q "[]" x xs] front_spec [OF assms] isempty_spec [OF assms] assms
  by auto

text \<open>Moving a node from one queue to the back of another.\<close>

lemma transfer:
  assumes "isq h q (xs @ x # ys)" and "isq h r zs"
    and "insert r (set zs) \<inter> insert q (set (xs @ x # ys)) = {}"
  obtains h1 h' where "unlink (Some x) h = Some h1" "push_back (Some x) (Some r) h1 = Some h'"
    "isq h' q (xs @ ys)" "isq h' r (zs @ [x])"
    "\<And>p. p \<notin> insert q (set (xs @ x # ys)) \<union> insert r (set zs) \<Longrightarrow> cell h' p = cell h p"
proof -
  obtain h1 where h1: "unlink (Some x) h = Some h1" "isq h1 q (xs @ ys)"
    and f1: "\<And>p. p \<notin> insert q (set (xs @ x # ys)) \<Longrightarrow> cell h1 p = cell h p"
    using unlink_spec [OF assms(1)] by blast
  have "isq h1 r zs"
    by (rule isq_other [where S = "insert q (set (xs @ x # ys))", OF assms(2) f1 assms(3)])
  moreover have "x \<notin> insert r (set zs)" using assms(3) by auto
  ultimately obtain h' where h': "push_back (Some x) (Some r) h1 = Some h'" "isq h' r (zs @ [x])"
    and f2: "\<And>p. p \<notin> insert x (insert r (set zs)) \<Longrightarrow> cell h' p = cell h1 p"
    using push_back_spec [of h1 r zs x] by blast
  have dis: "insert q (set (xs @ ys)) \<inter> insert x (insert r (set zs)) = {}"
    using assms(3) isq_distinct [OF assms(1)] by auto
  have "isq h' q (xs @ ys)"
    by (rule isq_other [where S = "insert x (insert r (set zs))", OF h1(2) f2 dis])
  moreover have "cell h' p = cell h p"
    if "p \<notin> insert q (set (xs @ x # ys)) \<union> insert r (set zs)" for p
    using that f1 [of p] f2 [of p] by auto
  ultimately show ?thesis using that h1(1) h' by blast
qed

text \<open>Sending the first node of a queue to its back.\<close>

lemma rotate:
  assumes "isq h q (x # xs)"
  obtains h1 h' where "unlink (Some x) h = Some h1" "push_back (Some x) (Some q) h1 = Some h'"
    "isq h' q (xs @ [x])"
    "\<And>p. p \<notin> insert q (set (x # xs)) \<Longrightarrow> cell h' p = cell h p"
proof -
  obtain h1 where h1: "unlink (Some x) h = Some h1" "isq h1 q xs"
    and f1: "\<And>p. p \<notin> insert q (set (x # xs)) \<Longrightarrow> cell h1 p = cell h p"
    using pop_front [OF assms] by blast
  have "x \<notin> insert q (set xs)" using isq_distinct [OF assms] by auto
  then obtain h' where "push_back (Some x) (Some q) h1 = Some h'" "isq h' q (xs @ [x])"
    "\<And>p. p \<notin> insert x (insert q (set xs)) \<Longrightarrow> cell h' p = cell h1 p"
    using push_back_spec [OF h1(2), of x] by blast
  then show ?thesis using that h1(1) f1 by auto
qed

end

interpretation klist: node_queues dll "\<lambda>h p. h p" list_add_tail list_del list_first list_empty
proof (unfold_locales, goal_cases)
  case (1 h q xs)
  then show ?case by (rule dll_distinct)
next
  case (2 q xs h' h)
  then show ?case using dll_frame [of q xs h' h] by simp
next
  case (3 h q xs new)
  then obtain h' where "list_add_tail (Some new) (Some q) h = Some h'" "dll h' q (xs @ [new])"
    "\<And>p. p \<notin> insert new (insert q (set xs)) \<Longrightarrow> h' p = h p"
    by (rule dll_add_tail) (rule that; assumption)
  then show ?case by (intro exI [of _ h'] conjI allI impI)
next
  case (4 h q xs x ys)
  then obtain h' where "list_del (Some x) h = Some h'" "dll h' q (xs @ ys)"
    "\<And>p. p \<notin> insert q (set (xs @ x # ys)) \<Longrightarrow> h' p = h p"
    by (rule dll_del) (rule that; assumption)
  then show ?case by (intro exI [of _ h'] conjI allI impI)
next
  case (5 h q xs)
  then show ?case by (rule dll_first)
next
  case (6 h q xs)
  then show ?case by (rule dll_empty_iff)
qed

section \<open>FIFO order\<close>

text \<open>Adding a sequence of nodes at the back, and taking \<open>n\<close> nodes from the front.\<close>

fun enqueue_all :: "'p list \<Rightarrow> 'p option \<Rightarrow> 'p lheap \<Rightarrow> 'p lheap option" where
  "enqueue_all [] q h = Some h"
| "enqueue_all (x # xs) q h = do { h \<leftarrow> list_add_tail (Some x) q h; enqueue_all xs q h }"

fun dequeue_n :: "nat \<Rightarrow> 'p option \<Rightarrow> 'p lheap \<Rightarrow> ('p list \<times> 'p lheap) option" where
  "dequeue_n 0 q h = Some ([], h)"
| "dequeue_n (Suc n) q h =
     do { f \<leftarrow> list_first q h;
          h \<leftarrow> list_del f h;
          (rest, h) \<leftarrow> dequeue_n n q h;
          Some (the f # rest, h) }"

lemma enqueue_all_dll:
  assumes "dll h q xs" and "distinct ys" and "set ys \<inter> insert q (set xs) = {}"
  shows "\<exists>h'. enqueue_all ys (Some q) h = Some h' \<and> dll h' q (xs @ ys)"
  using assms
proof (induction ys arbitrary: h xs)
  case (Cons y ys)
  then obtain h' where "list_add_tail (Some y) (Some q) h = Some h'" "dll h' q (xs @ [y])"
    using klist.push_back_spec [of h q xs y] by auto
  with Cons.IH [of h' "xs @ [y]"] Cons.prems show ?case by auto
qed simp

lemma dequeue_n_dll:
  assumes "dll h q (ys @ zs)"
  shows "\<exists>h'. dequeue_n (length ys) (Some q) h = Some (ys, h') \<and> dll h' q zs"
  using assms
proof (induction ys arbitrary: h)
  case (Cons y ys)
  then have "dll h q (y # ys @ zs)" by simp
  then obtain h' where "list_first (Some q) h = Some (Some y)" "list_del (Some y) h = Some h'"
    "dll h' q (ys @ zs)"
    by (rule klist.pop_front) (rule that; assumption)
  with Cons.IH [of h'] show ?case by auto
qed simp

end
