(* ===== verification/CircularBuffer.thy ===== *)
theory CircularBuffer
  imports ZPrelude
begin

text \<open>
  The ring buffer of typed characters (\<open>circular_buffer.c\<close>). Indices are unsigned 32-bit
  words with the modulus written in the code; \<open>buffer\<close> is the array the C pointer designates.
  \<open>contents\<close> reads the ring as the sequence of pending characters, and the operations are shown
  to be those of a bounded FIFO of capacity \<open>size - 1\<close>. What a client of such a FIFO may rely
  on is the locale \<open>bounded_fifo\<close>, interpreted on the code's operations.

  In the C code \<open>circular_buffer_init\<close> makes \<open>buffer\<close> point to its own automatic array, whose
  lifetime ends when it returns. The array is an argument of the model, and the model takes it
  as storage that nothing else writes.
\<close>

section \<open>State and operations\<close>

record circular_buffer =
  head :: DWord
  tail :: DWord
  cb_size :: DWord
  num_elem :: DWord
  buffer :: "Byte list"

definition circular_buffer_init :: "Byte list \<Rightarrow> int \<Rightarrow> circular_buffer option" where
  "circular_buffer_init buff sz =
     (if 0 < sz \<and> sz \<le> INT_MAX \<and> length buff = nat sz
      then Some \<lparr>head = 0, tail = 0, cb_size = to_u32 sz, num_elem = 0, buffer = buff\<rparr>
      else None)"

definition circular_buffer_reset :: "circular_buffer \<Rightarrow> circular_buffer" where
  "circular_buffer_reset cb = cb\<lparr>head := 0, tail := 0\<rparr>"

definition circular_buf_empty :: "circular_buffer \<Rightarrow> bool" where
  "circular_buf_empty cb \<longleftrightarrow> head cb = tail cb"

text \<open>Unsigned remainder; by zero it traps.\<close>

definition u_mod :: "DWord \<Rightarrow> DWord \<Rightarrow> DWord option" where
  "u_mod a b = (if b = 0 then None else Some (a mod b))"

definition circular_buf_full :: "circular_buffer \<Rightarrow> bool option" where
  "circular_buf_full cb =
     do { r \<leftarrow> u_mod (head cb + 1) (cb_size cb);
          Some (r = tail cb) }"

definition circular_buf_num_elems :: "circular_buffer \<Rightarrow> int" where
  "circular_buf_num_elems cb = to_s32 (num_elem cb)"

definition circular_buf_put :: "Byte \<Rightarrow> circular_buffer \<Rightarrow> (int \<times> circular_buffer) option" where
  "circular_buf_put data cb =
     do { full \<leftarrow> circular_buf_full cb;
          if full then Some (-1, cb)
          else if unat (head cb) < length (buffer cb) then
            do { h \<leftarrow> u_mod (head cb + 1) (cb_size cb);
                 Some (0, cb\<lparr>buffer := (buffer cb)[unat (head cb) := data],
                             head := h, num_elem := num_elem cb + 1\<rparr>) }
          else None }"

text \<open>The second component is what was stored through \<open>data\<close>, None when nothing was.\<close>

definition circular_buf_read ::
  "circular_buffer \<Rightarrow> (int \<times> Byte option \<times> circular_buffer) option" where
  "circular_buf_read cb =
     (if circular_buf_empty cb then Some (-1, None, cb)
      else if unat (tail cb) < length (buffer cb) then
        do { t \<leftarrow> u_mod (tail cb + 1) (cb_size cb);
             Some (0, Some (buffer cb ! unat (tail cb)),
                   cb\<lparr>tail := t, num_elem := num_elem cb - 1\<rparr>) }
      else None)"

section \<open>Abstraction\<close>

definition cb_ok :: "circular_buffer \<Rightarrow> bool" where
  "cb_ok cb \<longleftrightarrow> 0 < unat (cb_size cb) \<and> unat (cb_size cb) \<le> 2147483647
     \<and> length (buffer cb) = unat (cb_size cb)
     \<and> unat (head cb) < unat (cb_size cb) \<and> unat (tail cb) < unat (cb_size cb)
     \<and> unat (num_elem cb) < unat (cb_size cb)
     \<and> unat (head cb) = (unat (tail cb) + unat (num_elem cb)) mod unat (cb_size cb)"

definition contents :: "circular_buffer \<Rightarrow> Byte list" where
  "contents cb = map (\<lambda>i. buffer cb ! ((unat (tail cb) + i) mod unat (cb_size cb)))
                     [0..<unat (num_elem cb)]"

definition capacity :: "circular_buffer \<Rightarrow> nat" where
  "capacity cb = unat (cb_size cb) - 1"

lemma length_contents [simp]: "length (contents cb) = unat (num_elem cb)"
  by (simp add: contents_def)

lemma contents_le_capacity: "cb_ok cb \<Longrightarrow> length (contents cb) \<le> capacity cb"
  by (auto simp: cb_ok_def capacity_def)

lemma unat_Suc_mod:
  fixes h s :: DWord
  assumes "unat h < unat s"
  shows "unat ((h + 1) mod s) = Suc (unat h) mod unat s"
proof -
  have "unat h + unat (1 :: DWord) < 4294967296"
    using assms unat_lt_power [of s] by (simp del: unat_lt_power)
  then have "unat (h + 1) = Suc (unat h)" by (simp add: unat_add_u32)
  then show ?thesis by (simp add: unat_mod)
qed

text \<open>With \<open>0 \<le> n < s\<close> pending characters, the ring distances decide emptiness and fullness.\<close>

lemma ring_empty_iff:
  assumes "(n :: nat) < s" and "t < s"
  shows "(t + n) mod s = t \<longleftrightarrow> n = 0"
  using assms by (cases "t + n < s") (auto simp: mod_if)

lemma ring_full_iff:
  assumes "(n :: nat) < s" and "t < s"
  shows "Suc ((t + n) mod s) mod s = t \<longleftrightarrow> Suc n = s"
proof (cases "Suc n = s")
  case True
  have "Suc ((t + n) mod s) mod s = (t + Suc n) mod s" by (simp add: mod_Suc_eq)
  with True assms show ?thesis by simp
next
  case False
  with assms have "Suc n < s" by simp
  have "Suc ((t + n) mod s) mod s = (t + Suc n) mod s" by (simp add: mod_Suc_eq)
  with ring_empty_iff [OF \<open>Suc n < s\<close> assms(2)] False show ?thesis by simp
qed

lemma empty_iff_contents: "cb_ok cb \<Longrightarrow> circular_buf_empty cb \<longleftrightarrow> contents cb = []"
proof -
  assume ok: "cb_ok cb"
  have "head cb = tail cb \<longleftrightarrow> unat (head cb) = unat (tail cb)"
    by (simp add: word_unat_eq_iff)
  also have "\<dots> \<longleftrightarrow> unat (num_elem cb) = 0"
    using ok ring_empty_iff [of "unat (num_elem cb)" "unat (cb_size cb)" "unat (tail cb)"]
    by (simp add: cb_ok_def)
  finally show ?thesis
    by (simp add: circular_buf_empty_def contents_def)
qed

lemma cb_size_neq_0: "cb_ok cb \<Longrightarrow> cb_size cb \<noteq> 0"
  by (auto simp: cb_ok_def)

lemma full_iff_contents:
  "cb_ok cb \<Longrightarrow> circular_buf_full cb = Some (length (contents cb) = capacity cb)"
proof -
  assume ok: "cb_ok cb"
  have "(head cb + 1) mod cb_size cb = tail cb \<longleftrightarrow>
    Suc (unat (head cb)) mod unat (cb_size cb) = unat (tail cb)"
    using ok by (simp add: word_unat_eq_iff [where v = "_ mod _"] unat_Suc_mod cb_ok_def)
  also have "\<dots> \<longleftrightarrow> Suc (unat (num_elem cb)) = unat (cb_size cb)"
    using ok ring_full_iff [of "unat (num_elem cb)" "unat (cb_size cb)" "unat (tail cb)"]
    by (simp add: cb_ok_def)
  also have "\<dots> \<longleftrightarrow> length (contents cb) = capacity cb"
    using ok by (auto simp: capacity_def cb_ok_def)
  finally show ?thesis
    using cb_size_neq_0 [OF ok] by (simp add: circular_buf_full_def u_mod_def)
qed

lemma num_elems_contents: "cb_ok cb \<Longrightarrow> circular_buf_num_elems cb = int (length (contents cb))"
proof -
  assume "cb_ok cb"
  then have "unat (num_elem cb) < 2147483648" by (simp add: cb_ok_def)
  then show ?thesis
    by (simp add: circular_buf_num_elems_def to_s32_small)
qed

section \<open>The operations on the abstraction\<close>

lemma ring_index_inj:
  fixes i j t s :: nat
  assumes "i < s" and "j < s" and "(t + i) mod s = (t + j) mod s"
  shows "i = j"
proof -
  have idx: "(t + k) mod s = (if t mod s + k < s then t mod s + k else t mod s + k - s)"
    if "k < s" for k
  proof -
    define r where "r = t mod s"
    have "r < s" using that by (auto simp: r_def)
    with that have "r + k - s < s" by linarith
    with \<open>r < s\<close> have "(r + k) mod s = (if r + k < s then r + k else r + k - s)"
      by (intro mod_nat_eqI) auto
    then show ?thesis by (simp add: mod_add_left_eq r_def)
  qed
  have "t mod s < s" using assms(1) by auto
  then show ?thesis
    using assms idx [OF assms(1)] idx [OF assms(2)] by (simp split: if_splits)
qed

lemma init_ok:
  assumes "0 < sz" and "sz \<le> INT_MAX" and "length buff = nat sz"
  shows "\<exists>cb. circular_buffer_init buff sz = Some cb \<and> cb_ok cb \<and> contents cb = [] \<and>
    capacity cb = nat sz - 1"
proof -
  have "unat (to_u32 sz) = nat sz"
    using assms by (simp add: unat_to_u32)
  then show ?thesis
    using assms by (simp add: circular_buffer_init_def cb_ok_def contents_def capacity_def)
qed

lemma put_full:
  assumes "cb_ok cb" and "length (contents cb) = capacity cb"
  shows "circular_buf_put c cb = Some (-1, cb)"
  using full_iff_contents [OF assms(1)] assms(2) by (simp add: circular_buf_put_def)

lemma put_room:
  assumes ok: "cb_ok cb" and room: "length (contents cb) < capacity cb"
  shows "\<exists>cb'. circular_buf_put c cb = Some (0, cb') \<and> cb_ok cb' \<and>
    contents cb' = contents cb @ [c] \<and> capacity cb' = capacity cb"
proof -
  let ?s = "unat (cb_size cb)" and ?t = "unat (tail cb)" and ?n = "unat (num_elem cb)"
  define cb' where "cb' = cb\<lparr>buffer := (buffer cb)[unat (head cb) := c],
    head := (head cb + 1) mod cb_size cb, num_elem := num_elem cb + 1\<rparr>"
  have put: "circular_buf_put c cb = Some (0, cb')"
    using ok room full_iff_contents [OF ok] cb_size_neq_0 [OF ok]
    by (simp add: circular_buf_put_def u_mod_def cb'_def cb_ok_def)
  have n: "Suc ?n < ?s" using room by (simp add: capacity_def)
  have num: "unat (num_elem cb + 1) = Suc ?n"
    using n ok by (subst unat_add_u32) (auto simp: cb_ok_def)
  have h: "unat (head cb) = (?t + ?n) mod ?s" using ok by (simp add: cb_ok_def)
  have ok': "cb_ok cb'"
    using ok n num h by (auto simp: cb_ok_def cb'_def unat_Suc_mod mod_Suc_eq)
  have "contents cb' = map (\<lambda>i. (buffer cb)[(?t + ?n) mod ?s := c] ! ((?t + i) mod ?s)) [0..<Suc ?n]"
    by (simp add: contents_def cb'_def num h)
  also have "\<dots> = map (\<lambda>i. (buffer cb)[(?t + ?n) mod ?s := c] ! ((?t + i) mod ?s)) [0..<?n] @ [c]"
    using ok by (simp add: cb_ok_def)
  also have "map (\<lambda>i. (buffer cb)[(?t + ?n) mod ?s := c] ! ((?t + i) mod ?s)) [0..<?n] = contents cb"
    unfolding contents_def
  proof (rule map_cong [OF refl])
    fix i assume "i \<in> set [0..<?n]"
    then have "(?t + ?n) mod ?s \<noteq> (?t + i) mod ?s"
      using ring_index_inj [of ?n ?s i ?t] n by auto
    then show "(buffer cb)[(?t + ?n) mod ?s := c] ! ((?t + i) mod ?s) = buffer cb ! ((?t + i) mod ?s)"
      by simp
  qed
  finally show ?thesis
    using put ok' by (auto simp: cb'_def capacity_def)
qed

lemma read_empty:
  assumes "cb_ok cb" and "contents cb = []"
  shows "circular_buf_read cb = Some (-1, None, cb)"
  using empty_iff_contents [OF assms(1)] assms(2) by (simp add: circular_buf_read_def)

lemma read_first:
  assumes ok: "cb_ok cb" and items: "contents cb = x # xs"
  shows "\<exists>cb'. circular_buf_read cb = Some (0, Some x, cb') \<and> cb_ok cb' \<and>
    contents cb' = xs \<and> capacity cb' = capacity cb"
proof -
  let ?s = "unat (cb_size cb)" and ?t = "unat (tail cb)" and ?n = "unat (num_elem cb)"
  define cb' where "cb' = cb\<lparr>tail := (tail cb + 1) mod cb_size cb, num_elem := num_elem cb - 1\<rparr>"
  have n: "?n = Suc (length xs)" using items length_contents [of cb] by simp
  have items': "contents cb = buffer cb ! ?t #
      map (\<lambda>i. buffer cb ! ((?t + Suc i) mod ?s)) [0..<length xs]"
    using n ok by (simp add: contents_def upt_conv_Cons map_Suc_upt [symmetric] cb_ok_def
        del: upt_Suc)
  have "num_elem cb \<noteq> 0" using n by auto
  then have num: "unat (num_elem cb - 1) = length xs" using n by (simp add: unat_minus_one)
  have rd: "circular_buf_read cb = Some (0, Some x, cb')"
    using ok items items' empty_iff_contents [OF ok] cb_size_neq_0 [OF ok]
    by (simp add: circular_buf_read_def u_mod_def cb'_def cb_ok_def)
  have ok': "cb_ok cb'"
    using ok n num
    by (auto simp: cb_ok_def cb'_def unat_Suc_mod mod_Suc_eq mod_add_left_eq)
  have "contents cb' = map (\<lambda>i. buffer cb ! ((Suc ?t mod ?s + i) mod ?s)) [0..<length xs]"
    using ok by (simp add: contents_def cb'_def num unat_Suc_mod cb_ok_def)
  also have "\<dots> = xs"
    using items items' by (simp add: mod_add_left_eq)
  finally show ?thesis
    using rd ok' by (auto simp: cb'_def capacity_def)
qed

section \<open>Bounded FIFOs\<close>

text \<open>
  Scripts of operations, what they answer, and their specification on a list of at most
  \<open>cap\<close> items: a full queue refuses (-1) and keeps its items, an empty one answers -1.
\<close>

datatype 'c fifo_op = Put 'c | Get

datatype 'c fifo_out = PutRet int | GetRet int "'c option"

fun fifo_spec :: "nat \<Rightarrow> 'c fifo_op list \<Rightarrow> 'c list \<Rightarrow> 'c fifo_out list \<times> 'c list" where
  "fifo_spec cap [] q = ([], q)"
| "fifo_spec cap (Put c # ops) q =
     (if length q < cap
      then (let (os, q') = fifo_spec cap ops (q @ [c]) in (PutRet 0 # os, q'))
      else (let (os, q') = fifo_spec cap ops q in (PutRet (-1) # os, q')))"
| "fifo_spec cap (Get # ops) q =
     (case q of
        [] \<Rightarrow> (let (os, q') = fifo_spec cap ops [] in (GetRet (-1) None # os, q'))
      | x # xs \<Rightarrow> (let (os, q') = fifo_spec cap ops xs in (GetRet 0 (Some x) # os, q')))"

fun fifo_run :: "('c \<Rightarrow> 'b \<Rightarrow> (int \<times> 'b) option) \<Rightarrow> ('b \<Rightarrow> (int \<times> 'c option \<times> 'b) option)
    \<Rightarrow> 'c fifo_op list \<Rightarrow> 'b \<Rightarrow> ('c fifo_out list \<times> 'b) option" where
  "fifo_run put get [] b = Some ([], b)"
| "fifo_run put get (Put c # ops) b =
     do { (r, b) \<leftarrow> put c b;
          (os, b) \<leftarrow> fifo_run put get ops b;
          Some (PutRet r # os, b) }"
| "fifo_run put get (Get # ops) b =
     do { (r, x, b) \<leftarrow> get b;
          (os, b) \<leftarrow> fifo_run put get ops b;
          Some (GetRet r x # os, b) }"

locale bounded_fifo =
  fixes inv :: "'b \<Rightarrow> bool"
    and items :: "'b \<Rightarrow> 'c list"
    and cap :: "'b \<Rightarrow> nat"
    and put :: "'c \<Rightarrow> 'b \<Rightarrow> (int \<times> 'b) option"
    and get :: "'b \<Rightarrow> (int \<times> 'c option \<times> 'b) option"
  assumes bound: "inv b \<Longrightarrow> length (items b) \<le> cap b"
    and put_accepts: "inv b \<Longrightarrow> length (items b) < cap b \<Longrightarrow>
      \<exists>b'. put c b = Some (0, b') \<and> inv b' \<and> items b' = items b @ [c] \<and> cap b' = cap b"
    and put_refuses: "inv b \<Longrightarrow> length (items b) = cap b \<Longrightarrow> put c b = Some (-1, b)"
    and get_first: "inv b \<Longrightarrow> items b = x # xs \<Longrightarrow>
      \<exists>b'. get b = Some (0, Some x, b') \<and> inv b' \<and> items b' = xs \<and> cap b' = cap b"
    and get_refuses: "inv b \<Longrightarrow> items b = [] \<Longrightarrow> get b = Some (-1, None, b)"
begin

text \<open>Every script runs, answers as specified and leaves the specified items.\<close>

lemma run_refines:
  assumes "inv b"
  shows "\<exists>b'. fifo_run put get ops b = Some (fst (fifo_spec (cap b) ops (items b)), b') \<and>
    inv b' \<and> items b' = snd (fifo_spec (cap b) ops (items b)) \<and> cap b' = cap b"
  using assms
proof (induction ops arbitrary: b)
  case (Cons op ops)
  show ?case
  proof (cases op)
    case (Put c)
    show ?thesis
    proof (cases "length (items b) < cap b")
      case True
      with put_accepts [OF Cons.prems] obtain b1 where b1: "put c b = Some (0, b1)" "inv b1"
        "items b1 = items b @ [c]" "cap b1 = cap b" by blast
      with Cons.IH [of b1] Put True show ?thesis by (auto split: prod.splits)
    next
      case False
      with bound [OF Cons.prems] have "length (items b) = cap b" by simp
      with put_refuses [OF Cons.prems] Cons.IH [OF Cons.prems] Put show ?thesis
        by (auto split: prod.splits)
    qed
  next
    case Get
    show ?thesis
    proof (cases "items b")
      case Nil
      with get_refuses [OF Cons.prems] Cons.IH [OF Cons.prems] Get show ?thesis
        by (auto split: prod.splits)
    next
      case (Cons x xs)
      with get_first [OF Cons.prems(1)] obtain b1 where b1: "get b = Some (0, Some x, b1)" "inv b1"
        "items b1 = xs" "cap b1 = cap b" by blast
      with Cons.IH [of b1] Get Cons show ?thesis by (auto split: prod.splits)
    qed
  qed
qed simp

text \<open>Reading \<open>n\<close> items, when they are there, takes exactly the first \<open>n\<close>.\<close>

lemma get_many:
  assumes "inv b" and "n \<le> length (items b)"
  shows "\<exists>b'. fifo_run put get (replicate n Get) b
      = Some (map (\<lambda>x. GetRet 0 (Some x)) (take n (items b)), b') \<and>
    inv b' \<and> items b' = drop n (items b) \<and> cap b' = cap b"
  using assms
proof (induction n arbitrary: b)
  case (Suc n)
  then obtain x xs where xs: "items b = x # xs" by (cases "items b") auto
  with get_first Suc.prems obtain b1 where "get b = Some (0, Some x, b1)" "inv b1"
    "items b1 = xs" "cap b1 = cap b" by blast
  with Suc.IH [of b1] Suc.prems xs show ?case by auto
qed simp

end

interpretation ring: bounded_fifo cb_ok contents capacity circular_buf_put circular_buf_read
proof (unfold_locales, goal_cases)
  case (1 b)
  then show ?case by (rule contents_le_capacity)
next
  case (2 b c)
  then show ?case by (rule put_room)
next
  case (3 b c)
  then show ?case by (rule put_full)
next
  case (4 b x xs)
  then show ?case by (rule read_first)
next
  case (5 b)
  then show ?case by (rule read_empty)
qed

text \<open>
  \<open>circular_buffer_reset\<close> makes the ring empty but leaves the element counter, so the two
  emptiness tests the driver uses disagree afterwards.
\<close>

lemma reset_keeps_count:
  "circular_buf_empty (circular_buffer_reset cb) \<and>
   circular_buf_num_elems (circular_buffer_reset cb) = circular_buf_num_elems cb"
  by (simp add: circular_buf_empty_def circular_buffer_reset_def circular_buf_num_elems_def)

end
