(* ===== verification/ZTypes.thy ===== *)
theory ZTypes
  imports ZPrelude
begin

text \<open>
  The constants of \<open>mm_address.h\<close>, \<open>sched.h\<close>, \<open>segment.h\<close> and \<open>errno.h\<close> the
  kernel uses, the word-splitting macros of \<open>types.h\<close>, and the page table entry: a 32-bit word
  whose bit-fields are laid out from the least significant bit, as the x86 ABI does and the MMU
  requires. What a bit-field promises to its users is the locale \<open>bit_field\<close>.
\<close>

section \<open>Memory layout\<close>

definition ENTRY_DIR_PAGES :: nat where "ENTRY_DIR_PAGES = 0"
definition TOTAL_PAGES :: nat where "TOTAL_PAGES = 1024"
definition NUM_PAG_KERNEL :: nat where "NUM_PAG_KERNEL = 256"
definition NUM_PAG_CODE :: nat where "NUM_PAG_CODE = 8"
definition NUM_PAG_DATA :: nat where "NUM_PAG_DATA = 20"
definition PAGE_SIZE :: nat where "PAGE_SIZE = 0x1000"
definition KERNEL_START :: nat where "KERNEL_START = 0x10000"
definition L_USER_START :: nat where "L_USER_START = 0x100000"
definition PH_USER_START :: nat where "PH_USER_START = 0x100000"

text \<open>The macro \<open>PH_PAGE(x)\<close> on an unsigned value.\<close>

definition PH_PAGE :: "DWord \<Rightarrow> DWord" where "PH_PAGE x = drop_bit 12 x"

definition PAG_LOG_INIT_CODE :: nat where "PAG_LOG_INIT_CODE = L_USER_START div 2 ^ 12"
definition FRAME_INIT_CODE :: nat where "FRAME_INIT_CODE = PH_USER_START div 2 ^ 12"
definition PAG_LOG_INIT_DATA :: nat where "PAG_LOG_INIT_DATA = PAG_LOG_INIT_CODE + NUM_PAG_CODE"
definition USER_FIRST_PAGE :: nat where "USER_FIRST_PAGE = L_USER_START div 2 ^ 12"
definition USER_ESP :: nat where
  "USER_ESP = L_USER_START + (NUM_PAG_CODE + NUM_PAG_DATA) * 0x1000 - 16"

lemma layout_values [simp, const_simps]:
  "ENTRY_DIR_PAGES = 0" "TOTAL_PAGES = 1024" "NUM_PAG_KERNEL = 256" "NUM_PAG_CODE = 8"
  "NUM_PAG_DATA = 20" "PAGE_SIZE = 4096" "KERNEL_START = 65536" "L_USER_START = 1048576"
  "PH_USER_START = 1048576" "PAG_LOG_INIT_CODE = 256" "FRAME_INIT_CODE = 256"
  "PAG_LOG_INIT_DATA = 264" "USER_FIRST_PAGE = 256" "USER_ESP = 1163248"
  by (simp_all add: ENTRY_DIR_PAGES_def TOTAL_PAGES_def NUM_PAG_KERNEL_def NUM_PAG_CODE_def
      NUM_PAG_DATA_def PAGE_SIZE_def KERNEL_START_def L_USER_START_def PH_USER_START_def
      PAG_LOG_INIT_CODE_def FRAME_INIT_CODE_def PAG_LOG_INIT_DATA_def USER_FIRST_PAGE_def
      USER_ESP_def)

definition NR_TASKS :: nat where "NR_TASKS = 10"
definition KERNEL_STACK_SIZE :: nat where "KERNEL_STACK_SIZE = 1024"
definition QUANTUM :: DWord where "QUANTUM = 300"
definition NR_SEMAPHORES :: nat where "NR_SEMAPHORES = 20"

lemma sched_values [simp, const_simps]:
  "NR_TASKS = 10" "KERNEL_STACK_SIZE = 1024" "QUANTUM = 300" "NR_SEMAPHORES = 20"
  by (simp_all add: NR_TASKS_def KERNEL_STACK_SIZE_def QUANTUM_def NR_SEMAPHORES_def)

section \<open>Error numbers and segment selectors\<close>

definition EBADF :: int where "EBADF = 9"
definition EAGAIN :: int where "EAGAIN = 11"
definition ENOMEM :: int where "ENOMEM = 12"
definition EACCES :: int where "EACCES = 13"
definition EFAULT :: int where "EFAULT = 14"
definition EINVAL :: int where "EINVAL = 22"
definition ENOSYS :: int where "ENOSYS = 38"
definition ENAVAIL :: int where "ENAVAIL = 119"

lemma errno_values [simp, const_simps]:
  "EBADF = 9" "EAGAIN = 11" "ENOMEM = 12" "EACCES = 13" "EFAULT = 14" "EINVAL = 22"
  "ENOSYS = 38" "ENAVAIL = 119"
  by (simp_all add: EBADF_def EAGAIN_def ENOMEM_def EACCES_def EFAULT_def EINVAL_def
      ENOSYS_def ENAVAIL_def)

definition KERNEL_CS :: Word where "KERNEL_CS = 0x10"
definition KERNEL_DS :: Word where "KERNEL_DS = 0x18"
definition USER_CS :: Word where "USER_CS = 0x23"
definition USER_DS :: Word where "USER_DS = 0x2B"
definition KERNEL_TSS :: Word where "KERNEL_TSS = 0x30"
definition GDT_START :: DWord where "GDT_START = 0x901b3"

section \<open>Splitting addresses\<close>

definition highWord :: "DWord \<Rightarrow> Word" where
  "highWord address = ucast (drop_bit 16 address AND 0xFFFF)"

definition lowWord :: "DWord \<Rightarrow> Word" where
  "lowWord address = ucast (address AND 0xFFFF)"

definition midByte :: "DWord \<Rightarrow> Byte" where
  "midByte address = ucast (drop_bit 16 address AND 0xFF)"

definition highByte :: "DWord \<Rightarrow> Byte" where
  "highByte address = ucast (drop_bit (16 + 8) address AND 0xFF)"

section \<open>Bit-fields\<close>

definition field_get :: "nat \<Rightarrow> nat \<Rightarrow> DWord \<Rightarrow> DWord" where
  "field_get lo len w = take_bit len (drop_bit lo w)"

definition field_set :: "nat \<Rightarrow> nat \<Rightarrow> DWord \<Rightarrow> DWord \<Rightarrow> DWord" where
  "field_set lo len v w = (w AND NOT (push_bit lo (mask len))) OR push_bit lo (take_bit len v)"

lemma bit_field_set:
  "n < 32 \<Longrightarrow> bit (field_set lo len v w) n \<longleftrightarrow>
    (if lo \<le> n \<and> n < lo + len then bit v (n - lo) else bit w n)"
  by (auto simp: field_set_def bit_simps)

lemma bit_field_get:
  "bit (field_get lo len w) n \<longleftrightarrow> n < len \<and> bit w (lo + n)"
  by (auto simp: field_get_def bit_simps)

text \<open>A field of a 32-bit word: where it starts and how wide it is.\<close>

locale bit_field =
  fixes get :: "DWord \<Rightarrow> DWord" and put :: "DWord \<Rightarrow> DWord \<Rightarrow> DWord"
    and lo len :: nat
  assumes inside: "lo + len \<le> 32"
    and get_bits: "bit (get w) n \<longleftrightarrow> n < len \<and> bit w (lo + n)"
    and put_bits: "n < 32 \<Longrightarrow>
      bit (put v w) n \<longleftrightarrow> (if lo \<le> n \<and> n < lo + len then bit v (n - lo) else bit w n)"
begin

lemma get_put: "get (put v w) = take_bit len v"
  by (rule bit_word_eqI) (use inside in \<open>auto simp: get_bits put_bits bit_simps\<close>)

lemma get_put_range: "get (put v w) = v" if "take_bit len v = v"
  using that by (simp add: get_put)

lemma put_put: "put v (put v' w) = put v w"
  by (rule bit_word_eqI) (auto simp: put_bits)

lemma put_get: "put (get w) w = w"
  by (rule bit_word_eqI) (use inside in \<open>auto simp: put_bits get_bits\<close>)

text \<open>Writing another field that does not overlap leaves this one.\<close>

lemma get_put_other:
  assumes "bit_field g p lo' len'" and "lo + len \<le> lo' \<or> lo' + len' \<le> lo"
  shows "get (p v w) = get w"
  by (rule bit_word_eqI)
    (use inside assms(2) in \<open>auto simp: get_bits bit_field.put_bits [OF assms(1)]\<close>)

end

lemma bit_fieldI: "lo + len \<le> 32 \<Longrightarrow> bit_field (field_get lo len) (field_set lo len) lo len"
  by unfold_locales (auto simp: bit_field_get bit_field_set)

section \<open>Page table entries\<close>

text \<open>\<open>entry\<close> is the whole word; the names below are the members of \<open>bits\<close>.\<close>

type_synonym page_table_entry = DWord

definition get_present :: "page_table_entry \<Rightarrow> DWord" where "get_present = field_get 0 1"
definition get_rw :: "page_table_entry \<Rightarrow> DWord" where "get_rw = field_get 1 1"
definition get_user :: "page_table_entry \<Rightarrow> DWord" where "get_user = field_get 2 1"
definition get_pbase_addr :: "page_table_entry \<Rightarrow> DWord" where "get_pbase_addr = field_get 12 20"
definition set_present :: "DWord \<Rightarrow> page_table_entry \<Rightarrow> page_table_entry" where
  "set_present = field_set 0 1"
definition set_rw :: "DWord \<Rightarrow> page_table_entry \<Rightarrow> page_table_entry" where
  "set_rw = field_set 1 1"
definition set_user :: "DWord \<Rightarrow> page_table_entry \<Rightarrow> page_table_entry" where
  "set_user = field_set 2 1"
definition set_pbase_addr :: "DWord \<Rightarrow> page_table_entry \<Rightarrow> page_table_entry" where
  "set_pbase_addr = field_set 12 20"

interpretation present: bit_field get_present set_present 0 1
  unfolding get_present_def set_present_def by (rule bit_fieldI) simp

interpretation rw: bit_field get_rw set_rw 1 1
  unfolding get_rw_def set_rw_def by (rule bit_fieldI) simp

interpretation user: bit_field get_user set_user 2 1
  unfolding get_user_def set_user_def by (rule bit_fieldI) simp

interpretation pbase: bit_field get_pbase_addr set_pbase_addr 12 20
  unfolding get_pbase_addr_def set_pbase_addr_def by (rule bit_fieldI) simp

lemmas pte_own = present.get_put rw.get_put user.get_put pbase.get_put

lemma pte_other:
  "get_present (set_rw v w) = get_present w" "get_present (set_user v w) = get_present w"
  "get_present (set_pbase_addr v w) = get_present w"
  "get_rw (set_present v w) = get_rw w" "get_rw (set_user v w) = get_rw w"
  "get_rw (set_pbase_addr v w) = get_rw w"
  "get_user (set_present v w) = get_user w" "get_user (set_rw v w) = get_user w"
  "get_user (set_pbase_addr v w) = get_user w"
  "get_pbase_addr (set_present v w) = get_pbase_addr w"
  "get_pbase_addr (set_rw v w) = get_pbase_addr w"
  "get_pbase_addr (set_user v w) = get_pbase_addr w"
  by (rule present.get_put_other [OF rw.bit_field_axioms], simp
    | rule present.get_put_other [OF user.bit_field_axioms], simp
    | rule present.get_put_other [OF pbase.bit_field_axioms], simp
    | rule rw.get_put_other [OF present.bit_field_axioms], simp
    | rule rw.get_put_other [OF user.bit_field_axioms], simp
    | rule rw.get_put_other [OF pbase.bit_field_axioms], simp
    | rule user.get_put_other [OF present.bit_field_axioms], simp
    | rule user.get_put_other [OF rw.bit_field_axioms], simp
    | rule user.get_put_other [OF pbase.bit_field_axioms], simp
    | rule pbase.get_put_other [OF present.bit_field_axioms], simp
    | rule pbase.get_put_other [OF rw.bit_field_axioms], simp
    | rule pbase.get_put_other [OF user.bit_field_axioms], simp)+

lemmas pte_simps [simp] = pte_own pte_other

lemma field_zero [simp]: "get_present 0 = 0" "get_rw 0 = 0" "get_user 0 = 0" "get_pbase_addr 0 = 0"
  by (simp_all add: get_present_def get_rw_def get_user_def get_pbase_addr_def field_get_def)

lemma entry_present_nonzero: "get_present e = 1 \<Longrightarrow> e \<noteq> 0"
  by auto

lemma get_pbase_bound: "unat (get_pbase_addr e) < 1048576"
proof -
  have "unat (take_bit 20 (drop_bit 12 e)) = take_bit 20 (unat (drop_bit 12 e))"
    by (rule unsigned_take_bit_eq)
  also have "\<dots> < 2 ^ 20" by (rule take_bit_nat_less_exp)
  finally show ?thesis by (simp add: get_pbase_addr_def field_get_def)
qed

end
