(* ===== verification/Frames.thy ===== *)
theory Frames
  imports ZTypes
begin

text \<open>
  Physical frames (\<open>phys_mem\<close> and \<open>init_frames\<close>, \<open>alloc_frame\<close>, \<open>free_frame\<close> of
  \<open>mm.c\<close>). The byte map says which frames are used; allocation scans the even frames upwards
  from the first user frame and leaves holes, as the code's comment intends. The allocate-or-give-
  everything-back loop that \<open>sys_fork\<close> and \<open>sys_sbrk\<close> share is a function of its own, and what
  it needs of the allocator is the locale \<open>frame_allocator\<close>.
\<close>

section \<open>Operations\<close>

type_synonym frame_map = "nat \<Rightarrow> Byte"

definition FREE_FRAME :: Byte where "FREE_FRAME = 0"
definition USED_FRAME :: Byte where "USED_FRAME = 1"

lemma frame_marks [simp]: "FREE_FRAME = 0" "USED_FRAME = 1"
  by (simp_all add: FREE_FRAME_def USED_FRAME_def)

definition init_frames :: "frame_map \<Rightarrow> frame_map" where
  "init_frames pm =
     (let pm = for_loop 0 TOTAL_PAGES (\<lambda>i pm. pm(i := FREE_FRAME)) pm
      in for_loop 0 NUM_PAG_KERNEL (\<lambda>i pm. pm(i := USED_FRAME)) pm)"

function alloc_frame_from :: "nat \<Rightarrow> frame_map \<Rightarrow> int \<times> frame_map" where
  "alloc_frame_from i pm =
     (if i < TOTAL_PAGES
      then if pm i = FREE_FRAME then (int i, pm(i := USED_FRAME))
           else alloc_frame_from (i + 2) pm
      else (-1, pm))"
  by pat_completeness auto
termination
  by (relation "measure (\<lambda>(i, pm). TOTAL_PAGES - i)") auto

declare alloc_frame_from.simps [simp del]

definition alloc_frame :: "frame_map \<Rightarrow> int \<times> frame_map" where
  "alloc_frame pm = alloc_frame_from NUM_PAG_KERNEL pm"

definition free_frame :: "DWord \<Rightarrow> frame_map \<Rightarrow> frame_map" where
  "free_frame frame pm =
     (if NUM_PAG_KERNEL < unat frame \<and> unat frame < TOTAL_PAGES
      then pm(unat frame := FREE_FRAME) else pm)"

text \<open>
  \<open>for (i = 0; i < n; i++) { fs[i] = alloc_frame(); if (fs[i] < 0) { for (j = 0; j < i; j++)
  free_frame(fs[j]); return -ENOMEM; } }\<close>: None is the error exit, after the frames were
  given back. \<open>al\<close> and \<open>fr\<close> are the two operations it calls.
\<close>

fun alloc_loop :: "('m \<Rightarrow> int \<times> 'm) \<Rightarrow> (DWord \<Rightarrow> 'm \<Rightarrow> 'm) \<Rightarrow> nat \<Rightarrow> int list \<Rightarrow> 'm
    \<Rightarrow> int list option \<times> 'm" where
  "alloc_loop al fr 0 fs m = (Some fs, m)"
| "alloc_loop al fr (Suc k) fs m =
     (let (f, m') = al m
      in if f < 0 then (None, fold (\<lambda>g. fr (to_u32 g)) fs m')
         else alloc_loop al fr k (fs @ [f]) m')"

definition alloc_frames :: "nat \<Rightarrow> frame_map \<Rightarrow> int list option \<times> frame_map" where
  "alloc_frames n pm = alloc_loop alloc_frame free_frame n [] pm"

section \<open>The set of available frames\<close>

definition avail :: "frame_map \<Rightarrow> nat set" where
  "avail pm = {f. 256 \<le> f \<and> f < 1024 \<and> even f \<and> pm f = 0}"

lemma finite_avail [simp]: "finite (avail pm)"
  by (rule finite_subset [of _ "{..<1024}"]) (auto simp: avail_def)

lemma avail_upd_used: "avail (pm(f := 1)) = avail pm - {f}"
  by (auto simp: avail_def)

lemma avail_upd_free:
  "avail (pm(f := 0)) = (if 256 \<le> f \<and> f < 1024 \<and> even f then insert f (avail pm) else avail pm)"
  by (auto simp: avail_def)

lemma init_frames_eq: "init_frames pm = (\<lambda>f. if f < 256 then 1 else if f < 1024 then 0 else pm f)"
  by (simp add: init_frames_def for_loop_store fun_eq_iff)

lemma avail_init: "avail (init_frames pm) = {f. 256 \<le> f \<and> f < 1024 \<and> even f}"
  by (auto simp: avail_def init_frames_eq)

text \<open>The scan returns the lowest available frame.\<close>

lemma alloc_frame_from_spec:
  assumes "even i" and "256 \<le> i"
  shows "alloc_frame_from i pm =
    (if avail pm \<inter> {i..} = {} then (-1, pm)
     else let f = Min (avail pm \<inter> {i..}) in (int f, pm(f := 1)))"
  using assms
proof (induction i pm rule: alloc_frame_from.induct)
  case (1 i pm)
  show ?case
  proof (cases "i < 1024 \<and> pm i = 0")
    case True
    with 1 have "i \<in> avail pm" by (simp add: avail_def)
    then have "Min (avail pm \<inter> {i..}) = i" by (intro Min_eqI) auto
    with \<open>i \<in> avail pm\<close> True show ?thesis by (auto simp: alloc_frame_from.simps Let_def)
  next
    case False
    have odd: "Suc i \<notin> avail pm" using 1 by (auto simp: avail_def)
    have "i \<notin> avail pm" using False by (auto simp: avail_def)
    with odd have same: "avail pm \<inter> {i..} = avail pm \<inter> {i + 2..}"
      by (auto simp: not_less_eq_eq [symmetric] le_less Suc_le_eq elim: le_SucE)
        (metis less_SucE less_trans_Suc odd Suc_lessI)
    show ?thesis
    proof (cases "i < 1024")
      case True
      with False 1 same show ?thesis by (subst alloc_frame_from.simps) simp
    next
      case False
      then have "avail pm \<inter> {i..} = {}" by (auto simp: avail_def)
      with False show ?thesis by (subst alloc_frame_from.simps) simp
    qed
  qed
qed

lemma alloc_frame_spec:
  "alloc_frame pm =
    (if avail pm = {} then (-1, pm) else let f = Min (avail pm) in (int f, pm(f := 1)))"
proof -
  have "avail pm \<inter> {256..} = avail pm" by (auto simp: avail_def)
  then show ?thesis by (simp add: alloc_frame_def alloc_frame_from_spec)
qed

section \<open>What the clients of the allocator rely on\<close>

text \<open>
  \<open>cell m f\<close> is the mark of frame \<open>f\<close>, \<open>pool\<close> the frames the allocator hands out and
  \<open>reclaim\<close> those it takes back.
\<close>

locale frame_allocator =
  fixes avl :: "'m \<Rightarrow> nat set"
    and cell :: "'m \<Rightarrow> nat \<Rightarrow> Byte"
    and pool reclaim :: "nat set"
    and al :: "'m \<Rightarrow> int \<times> 'm"
    and fr :: "DWord \<Rightarrow> 'm \<Rightarrow> 'm"
  assumes avl_iff: "f \<in> avl m \<longleftrightarrow> f \<in> pool \<and> cell m f = FREE_FRAME"
    and pool_finite: "finite pool"
    and pool_small: "f \<in> pool \<Longrightarrow> f < 4294967296"
    and alloc_some: "avl m \<noteq> {} \<Longrightarrow>
      \<exists>f m'. f \<in> avl m \<and> al m = (int f, m') \<and> cell m' = (cell m)(f := USED_FRAME)"
    and alloc_none: "avl m = {} \<Longrightarrow> al m = (-1, m)"
    and free_back: "f \<in> reclaim \<Longrightarrow> f < 4294967296 \<Longrightarrow>
      cell (fr (of_nat f) m) = (cell m)(f := FREE_FRAME)"
begin

lemma avl_finite: "finite (avl m)"
  by (rule finite_subset [OF _ pool_finite]) (auto simp: avl_iff)

text \<open>With enough frames the loop collects \<open>n\<close> distinct ones and marks exactly those.\<close>

lemma loop_succeeds:
  assumes "n \<le> card (avl m)"
  shows "\<exists>gs m'. alloc_loop al fr n fs m = (Some (fs @ map int gs), m') \<and> length gs = n \<and>
    distinct gs \<and> set gs \<subseteq> avl m \<and>
    cell m' = (\<lambda>f. if f \<in> set gs then USED_FRAME else cell m f)"
  using assms
proof (induction n arbitrary: fs m)
  case (Suc n)
  then have "avl m \<noteq> {}" by auto
  from alloc_some [OF this] obtain f m1 where f: "f \<in> avl m" "al m = (int f, m1)"
    "cell m1 = (cell m)(f := USED_FRAME)" by blast
  have avl1: "avl m1 = avl m - {f}" using f(3) by (auto simp: avl_iff split: if_splits)
  with Suc.prems f(1) avl_finite have "n \<le> card (avl m1)" by simp
  from Suc.IH [OF this, of "fs @ [int f]"] obtain gs m' where gs:
    "alloc_loop al fr n (fs @ [int f]) m1 = (Some ((fs @ [int f]) @ map int gs), m')"
    "length gs = n" "distinct gs" "set gs \<subseteq> avl m1"
    "cell m' = (\<lambda>g. if g \<in> set gs then USED_FRAME else cell m1 g)" by blast
  show ?case
    by (rule exI [of _ "f # gs"], rule exI [of _ m']) (use gs f avl1 in \<open>auto simp: fun_eq_iff\<close>)
qed auto

lemma free_all:
  assumes "set gs \<subseteq> reclaim" and "\<And>g. g \<in> set gs \<Longrightarrow> g < 4294967296"
  shows "cell (fold (\<lambda>g. fr (to_u32 g)) (map int gs) m) =
    (\<lambda>f. if f \<in> set gs then FREE_FRAME else cell m f)"
  using assms
  by (induction gs arbitrary: m) (auto simp: fun_eq_iff to_u32_def free_back)

text \<open>Without them it gives back what it took, and every mark is as it was.\<close>

lemma loop_fails:
  assumes "card (avl m) < n" and "avl m \<subseteq> reclaim" and "set gs \<subseteq> reclaim \<inter> pool"
    and "\<And>g. g \<in> set gs \<Longrightarrow> cell m g = USED_FRAME"
  shows "\<exists>m'. alloc_loop al fr n (map int gs) m = (None, m') \<and>
    cell m' = (\<lambda>f. if f \<in> set gs then FREE_FRAME else cell m f)"
  using assms
proof (induction n arbitrary: gs m)
  case (Suc n)
  show ?case
  proof (cases "avl m = {}")
    case True
    with alloc_none [OF True] free_all [of gs m] Suc.prems(3) pool_small show ?thesis by auto
  next
    case False
    from alloc_some [OF this] obtain f m1 where f: "f \<in> avl m" "al m = (int f, m1)"
      "cell m1 = (cell m)(f := USED_FRAME)" by blast
    have avl1: "avl m1 = avl m - {f}" using f(3) by (auto simp: avl_iff split: if_splits)
    have fpool: "f \<in> pool" "cell m f = FREE_FRAME" using f(1) by (auto simp: avl_iff)
    have "card (avl m1) < n" using Suc.prems(1) f(1) avl_finite avl1
      by (metis card_Suc_Diff1 less_Suc_eq_0_disj Suc_less_eq card.remove)
    moreover have "avl m1 \<subseteq> reclaim" "set (gs @ [f]) \<subseteq> reclaim \<inter> pool"
      "\<And>g. g \<in> set (gs @ [f]) \<Longrightarrow> cell m1 g = USED_FRAME"
      using Suc.prems f avl1 fpool by auto
    ultimately obtain m' where "alloc_loop al fr n (map int (gs @ [f])) m1 = (None, m')"
      "cell m' = (\<lambda>g. if g \<in> set (gs @ [f]) then FREE_FRAME else cell m1 g)"
      using Suc.IH by blast
    then show ?thesis using f fpool by (auto simp: fun_eq_iff)
  qed
qed simp

end

interpretation frames: frame_allocator avail "\<lambda>pm. pm" "{f. 256 \<le> f \<and> f < 1024 \<and> even f}"
  "{f. 256 < f \<and> f < 1024}" alloc_frame free_frame
proof (unfold_locales, goal_cases)
  case (4 m)
  then show ?case using Min_in [OF finite_avail 4] by (auto simp: alloc_frame_spec Let_def)
next
  case 2
  show ?case by (rule finite_subset [of _ "{..<1024}"]) auto
qed (auto simp: avail_def alloc_frame_spec free_frame_def)

text \<open>The instances the system calls use.\<close>

lemma alloc_frames_succeeds:
  assumes "n \<le> card (avail pm)"
  shows "\<exists>gs. alloc_frames n pm
      = (Some (map int gs), \<lambda>f. if f \<in> set gs then USED_FRAME else pm f) \<and>
    length gs = n \<and> distinct gs \<and> set gs \<subseteq> avail pm"
  using frames.loop_succeeds [OF assms, of "[]"] by (auto simp: alloc_frames_def)

lemma alloc_frames_fails:
  assumes "card (avail pm) < n" and "256 \<notin> avail pm"
  shows "alloc_frames n pm = (None, pm)"
proof -
  have "avail pm \<subseteq> {f. 256 < f \<and> f < 1024}"
    using assms(2) by (auto simp: avail_def le_less)
  with frames.loop_fails [OF assms(1), of "[]"] show ?thesis
    by (auto simp: alloc_frames_def)
qed

lemma avail_less: "f \<in> avail pm \<Longrightarrow> 256 \<le> f \<and> f < 1024"
  by (simp add: avail_def)

end
