(* ===== verification/KState.thy ===== *)
theory KState
  imports KList CircularBuffer Frames
begin

text \<open>
  The state of the kernel: the task array, the queues, the semaphores, the page tables and the
  other global variables of \<open>sched.c\<close>, \<open>sys.c\<close>, \<open>mm.c\<close>, \<open>interrupt.c\<close> and
  \<open>io.c\<close>, with the parts of the machine they act on (CR3, the frames of RAM, the time stamp
  counter, the text screen, and the bytes sent to port E9). The order of the groups is that of the headers.

  Pointers to list nodes and to tasks are symbolic, as each C expression of these types is the
  address of a known object. Pointers to page directories and tables are 32-bit addresses, because
  the code computes with them; where the linker puts the objects is the record \<open>symbols\<close>.
\<close>

section \<open>Tasks\<close>

text \<open>The places a \<open>struct list_head\<close> can be: the global heads, the semaphore queues, the tasks.\<close>

datatype lnode =
  Freequeue | Readyqueue | Blockedqueue | Keyboardqueue | SemQueue nat | TaskNode nat

record stats =
  user_ticks :: DWord
  system_ticks :: DWord
  blocked_ticks :: DWord
  ready_ticks :: DWord
  elapsed_total_ticks :: DWord
  total_trans :: DWord
  stat_remaining_ticks :: DWord

datatype state_t = ST_RUN | ST_READY | ST_BLOCKED

record kbdata =
  to_read :: int
  already_read :: int

text \<open>
  What a task that gave up the processor does when it gets it back: the point inside the kernel
  routine whose frames are on its kernel stack. \<open>kernel_esp\<close> is either an address into the
  kernel stack that the code stored itself (new tasks), or that of the frames saved by
  \<open>inner_task_switch\<close>, which are named by the routine they belong to and its live variables.
\<close>

datatype kcont =
    In_sem_wait int
  | In_read DWord int
  | In_clock
  | In_exit

datatype saved_esp = Esp DWord | Frames kcont

record task_struct =
  PID :: int
  dir_pages_baseAddr :: DWord
  kernel_esp :: saved_esp
  quantum :: DWord
  state :: state_t
  task_stats :: stats
  kb_data :: kbdata
  program_break :: DWord

text \<open>
  The union of the task and its kernel stack. The code's stack accesses are at indices from
  1005 on, past the words that the \<open>task\<close> member occupies, so the two parts are kept apart.
\<close>

record task_union =
  task :: task_struct
  stack :: "nat \<Rightarrow> DWord"

record semaphore =
  counter :: int
  owner :: int

section \<open>The machine and the global variables\<close>

text \<open>
  Addresses that the linker chooses; \<open>syscall_ret_at\<close> is that of the instruction after the call in
  \<open>system_call_handler\<close>.
\<close>

record symbols =
  protected_tasks_at :: DWord
  dir_pages_at :: DWord
  pagusr_table_at :: DWord
  ret_from_fork_at :: DWord
  cpu_idle_at :: DWord
  syscall_ret_at :: DWord

record kstate =
  syms :: symbols
  lists :: "lnode lheap"
  tasks :: "nat \<Rightarrow> task_union"
  cur :: nat
  idle_task :: "nat option"
  nextPid :: DWord
  remaining_ticks :: int
  semaphores :: "nat \<Rightarrow> semaphore"
  cb :: circular_buffer
  phys_mem :: frame_map
  dir_pages :: "nat \<Rightarrow> nat \<Rightarrow> page_table_entry"
  pagusr_table :: "nat \<Rightarrow> nat \<Rightarrow> page_table_entry"
  dir_references :: "nat \<Rightarrow> int"
  tss_esp0 :: DWord
  cr3 :: DWord
  ram :: "nat \<Rightarrow> nat \<Rightarrow> Byte"
  zeos_ticks :: int
  tsc :: "nat \<Rightarrow> 64 word"
  tsc_pos :: nat
  scr_x :: Byte
  scr_y :: Byte
  video :: "DWord \<Rightarrow> Word"
  port_e9 :: "Byte list"
  cr0 :: DWord
  task1_task :: "nat option"

section \<open>Access to one task\<close>

definition task_of :: "kstate \<Rightarrow> nat \<Rightarrow> task_struct" where
  "task_of s t = task (tasks s t)"

definition upd_task :: "nat \<Rightarrow> (task_struct \<Rightarrow> task_struct) \<Rightarrow> kstate \<Rightarrow> kstate" where
  "upd_task t f s = s\<lparr>tasks := (tasks s)(t := (tasks s t)\<lparr>task := f (task (tasks s t))\<rparr>)\<rparr>"

definition upd_stack :: "nat \<Rightarrow> nat \<Rightarrow> DWord \<Rightarrow> kstate \<Rightarrow> kstate" where
  "upd_stack t i v s = s\<lparr>tasks := (tasks s)(t := (tasks s t)\<lparr>stack := (stack (tasks s t))(i := v)\<rparr>)\<rparr>"

abbreviation set_state :: "nat \<Rightarrow> state_t \<Rightarrow> kstate \<Rightarrow> kstate" where
  "set_state t st \<equiv> upd_task t (\<lambda>x. x\<lparr>state := st\<rparr>)"

text \<open>\<open>&task[t]\<close>: \<open>task\<close> points to the second element of \<open>protected_tasks\<close>.\<close>

definition task_addr :: "symbols \<Rightarrow> nat \<Rightarrow> DWord" where
  "task_addr y t = protected_tasks_at y + of_nat ((t + 1) * 4096)"

text \<open>The macro \<open>KERNEL_ESP(t)\<close> and \<open>&t->stack[i]\<close>.\<close>

definition stack_addr :: "symbols \<Rightarrow> nat \<Rightarrow> nat \<Rightarrow> DWord" where
  "stack_addr y t i = task_addr y t + of_nat (4 * i)"

definition KERNEL_ESP :: "symbols \<Rightarrow> nat \<Rightarrow> DWord" where
  "KERNEL_ESP y t = stack_addr y t KERNEL_STACK_SIZE"

text \<open>
  \<open>INITIAL_ESP\<close>, and the function \<open>current\<close>: the task at the start of the page that the stack pointer
  \<open>esp\<close> is in. The field \<open>cur\<close> stands for that task.
\<close>

definition INITIAL_ESP :: "symbols \<Rightarrow> DWord" where
  "INITIAL_ESP y = KERNEL_ESP y 1"

definition current :: "DWord \<Rightarrow> DWord" where
  "current esp = esp AND 0xfffff000"

text \<open>\<open>list_head_to_task_struct\<close>: only a node inside a task has a task around it.\<close>

definition list_head_to_task_struct :: "lnode option \<Rightarrow> nat option" where
  "list_head_to_task_struct l = (case l of Some (TaskNode t) \<Rightarrow> Some t | _ \<Rightarrow> None)"

lemma list_head_to_task_struct_simps [simp]:
  "list_head_to_task_struct None = None"
  "list_head_to_task_struct (Some (TaskNode t)) = Some t"
  by (simp_all add: list_head_to_task_struct_def)

subsection \<open>Frame facts\<close>

lemma task_of_upd_task [simp]:
  "task_of (upd_task t f s) u = (if u = t then f (task_of s t) else task_of s u)"
  by (simp add: task_of_def upd_task_def)

lemma task_of_upd_stack [simp]: "task_of (upd_stack t i v s) u = task_of s u"
  by (simp add: task_of_def upd_stack_def)

lemma stack_upd_task [simp]: "stack (tasks (upd_task t f s) u) = stack (tasks s u)"
  by (simp add: upd_task_def)

lemma stack_upd_stack [simp]:
  "stack (tasks (upd_stack t i v s) u) =
    (if u = t then (stack (tasks s t))(i := v) else stack (tasks s u))"
  by (simp add: upd_stack_def)

lemma upd_task_frame [simp]:
  "syms (upd_task t f s) = syms s" "lists (upd_task t f s) = lists s"
  "cur (upd_task t f s) = cur s" "idle_task (upd_task t f s) = idle_task s"
  "nextPid (upd_task t f s) = nextPid s" "remaining_ticks (upd_task t f s) = remaining_ticks s"
  "semaphores (upd_task t f s) = semaphores s" "cb (upd_task t f s) = cb s"
  "phys_mem (upd_task t f s) = phys_mem s" "dir_pages (upd_task t f s) = dir_pages s"
  "pagusr_table (upd_task t f s) = pagusr_table s"
  "dir_references (upd_task t f s) = dir_references s"
  "tss_esp0 (upd_task t f s) = tss_esp0 s" "cr3 (upd_task t f s) = cr3 s"
  "ram (upd_task t f s) = ram s" "zeos_ticks (upd_task t f s) = zeos_ticks s"
  "tsc (upd_task t f s) = tsc s" "tsc_pos (upd_task t f s) = tsc_pos s"
  "scr_x (upd_task t f s) = scr_x s" "scr_y (upd_task t f s) = scr_y s"
  "video (upd_task t f s) = video s" "port_e9 (upd_task t f s) = port_e9 s"
  by (simp_all add: upd_task_def)

lemma upd_stack_frame [simp]:
  "syms (upd_stack t i v s) = syms s" "lists (upd_stack t i v s) = lists s"
  "cur (upd_stack t i v s) = cur s" "idle_task (upd_stack t i v s) = idle_task s"
  "nextPid (upd_stack t i v s) = nextPid s"
  "remaining_ticks (upd_stack t i v s) = remaining_ticks s"
  "semaphores (upd_stack t i v s) = semaphores s" "cb (upd_stack t i v s) = cb s"
  "phys_mem (upd_stack t i v s) = phys_mem s" "dir_pages (upd_stack t i v s) = dir_pages s"
  "pagusr_table (upd_stack t i v s) = pagusr_table s"
  "dir_references (upd_stack t i v s) = dir_references s"
  "tss_esp0 (upd_stack t i v s) = tss_esp0 s" "cr3 (upd_stack t i v s) = cr3 s"
  "ram (upd_stack t i v s) = ram s" "zeos_ticks (upd_stack t i v s) = zeos_ticks s"
  "tsc (upd_stack t i v s) = tsc s" "tsc_pos (upd_stack t i v s) = tsc_pos s"
  "scr_x (upd_stack t i v s) = scr_x s" "scr_y (upd_stack t i v s) = scr_y s"
  "video (upd_stack t i v s) = video s" "port_e9 (upd_stack t i v s) = port_e9 s"
  by (simp_all add: upd_stack_def)

section \<open>The queues as sequences of tasks\<close>

text \<open>
  \<open>queues h qs\<close>: every head in the domain of \<open>qs\<close> heads a well-formed list of exactly the
  tasks \<open>qs\<close> gives, and no task is in two of them. A semaphore queue that was never initialised
  is not in the domain.
\<close>

fun is_head :: "lnode \<Rightarrow> bool" where
  "is_head (TaskNode t) = False"
| "is_head q = True"

type_synonym queue_map = "lnode \<rightharpoonup> nat list"

definition queues :: "lnode lheap \<Rightarrow> queue_map \<Rightarrow> bool" where
  "queues h qs \<longleftrightarrow>
     (\<forall>q xs. qs q = Some xs \<longrightarrow> is_head q \<and> dll h q (map TaskNode xs)) \<and>
     (\<forall>q r xs ys. qs q = Some xs \<longrightarrow> qs r = Some ys \<longrightarrow> q \<noteq> r \<longrightarrow> set xs \<inter> set ys = {})"

definition queued :: "queue_map \<Rightarrow> nat set" where
  "queued qs = (\<Union>xs \<in> ran qs. set xs)"

lemma not_queued: "t \<notin> queued qs \<Longrightarrow> qs q = Some xs \<Longrightarrow> t \<notin> set xs"
  by (auto simp: queued_def ran_def)

lemma queued_upd: "queued (qs(q \<mapsto> xs)) \<subseteq> queued qs \<union> set xs"
  by (auto simp: queued_def ran_def split: if_splits)

lemma queues_dll: "queues h qs \<Longrightarrow> qs q = Some xs \<Longrightarrow> dll h q (map TaskNode xs)"
  by (simp add: queues_def)

lemma queues_distinct: "queues h qs \<Longrightarrow> qs q = Some xs \<Longrightarrow> distinct xs"
  by (auto simp: queues_def dll_def distinct_map)

lemma queues_disjoint:
  "queues h qs \<Longrightarrow> qs q = Some xs \<Longrightarrow> qs r = Some ys \<Longrightarrow> t \<in> set xs \<Longrightarrow> t \<in> set ys \<Longrightarrow> q = r"
  unfolding queues_def by blast

lemma queues_frame:
  assumes "queues h qs" and "\<And>q. is_head q \<Longrightarrow> h' q = h q"
    and "\<And>t. t \<in> queued qs \<Longrightarrow> h' (TaskNode t) = h (TaskNode t)"
  shows "queues h' qs"
  unfolding queues_def
proof (intro conjI allI impI)
  fix q xs assume q: "qs q = Some xs"
  then show "is_head q" using assms(1) by (auto simp: queues_def)
  then show "dll h' q (map TaskNode xs)"
    using queues_dll [OF assms(1) q] assms(2,3) q
    by (subst dll_frame) (auto simp: queued_def ran_def)
next
  fix q r xs ys assume "qs q = Some xs" "qs r = Some ys" "q \<noteq> r"
  then show "set xs \<inter> set ys = {}" using assms(1) unfolding queues_def by blast
qed

lemma heads_not_nodes: "queues h qs \<Longrightarrow> qs q = Some xs \<Longrightarrow> q \<noteq> TaskNode t"
  unfolding queues_def by (metis is_head.simps(1))

text \<open>The four queue operations, on the map.\<close>

lemma queues_empty: "queues h qs \<Longrightarrow> qs q = Some xs \<Longrightarrow> list_empty (Some q) h = Some (xs = [])"
  using klist.isempty_spec [OF queues_dll] by auto

lemma queues_first:
  "queues h qs \<Longrightarrow> qs q = Some (t # xs) \<Longrightarrow> list_first (Some q) h = Some (Some (TaskNode t))"
  using klist.front_spec [OF queues_dll] by fastforce

lemma queues_update:
  assumes "queues h qs" and "qs q = Some xs" and "dll h' q (map TaskNode ys)"
    and "\<And>r zs. r \<noteq> q \<Longrightarrow> qs r = Some zs \<Longrightarrow> set ys \<inter> set zs = {}"
    and "\<And>p. p \<notin> insert q (TaskNode ` set xs \<union> TaskNode ` set ys) \<Longrightarrow> h' p = h p"
  shows "queues h' (qs(q \<mapsto> ys))"
  unfolding queues_def
proof (intro conjI allI impI)
  fix r zs assume r: "(qs(q \<mapsto> ys)) r = Some zs"
  show "is_head r" using r assms(1,2) by (auto simp: queues_def split: if_splits)
  show "dll h' r (map TaskNode zs)"
  proof (cases "r = q")
    case True
    with r assms(3) show ?thesis by simp
  next
    case False
    with r have qr: "qs r = Some zs" by simp
    have disj: "set zs \<inter> set xs = {}" "set ys \<inter> set zs = {}"
      using False qr assms(1,2,4) unfolding queues_def by blast+
    have "h' p = h p" if "p \<in> insert r (set (map TaskNode zs))" for p
      using that disj False heads_not_nodes [OF assms(1) qr] heads_not_nodes [OF assms(1,2)]
      by (intro assms(5)) auto
    then show ?thesis using queues_dll [OF assms(1) qr] by (subst dll_frame)
  qed
next
  fix r r' zs zs'
  assume "(qs(q \<mapsto> ys)) r = Some zs" "(qs(q \<mapsto> ys)) r' = Some zs'" "r \<noteq> r'"
  then show "set zs \<inter> set zs' = {}"
    using assms(4) queues_disjoint [OF assms(1)]
    by (cases "r = q"; cases "r' = q") (simp_all, blast+)
qed

lemma queues_push:
  assumes "queues h qs" and "qs q = Some xs" and "t \<notin> queued qs"
  obtains h' where "list_add_tail (Some (TaskNode t)) (Some q) h = Some h'"
    "queues h' (qs(q \<mapsto> xs @ [t]))"
    "\<And>u. u \<noteq> t \<Longrightarrow> u \<notin> set xs \<Longrightarrow> h' (TaskNode u) = h (TaskNode u)"
proof -
  have "TaskNode t \<notin> insert q (set (map TaskNode xs))"
    using not_queued [OF assms(3,2)] heads_not_nodes [OF assms(1,2)] by auto
  from klist.push_back_spec [OF queues_dll [OF assms(1,2)] this] obtain h' where
    h': "list_add_tail (Some (TaskNode t)) (Some q) h = Some h'"
      "dll h' q (map TaskNode xs @ [TaskNode t])"
      "\<And>p. p \<notin> insert (TaskNode t) (insert q (set (map TaskNode xs))) \<Longrightarrow> h' p = h p"
    by blast
  have "queues h' (qs(q \<mapsto> xs @ [t]))"
  proof (rule queues_update [OF assms(1,2)])
    show "set (xs @ [t]) \<inter> set zs = {}" if "r \<noteq> q" "qs r = Some zs" for r zs
      using that assms(1,2) not_queued [OF assms(3) that(2)] unfolding queues_def by auto
  qed (use h' in auto)
  moreover have "h' (TaskNode u) = h (TaskNode u)" if "u \<noteq> t" "u \<notin> set xs" for u
    using that heads_not_nodes [OF assms(1,2)] by (intro h'(3)) auto
  ultimately show ?thesis using that h'(1) by blast
qed

lemma queues_remove:
  assumes "queues h qs" and "qs q = Some (xs @ t # ys)"
  obtains h' where "list_del (Some (TaskNode t)) h = Some h'" "queues h' (qs(q \<mapsto> xs @ ys))"
    "t \<notin> queued (qs(q \<mapsto> xs @ ys))"
proof -
  from queues_dll [OF assms] have "dll h q (map TaskNode xs @ TaskNode t # map TaskNode ys)"
    by simp
  from klist.unlink_spec [OF this] obtain h' where
    h': "list_del (Some (TaskNode t)) h = Some h'" "dll h' q (map TaskNode xs @ map TaskNode ys)"
      "\<And>p. p \<notin> insert q (set (map TaskNode xs @ TaskNode t # map TaskNode ys)) \<Longrightarrow> h' p = h p"
    by blast
  have "queues h' (qs(q \<mapsto> xs @ ys))"
  proof (rule queues_update [OF assms])
    show "set (xs @ ys) \<inter> set zs = {}" if "r \<noteq> q" "qs r = Some zs" for r zs
      using that queues_disjoint [OF assms that(2)] by auto
  qed (use h' in auto)
  moreover have "t \<notin> queued (qs(q \<mapsto> xs @ ys))"
    using queues_distinct [OF assms] queues_disjoint [OF assms]
    by (auto simp: queued_def ran_def split: if_splits)
  ultimately show ?thesis using that h'(1) by blast
qed

end
