(* ===== verification/Paging.thy ===== *)
theory Paging
  imports KState
begin

text \<open>
  Page directories and page tables: \<open>set_ss_pag\<close>, \<open>del_ss_pag\<close>, \<open>get_frame\<close> and the
  initialisation of the tables in \<open>mm.c\<close>, \<open>get_DIR\<close>, \<open>get_PT\<close>, \<open>get_DIR_pos\<close> and
  \<open>allocate_DIR\<close> in \<open>sched.c\<close>, and the address translation that the x86 does with them.
  Every task has one page directory of which only entry 0 is used; it points to the page table
  of the same index. Directory and table pointers are addresses; \<open>dir_row\<close> and \<open>pt_row\<close>
  find the array row an address denotes, and an address that is not that of a row is wild.
\<close>

section \<open>Addresses of the tables\<close>

definition dir_addr :: "symbols \<Rightarrow> nat \<Rightarrow> DWord" where
  "dir_addr y i = dir_pages_at y + of_nat (i * 4096)"

definition pt_addr :: "symbols \<Rightarrow> nat \<Rightarrow> DWord" where
  "pt_addr y i = pagusr_table_at y + of_nat (i * 4096)"

definition row_of :: "DWord \<Rightarrow> DWord \<Rightarrow> nat option" where
  "row_of base a =
     (let d = unat (a - base)
      in if d mod 4096 = 0 \<and> d div 4096 < NR_TASKS then Some (d div 4096) else None)"

definition dir_row :: "symbols \<Rightarrow> DWord \<Rightarrow> nat option" where
  "dir_row y a = row_of (dir_pages_at y) a"

definition pt_row :: "symbols \<Rightarrow> DWord \<Rightarrow> nat option" where
  "pt_row y a = row_of (pagusr_table_at y) a"

text \<open>
  What the linker script guarantees (section \<open>.data.task\<close> of \<open>system.lds\<close>): the arrays of
  4096-byte rows start on a page boundary and lie in the kernel pages.
\<close>

definition symbols_ok :: "symbols \<Rightarrow> bool" where
  "symbols_ok y \<longleftrightarrow>
     unat (dir_pages_at y) mod 4096 = 0 \<and> unat (dir_pages_at y) + 40960 \<le> 1048576 \<and>
     unat (pagusr_table_at y) mod 4096 = 0 \<and> unat (pagusr_table_at y) + 40960 \<le> 1048576 \<and>
     unat (protected_tasks_at y) mod 4096 = 0 \<and> unat (protected_tasks_at y) + 49152 \<le> 1048576 \<and>
     ret_from_fork_at y \<noteq> cpu_idle_at y"

lemma row_of_base: "i < 10 \<Longrightarrow> row_of base (base + of_nat (i * 4096)) = Some i"
  by (simp add: row_of_def Let_def unsigned_of_nat take_bit_nat_eq_self del: of_nat_mult)

lemma dir_row_addr [simp]: "i < 10 \<Longrightarrow> dir_row y (dir_addr y i) = Some i"
  by (simp add: dir_row_def dir_addr_def row_of_base del: of_nat_mult)

lemma pt_row_addr [simp]: "i < 10 \<Longrightarrow> pt_row y (pt_addr y i) = Some i"
  by (simp add: pt_row_def pt_addr_def row_of_base del: of_nat_mult)

lemma dir_addr_inj: "i < 10 \<Longrightarrow> j < 10 \<Longrightarrow> dir_addr y i = dir_addr y j \<Longrightarrow> i = j"
  by (metis dir_row_addr option.inject)

lemma unat_pt_addr:
  "symbols_ok y \<Longrightarrow> i < 10 \<Longrightarrow> unat (pt_addr y i) = unat (pagusr_table_at y) + i * 4096"
  by (simp add: pt_addr_def symbols_ok_def unat_add_u32 del: of_nat_mult)

lemma aligned_low: "unat a mod 4096 = 0 \<Longrightarrow> take_bit 12 (a :: DWord) = 0"
proof -
  assume "unat a mod 4096 = 0"
  then have "take_bit 12 (unat a) = 0" by (simp add: take_bit_eq_mod)
  then show ?thesis by (metis unsigned_take_bit_eq unsigned_0 word_eq_iff_unsigned)
qed

text \<open>
  The page of the stack pointer: anywhere in the kernel stack of a task, \<open>current\<close> is that task.
\<close>

lemma page_of_address:
  fixes a :: DWord
  assumes "unat a mod 4096 = 0" and "unat x div 4096 = unat a div 4096"
  shows "current x = a"
proof -
  have "drop_bit 12 x = drop_bit 12 a"
    using assms(2) by (simp only: word_eq_iff_unsigned [where 'a = nat] unat_drop_bit_12)
  moreover have low: "take_bit 12 a = 0"
    by (rule aligned_low [OF assms(1)])
  moreover have "current x = push_bit 12 (drop_bit 12 x)"
  proof -
    have "(0xfffff000 :: DWord) = NOT (mask 12)" by (simp add: mask_eq_exp_minus_1)
    then have "current x = x AND NOT (mask 12)" by (simp only: current_def)
    also have "\<dots> = push_bit 12 (drop_bit 12 x)" by (rule bit_eqI) (auto simp: bit_simps)
    finally show ?thesis .
  qed
  ultimately show ?thesis using bits_ident [of 12 a] by simp
qed

lemma unat_task_addr:
  assumes "symbols_ok y" and "t < 10"
  shows "unat (task_addr y t) = unat (protected_tasks_at y) + (t + 1) * 4096"
proof -
  have "unat (protected_tasks_at y) + 49152 \<le> 1048576" using assms(1) by (simp add: symbols_ok_def)
  then show ?thesis
    unfolding task_addr_def using assms(2)
    by (simp add: unat_add_u32 del: of_nat_mult of_nat_Suc of_nat_add)
qed

lemma task_addr_inj:
  assumes "symbols_ok y" and "t < 10" and "u < 10" and "task_addr y t = task_addr y u"
  shows "t = u"
proof -
  have "unat (protected_tasks_at y) + (t + 1) * 4096 = unat (protected_tasks_at y) + (u + 1) * 4096"
    by (simp only: unat_task_addr [OF assms(1,2), symmetric] unat_task_addr [OF assms(1,3), symmetric] assms(4))
  then show ?thesis by simp
qed

lemma current_task:
  assumes "symbols_ok y" and "t < 10" and "0 < d" and "d \<le> 4096"
  shows "current (KERNEL_ESP y t - of_nat d) = task_addr y t"
proof (rule page_of_address)
  have b: "unat (protected_tasks_at y) mod 4096 = 0" "unat (protected_tasks_at y) + 49152 \<le> 1048576"
    using assms(1) by (simp_all add: symbols_ok_def)
  note a = unat_task_addr [OF assms(1,2)]
  then show "unat (task_addr y t) mod 4096 = 0" using b(1) by (metis mod_mult_self1)
  have "KERNEL_ESP y t - of_nat d = task_addr y t + of_nat (4096 - d)"
    using assms(4) by (simp add: KERNEL_ESP_def stack_addr_def of_nat_diff)
  then have "unat (KERNEL_ESP y t - of_nat d) = unat (task_addr y t) + (4096 - d)"
    using a b(2) assms(2) by (simp add: unat_add_u32 del: of_nat_diff)
  moreover obtain k where "unat (task_addr y t) = 4096 * k"
    using \<open>unat (task_addr y t) mod 4096 = 0\<close> by blast
  ultimately show "unat (KERNEL_ESP y t - of_nat d) div 4096 = unat (task_addr y t) div 4096"
    using assms(3) by simp
qed

text \<open>A page-aligned address survives the trip through a 20-bit page number.\<close>

lemma aligned_page_roundtrip:
  fixes a :: DWord
  assumes "unat a mod 4096 = 0"
  shows "push_bit 12 (get_pbase_addr (set_pbase_addr (drop_bit 12 a) w)) = a"
proof -
  have "take_bit 12 a = 0" by (rule aligned_low [OF assms])
  have "take_bit 20 (drop_bit 12 a) = drop_bit 12 a"
    by (rule bit_word_eqI) (auto simp: bit_simps dest: bit_imp_le_length)
  then have "push_bit 12 (get_pbase_addr (set_pbase_addr (drop_bit 12 a) w)) = push_bit 12 (drop_bit 12 a)"
    by simp
  also have "\<dots> = a"
    using \<open>take_bit 12 a = 0\<close> bits_ident [of 12 a] by simp
  finally show ?thesis .
qed

section \<open>Operations on one table\<close>

definition set_ss_pag_entry :: "DWord \<Rightarrow> page_table_entry" where
  "set_ss_pag_entry frame = set_present 1 (set_rw 1 (set_user 1 (set_pbase_addr frame 0)))"

lemma set_ss_pag_entry_fields [simp]:
  "get_present (set_ss_pag_entry f) = 1" "get_rw (set_ss_pag_entry f) = 1"
  "get_user (set_ss_pag_entry f) = 1" "get_pbase_addr (set_ss_pag_entry f) = take_bit 20 f"
  by (simp_all add: set_ss_pag_entry_def)

lemma set_ss_pag_entry_nonzero [simp]: "set_ss_pag_entry f \<noteq> 0"
  by (rule entry_present_nonzero) simp

definition upd_pte :: "nat \<Rightarrow> nat \<Rightarrow> page_table_entry \<Rightarrow> kstate \<Rightarrow> kstate" where
  "upd_pte r p e s = s\<lparr>pagusr_table := (pagusr_table s)(r := (pagusr_table s r)(p := e))\<rparr>"

definition set_ss_pag :: "DWord \<Rightarrow> DWord \<Rightarrow> DWord \<Rightarrow> kstate \<Rightarrow> kstate option" where
  "set_ss_pag PT page frame s =
     do { r \<leftarrow> pt_row (syms s) PT;
          if unat page < TOTAL_PAGES then Some (upd_pte r (unat page) (set_ss_pag_entry frame) s)
          else None }"

definition del_ss_pag :: "DWord \<Rightarrow> DWord \<Rightarrow> kstate \<Rightarrow> kstate option" where
  "del_ss_pag PT logical_page s =
     do { r \<leftarrow> pt_row (syms s) PT;
          if unat logical_page < TOTAL_PAGES then Some (upd_pte r (unat logical_page) 0 s)
          else None }"

definition get_entry :: "DWord \<Rightarrow> DWord \<Rightarrow> kstate \<Rightarrow> page_table_entry option" where
  "get_entry PT page s =
     do { r \<leftarrow> pt_row (syms s) PT;
          if unat page < TOTAL_PAGES then Some (pagusr_table s r (unat page)) else None }"

definition get_frame :: "DWord \<Rightarrow> DWord \<Rightarrow> kstate \<Rightarrow> DWord option" where
  "get_frame PT logical_page s = map_option get_pbase_addr (get_entry PT logical_page s)"

section \<open>Directories\<close>

definition get_DIR :: "nat \<Rightarrow> kstate \<Rightarrow> DWord" where
  "get_DIR t s = dir_pages_baseAddr (task_of s t)"

definition get_PT :: "nat \<Rightarrow> kstate \<Rightarrow> DWord option" where
  "get_PT t s =
     do { d \<leftarrow> dir_row (syms s) (dir_pages_baseAddr (task_of s t));
          Some (push_bit 12 (get_pbase_addr (dir_pages s d 0))) }"

definition get_DIR_pos :: "DWord \<Rightarrow> kstate \<Rightarrow> nat" where
  "get_DIR_pos dir s = unat ((dir - dir_pages_at (syms s)) div of_nat (TOTAL_PAGES * 4))"

lemma get_DIR_pos_addr [simp]: "i < 10 \<Longrightarrow> get_DIR_pos (dir_addr (syms s) i) s = i"
  by (simp add: get_DIR_pos_def dir_addr_def unat_div unsigned_of_nat take_bit_nat_eq_self
      del: of_nat_mult)

text \<open>The search loop of \<open>allocate_DIR\<close>: the first row with no references, or \<open>NR_TASKS\<close>.\<close>

function free_dir_from :: "nat \<Rightarrow> (nat \<Rightarrow> int) \<Rightarrow> nat" where
  "free_dir_from pos refs =
     (if pos < NR_TASKS \<and> refs pos \<noteq> 0 then free_dir_from (pos + 1) refs else pos)"
  by pat_completeness auto
termination
  by (relation "measure (\<lambda>(pos, refs). NR_TASKS - pos)") auto

declare free_dir_from.simps [simp del]

definition allocate_DIR :: "nat \<Rightarrow> kstate \<Rightarrow> (int \<times> kstate) option" where
  "allocate_DIR t s =
     (let pos = free_dir_from 0 (dir_references s);
          s = upd_task t (\<lambda>x. x\<lparr>dir_pages_baseAddr := dir_addr (syms s) pos\<rparr>) s
      in if pos < NR_TASKS
         then do { n \<leftarrow> c_int (dir_references s pos + 1);
                   Some (1, s\<lparr>dir_references := (dir_references s)(pos := n)\<rparr>) }
         else None)"

lemma free_dir_from_bounds:
  assumes "pos \<le> 10"
  shows "pos \<le> free_dir_from pos refs \<and> free_dir_from pos refs \<le> 10
    \<and> (free_dir_from pos refs < 10 \<longrightarrow> refs (free_dir_from pos refs) = 0)
    \<and> (\<forall>i. pos \<le> i \<longrightarrow> i < free_dir_from pos refs \<longrightarrow> refs i \<noteq> 0)"
  using assms
proof (induction pos refs rule: free_dir_from.induct)
  case (1 pos refs)
  show ?case
  proof (cases "pos < 10 \<and> refs pos \<noteq> 0")
    case True
    with 1 have IH: "pos + 1 \<le> free_dir_from (pos + 1) refs" "free_dir_from (pos + 1) refs \<le> 10"
      "free_dir_from (pos + 1) refs < 10 \<longrightarrow> refs (free_dir_from (pos + 1) refs) = 0"
      "\<And>i. pos + 1 \<le> i \<Longrightarrow> i < free_dir_from (pos + 1) refs \<Longrightarrow> refs i \<noteq> 0" by auto
    have "free_dir_from pos refs = free_dir_from (pos + 1) refs"
      using True by (subst free_dir_from.simps) simp
    moreover have "refs i \<noteq> 0" if "pos \<le> i" "i < free_dir_from (pos + 1) refs" for i
      using that True IH(4) [of i] by (cases "i = pos") auto
    ultimately show ?thesis using IH by auto
  next
    case False
    then have "free_dir_from pos refs = pos" by (subst free_dir_from.simps) auto
    with False 1 show ?thesis by auto
  qed
qed

lemmas free_dir_bounds = free_dir_from_bounds [of 0, simplified]

section \<open>Address translation\<close>

text \<open>
  A 32-bit linear address is translated through the directory in CR3. The tables are in kernel
  pages, which are mapped to the frames of the same number.
\<close>

definition translate :: "DWord \<Rightarrow> kstate \<Rightarrow> (nat \<times> nat) option" where
  "translate va s =
     do { d \<leftarrow> dir_row (syms s) (cr3 s);
          let pde = dir_pages s d (unat (drop_bit 22 va));
          if get_present pde = 1 then
            do { r \<leftarrow> pt_row (syms s) (push_bit 12 (get_pbase_addr pde));
                 let pte = pagusr_table s r (unat (drop_bit 12 va) mod 1024);
                 if get_present pte = 1
                 then Some (unat (get_pbase_addr pte), unat va mod 4096)
                 else None }
          else None }"

text \<open>Bytes of user memory; the frames of the kernel hold the other components of the state.\<close>

lemma translate_same:
  assumes "syms s' = syms s" and "cr3 s' = cr3 s" and "dir_pages s' = dir_pages s"
    and "pagusr_table s' = pagusr_table s"
  shows "translate va s' = translate va s"
  unfolding translate_def Let_def assms ..

definition load_byte :: "DWord \<Rightarrow> kstate \<Rightarrow> Byte option" where
  "load_byte va s =
     do { (f, i) \<leftarrow> translate va s;
          if NUM_PAG_KERNEL \<le> f then Some (ram s f i) else None }"

definition store_byte :: "DWord \<Rightarrow> Byte \<Rightarrow> kstate \<Rightarrow> kstate option" where
  "store_byte va b s =
     do { (f, i) \<leftarrow> translate va s;
          if NUM_PAG_KERNEL \<le> f then Some (s\<lparr>ram := (ram s)(f := (ram s f)(i := b))\<rparr>) else None }"

section \<open>Well-formed tables\<close>

definition paging_ok :: "kstate \<Rightarrow> bool" where
  "paging_ok s \<longleftrightarrow> symbols_ok (syms s) \<and>
     (\<forall>i < NR_TASKS. get_present (dir_pages s i 0) = 1 \<and>
        push_bit 12 (get_pbase_addr (dir_pages s i 0)) = pt_addr (syms s) i \<and>
        (\<forall>k. 0 < k \<longrightarrow> k < 1024 \<longrightarrow> get_present (dir_pages s i k) = 0))"

text \<open>Task \<open>t\<close> runs in address space \<open>i\<close>.\<close>

definition space :: "kstate \<Rightarrow> nat \<Rightarrow> nat \<Rightarrow> bool" where
  "space s t i \<longleftrightarrow> i < NR_TASKS \<and> dir_pages_baseAddr (task_of s t) = dir_addr (syms s) i"

lemma get_PT_space:
  "paging_ok s \<Longrightarrow> space s t i \<Longrightarrow> get_PT t s = Some (pt_addr (syms s) i)"
  by (simp add: get_PT_def space_def paging_ok_def)

lemma get_DIR_pos_space: "space s t i \<Longrightarrow> get_DIR_pos (get_DIR t s) s = i"
  by (simp add: get_DIR_def space_def)

lemma upd_pte_frame [simp]:
  "syms (upd_pte r p e s) = syms s" "lists (upd_pte r p e s) = lists s"
  "tasks (upd_pte r p e s) = tasks s"
  "cur (upd_pte r p e s) = cur s" "idle_task (upd_pte r p e s) = idle_task s"
  "nextPid (upd_pte r p e s) = nextPid s"
  "remaining_ticks (upd_pte r p e s) = remaining_ticks s"
  "semaphores (upd_pte r p e s) = semaphores s" "cb (upd_pte r p e s) = cb s"
  "phys_mem (upd_pte r p e s) = phys_mem s" "dir_pages (upd_pte r p e s) = dir_pages s"
  "dir_references (upd_pte r p e s) = dir_references s"
  "tss_esp0 (upd_pte r p e s) = tss_esp0 s" "cr3 (upd_pte r p e s) = cr3 s"
  "ram (upd_pte r p e s) = ram s" "zeos_ticks (upd_pte r p e s) = zeos_ticks s"
  "tsc (upd_pte r p e s) = tsc s" "tsc_pos (upd_pte r p e s) = tsc_pos s"
  "task_of (upd_pte r p e s) t = task_of s t"
  "scr_x (upd_pte r p e s) = scr_x s" "scr_y (upd_pte r p e s) = scr_y s"
  "video (upd_pte r p e s) = video s" "port_e9 (upd_pte r p e s) = port_e9 s"
  by (simp_all add: upd_pte_def task_of_def)

lemma pagusr_upd_pte [simp]:
  "pagusr_table (upd_pte r p e s) q k =
    (if q = r \<and> k = p then e else pagusr_table s q k)"
  by (simp add: upd_pte_def)

text \<open>Below 4 MB, translation reads the page table of the current directory.\<close>

lemma translate_low:
  assumes "paging_ok s" and "cr3 s = dir_addr (syms s) i" and "i < 10" and "unat va < 4194304"
  shows "translate va s =
    (let pte = pagusr_table s i (unat va div 4096)
     in if get_present pte = 1 then Some (unat (get_pbase_addr pte), unat va mod 4096) else None)"
proof -
  have top: "unat (drop_bit 22 va) = 0"
    using assms(4) by (simp add: drop_bit_eq_div unat_div)
  have page: "unat (drop_bit 12 va) mod 1024 = unat va div 4096"
    using assms(4) by (simp add: unat_drop_bit_12 less_mult_imp_div_less)
  show ?thesis
    using assms(1-3) by (simp add: translate_def top page paging_ok_def Let_def)
qed

end
