(* ===== verification/Utils.thy ===== *)
theory Utils
  imports ZTypes
begin

text \<open>
  \<open>utils.c\<close>: the three copy routines (one loop by 32-bit words, one by bytes), the user
  pointer check \<open>access_ok\<close>, and the tick counter with its 64-by-32-bit division macro.
  The copy loops are written over any memory with a read of the source and a write to the
  destination; the locale \<open>copy_regions\<close> says when that amounts to copying the bytes.
\<close>

section \<open>Copying memory\<close>

text \<open>
  \<open>rd m i\<close> reads the byte at offset \<open>i\<close> of the source, \<open>wr i b m\<close> writes the one at offset
  \<open>i\<close> of the destination; both pointers advance together. A word access is four byte accesses,
  all of them read before the first is written.
\<close>

function copy_loop4 :: "('m \<Rightarrow> nat \<Rightarrow> Byte option) \<Rightarrow> (nat \<Rightarrow> Byte \<Rightarrow> 'm \<Rightarrow> 'm option)
    \<Rightarrow> nat \<Rightarrow> int \<Rightarrow> 'm \<Rightarrow> (nat \<times> int \<times> 'm) option" where
  "copy_loop4 rd wr i sz m =
     (if 4 < sz
      then do { b0 \<leftarrow> rd m i; b1 \<leftarrow> rd m (i + 1); b2 \<leftarrow> rd m (i + 2); b3 \<leftarrow> rd m (i + 3);
                m \<leftarrow> wr i b0 m; m \<leftarrow> wr (i + 1) b1 m; m \<leftarrow> wr (i + 2) b2 m; m \<leftarrow> wr (i + 3) b3 m;
                copy_loop4 rd wr (i + 4) (sz - 4) m }
      else Some (i, sz, m))"
  by pat_completeness auto
termination
  by (relation "measure (\<lambda>(rd, wr, i, sz, m). nat sz)") auto

function copy_loop1 :: "('m \<Rightarrow> nat \<Rightarrow> Byte option) \<Rightarrow> (nat \<Rightarrow> Byte \<Rightarrow> 'm \<Rightarrow> 'm option)
    \<Rightarrow> nat \<Rightarrow> int \<Rightarrow> 'm \<Rightarrow> 'm option" where
  "copy_loop1 rd wr i sz m =
     (if 0 < sz
      then do { b \<leftarrow> rd m i; m \<leftarrow> wr i b m; copy_loop1 rd wr (i + 1) (sz - 1) m }
      else Some m)"
  by pat_completeness auto
termination
  by (relation "measure (\<lambda>(rd, wr, i, sz, m). nat sz)") auto

declare copy_loop4.simps [simp del]
declare copy_loop1.simps [simp del]

definition copy_data :: "('m \<Rightarrow> nat \<Rightarrow> Byte option) \<Rightarrow> (nat \<Rightarrow> Byte \<Rightarrow> 'm \<Rightarrow> 'm option)
    \<Rightarrow> int \<Rightarrow> 'm \<Rightarrow> 'm option" where
  "copy_data rd wr sz m =
     do { (i, sz, m) \<leftarrow> copy_loop4 rd wr 0 sz m;
          copy_loop1 rd wr i sz m }"

definition copy_from_user :: "('m \<Rightarrow> nat \<Rightarrow> Byte option) \<Rightarrow> (nat \<Rightarrow> Byte \<Rightarrow> 'm \<Rightarrow> 'm option)
    \<Rightarrow> int \<Rightarrow> 'm \<Rightarrow> (int \<times> 'm) option" where
  "copy_from_user rd wr sz m =
     do { (i, sz, m) \<leftarrow> copy_loop4 rd wr 0 sz m;
          m \<leftarrow> copy_loop1 rd wr i sz m;
          Some (0, m) }"

definition copy_to_user :: "('m \<Rightarrow> nat \<Rightarrow> Byte option) \<Rightarrow> (nat \<Rightarrow> Byte \<Rightarrow> 'm \<Rightarrow> 'm option)
    \<Rightarrow> int \<Rightarrow> 'm \<Rightarrow> (int \<times> 'm) option" where
  "copy_to_user rd wr sz m =
     do { (i, sz, m) \<leftarrow> copy_loop4 rd wr 0 sz m;
          m \<leftarrow> copy_loop1 rd wr i sz m;
          Some (0, m) }"

text \<open>
  When the \<open>n\<close> source bytes can be read and the \<open>n\<close> destination bytes written, and writing the
  destination changes neither the source bytes nor \<open>rest\<close>, the destination \<open>out\<close> receives the
  source.
\<close>

locale copy_regions =
  fixes rd :: "'m \<Rightarrow> nat \<Rightarrow> Byte option"
    and wr :: "nat \<Rightarrow> Byte \<Rightarrow> 'm \<Rightarrow> 'm option"
    and n :: nat
    and inv :: "'m \<Rightarrow> bool"
    and out :: "'m \<Rightarrow> nat \<Rightarrow> Byte"
    and rest :: "'m \<Rightarrow> 'r"
  assumes rd_ok: "inv m \<Longrightarrow> i < n \<Longrightarrow> \<exists>b. rd m i = Some b"
    and wr_ok: "inv m \<Longrightarrow> i < n \<Longrightarrow> \<exists>m'. wr i b m = Some m' \<and> inv m' \<and>
      (\<forall>j < n. rd m' j = rd m j) \<and> (\<forall>j < n. out m' j = (if j = i then b else out m j)) \<and>
      rest m' = rest m"
begin

text \<open>\<open>between m i k m'\<close>: \<open>m'\<close> is \<open>m\<close> with the bytes from \<open>i\<close> up to \<open>k\<close> copied.\<close>

definition between :: "'m \<Rightarrow> nat \<Rightarrow> nat \<Rightarrow> 'm \<Rightarrow> bool" where
  "between m i k m' \<longleftrightarrow> inv m' \<and> (\<forall>j < n. rd m' j = rd m j) \<and> rest m' = rest m \<and>
     (\<forall>j < n. out m' j = (if i \<le> j \<and> j < k then the (rd m j) else out m j))"

lemma between_trans: "between m i k m1 \<Longrightarrow> between m1 k l m2 \<Longrightarrow> i \<le> k \<Longrightarrow> k \<le> l \<Longrightarrow> between m i l m2"
  by (auto simp: between_def)

lemma copy_one:
  assumes "inv m" and "i < n"
  obtains b m' where "rd m i = Some b" "wr i b m = Some m'" "between m i (Suc i) m'" "inv m'"
proof -
  obtain b where b: "rd m i = Some b" using rd_ok [OF assms] by blast
  obtain m' where "wr i b m = Some m'" "inv m'" "\<And>j. j < n \<Longrightarrow> rd m' j = rd m j"
    "\<And>j. j < n \<Longrightarrow> out m' j = (if j = i then b else out m j)" "rest m' = rest m"
    using wr_ok [OF assms, of b] by blast
  then have "between m i (Suc i) m'"
    using b by (auto simp: between_def less_Suc_eq)
  with b that [of b m'] \<open>wr i b m = Some m'\<close> \<open>inv m'\<close> show ?thesis by blast
qed

lemma loop1:
  assumes "inv m" and "i + nat sz \<le> n"
  shows "\<exists>m'. copy_loop1 rd wr i sz m = Some m' \<and> between m i (i + nat sz) m'"
  using assms
proof (induction "nat sz" arbitrary: i sz m)
  case 0
  then show ?case by (auto simp: copy_loop1.simps between_def)
next
  case (Suc k)
  then have "i < n" and sz: "0 < sz" "k = nat (sz - 1)" and fit: "Suc i + nat (sz - 1) \<le> n"
    by linarith+
  obtain b m1 where m1: "rd m i = Some b" "wr i b m = Some m1" "between m i (Suc i) m1" "inv m1"
    using copy_one [OF Suc.prems(1) \<open>i < n\<close>] by blast
  obtain m' where "copy_loop1 rd wr (Suc i) (sz - 1) m1 = Some m'"
    "between m1 (Suc i) (Suc i + nat (sz - 1)) m'"
    using Suc.hyps(1) [OF sz(2) m1(4) fit] by auto
  moreover from this(2) have "between m i (i + nat sz) m'"
    using between_trans [OF m1(3), of "i + nat sz" m'] sz by (simp add: nat_diff_distrib)
  ultimately show ?case using m1 sz by (subst copy_loop1.simps) auto
qed

text \<open>The word loop: it reads four bytes before it writes them, which is the same here.\<close>

lemma copy_four:
  assumes "inv m" and "i + 3 < n"
  obtains b0 b1 b2 b3 m1 m2 m3 m4 where
    "rd m i = Some b0" "rd m (i + 1) = Some b1" "rd m (i + 2) = Some b2" "rd m (i + 3) = Some b3"
    "wr i b0 m = Some m1" "wr (i + 1) b1 m1 = Some m2" "wr (i + 2) b2 m2 = Some m3"
    "wr (i + 3) b3 m3 = Some m4" "between m i (i + 4) m4" "inv m4"
proof -
  have i: "i < n" "i + 1 < n" "i + 2 < n" "i + 3 < n" using assms(2) by auto
  obtain b0 m1 where 0: "rd m i = Some b0" "wr i b0 m = Some m1" "between m i (Suc i) m1" "inv m1"
    by (rule copy_one [OF assms(1) i(1)])
  obtain b1 m2 where 1: "rd m1 (i + 1) = Some b1" "wr (i + 1) b1 m1 = Some m2"
    "between m1 (i + 1) (Suc (i + 1)) m2" "inv m2"
    by (rule copy_one [OF 0(4) i(2)])
  obtain b2 m3 where 2: "rd m2 (i + 2) = Some b2" "wr (i + 2) b2 m2 = Some m3"
    "between m2 (i + 2) (Suc (i + 2)) m3" "inv m3"
    by (rule copy_one [OF 1(4) i(3)])
  obtain b3 m4 where 3: "rd m3 (i + 3) = Some b3" "wr (i + 3) b3 m3 = Some m4"
    "between m3 (i + 3) (Suc (i + 3)) m4" "inv m4"
    by (rule copy_one [OF 2(4) i(4)])
  have same: "rd m1 j = rd m j" "rd m2 j = rd m j" "rd m3 j = rd m j" if "j < n" for j
    using that 0(3) 1(3) 2(3) by (auto simp: between_def)
  have "between m i (i + 2) m2" using between_trans [OF 0(3)] 1(3) by simp
  then have "between m i (i + 3) m3" using between_trans [of m i "i + 2" m2 "i + 3"] 2(3)
    by (simp add: eval_nat_numeral)
  then have "between m i (i + 4) m4" using between_trans [of m i "i + 3" m3 "i + 4"] 3(3)
    by (simp add: eval_nat_numeral)
  with 0 1 2 3 same i that show ?thesis by metis
qed

lemma loop4:
  assumes "inv m" and "i + nat sz \<le> n"
  shows "\<exists>k m'. copy_loop4 rd wr i sz m = Some (i + 4 * k, sz - 4 * int k, m') \<and>
    4 * k \<le> nat sz \<and> between m i (i + 4 * k) m'"
  using assms
proof (induction "nat sz" arbitrary: i sz m rule: less_induct)
  case less
  show ?case
  proof (cases "4 < sz")
    case False
    with less.prems show ?thesis
      by (subst copy_loop4.simps) (auto intro!: exI [of _ 0] simp: between_def)
  next
    case True
    then have i3: "i + 3 < n" and fit: "i + 4 + nat (sz - 4) \<le> n" using less.prems(2) by linarith+
    from copy_four [OF less.prems(1) i3] obtain b0 b1 b2 b3 m1 m2 m3 m4 where step:
      "rd m i = Some b0" "rd m (i + 1) = Some b1" "rd m (i + 2) = Some b2" "rd m (i + 3) = Some b3"
      "wr i b0 m = Some m1" "wr (i + 1) b1 m1 = Some m2" "wr (i + 2) b2 m2 = Some m3"
      "wr (i + 3) b3 m3 = Some m4" "between m i (i + 4) m4" "inv m4" .
    obtain k m' where rec: "copy_loop4 rd wr (i + 4) (sz - 4) m4
        = Some (i + 4 + 4 * k, sz - 4 - 4 * int k, m')"
      "4 * k \<le> nat (sz - 4)" "between m4 (i + 4) (i + 4 + 4 * k) m'"
      using less.hyps [of "sz - 4" m4 "i + 4"] fit step(10) True by auto
    have "between m i (i + 4 * Suc k) m'"
      using between_trans [OF step(9) rec(3)] by (simp add: algebra_simps)
    moreover have "copy_loop4 rd wr i sz m = Some (i + 4 * Suc k, sz - 4 * int (Suc k), m')"
      using True step rec(1) by (subst copy_loop4.simps) (simp add: algebra_simps)
    moreover have "4 * Suc k \<le> nat sz" using rec(2) True by auto
    ultimately show ?thesis by blast
  qed
qed

lemma copies:
  assumes "inv m"
  shows "\<exists>m'. copy_data rd wr (int n) m = Some m' \<and> copy_from_user rd wr (int n) m = Some (0, m') \<and>
    copy_to_user rd wr (int n) m = Some (0, m') \<and> inv m' \<and> rest m' = rest m \<and>
    (\<forall>j < n. rd m' j = rd m j \<and> rd m j = Some (out m' j))"
proof -
  obtain k m1 where m1: "copy_loop4 rd wr 0 (int n) m = Some (4 * k, int n - 4 * int k, m1)"
    "4 * k \<le> n" "between m 0 (4 * k) m1"
    using loop4 [OF assms, of 0 "int n"] by auto
  have "inv m1" using m1(3) by (simp add: between_def)
  moreover have "4 * k + nat (int n - 4 * int k) = n" using m1(2) by linarith
  ultimately obtain m' where m': "copy_loop1 rd wr (4 * k) (int n - 4 * int k) m1 = Some m'"
    "between m1 (4 * k) n m'"
    using loop1 [of m1 "4 * k" "int n - 4 * int k"] by auto
  have "between m 0 n m'" using between_trans [OF m1(3) m'(2)] m1(2) by simp
  then have "inv m'" "rest m' = rest m" "\<And>j. j < n \<Longrightarrow> rd m' j = rd m j \<and> rd m j = Some (out m' j)"
    using rd_ok [OF assms] by (auto simp: between_def)
  then show ?thesis
    using m1(1) m'(1) by (auto simp: copy_data_def copy_from_user_def copy_to_user_def)
qed

end

section \<open>Checking user pointers\<close>

definition VERIFY_READ :: int where "VERIFY_READ = 0"
definition VERIFY_WRITE :: int where "VERIFY_WRITE = 1"

text \<open>
  The case for \<open>VERIFY_WRITE\<close> has no \<open>break\<close>: when its test fails, control falls into the
  \<open>default\<close> case.
\<close>

definition access_ok :: "int \<Rightarrow> DWord \<Rightarrow> DWord \<Rightarrow> int" where
  "access_ok type addr sz =
     (let addr_ini = drop_bit 12 addr;
          addr_fin = drop_bit 12 (addr + sz);
          first = of_nat USER_FIRST_PAGE :: DWord;
          code = of_nat NUM_PAG_CODE :: DWord;
          data = of_nat NUM_PAG_DATA :: DWord
      in if addr_fin < addr_ini then 0
         else if type = VERIFY_WRITE \<and> first + code \<le> addr_ini \<and> addr_fin \<le> first + code + data
         then 1
         else if first \<le> addr_ini \<and> addr_fin \<le> first + code + data then 1
         else 0)"

lemma access_ok_pages:
  "access_ok type addr sz = 1 \<longleftrightarrow>
    256 \<le> unat addr div 4096 \<and> unat addr div 4096 \<le> unat (addr + sz) div 4096 \<and>
    unat (addr + sz) div 4096 \<le> 284"
proof -
  have ini: "unat (drop_bit 12 addr) = unat addr div 4096"
    and fin: "unat (drop_bit 12 (addr + sz)) = unat (addr + sz) div 4096"
    by (rule unat_drop_bit_12)+
  show ?thesis
    unfolding access_ok_def Let_def word_less_nat_alt word_le_nat_alt ini fin
    by (auto simp: VERIFY_WRITE_def)
qed

lemma access_ok_01: "access_ok type addr sz = 0 \<or> access_ok type addr sz = 1"
  by (simp add: access_ok_def Let_def)

text \<open>For the sizes the system calls pass (non-negative ints) there is no wrap-around left.\<close>

lemma access_ok_range:
  assumes "unat sz \<le> 2147483647"
  shows "access_ok type addr sz = 1 \<longleftrightarrow> 1048576 \<le> unat addr \<and> unat addr + unat sz < 1167360"
proof (cases "unat addr + unat sz < 4294967296")
  case True
  then have "unat (addr + sz) = unat addr + unat sz" by (rule unat_add_u32)
  then show ?thesis by (auto simp: access_ok_pages)
next
  case False
  then have "unat (addr + sz) = unat addr + unat sz - 4294967296"
    using unat_lt_power [of addr] unat_lt_power [of sz]
    by (simp add: unat_word_ariths mod_if del: unat_lt_power)
  with False assms show ?thesis
    by (auto simp: access_ok_pages)
qed

section \<open>Ticks\<close>

text \<open>
  The instruction \<open>divl\<close>: the 64-bit number \<open>hi:lo\<close> divided by a 32-bit one, with a 32-bit
  quotient; a quotient that does not fit, or a zero divisor, raises an exception.
\<close>

definition divl :: "DWord \<Rightarrow> DWord \<Rightarrow> DWord \<Rightarrow> (DWord \<times> DWord) option" where
  "divl hi lo d =
     (let n = unat hi * 2 ^ 32 + unat lo
      in if d = 0 \<or> d \<le> hi then None
         else Some (of_nat (n div unat d), of_nat (n mod unat d)))"

text \<open>The macro \<open>do_div\<close>: the remainder, and the quotient that it leaves in \<open>n\<close>.\<close>

definition do_div :: "64 word \<Rightarrow> DWord \<Rightarrow> (DWord \<times> 64 word) option" where
  "do_div n base =
     (let low = ucast n :: DWord;
          high = ucast (drop_bit 32 n) :: DWord
      in if base = 0 then None
         else let upper = (if high \<noteq> 0 then high mod base else high);
                  high = (if high \<noteq> 0 then high div base else high)
              in do { (low, md) \<leftarrow> divl upper low base;
                      Some (md, push_bit 32 (ucast high) + ucast low) })"

definition CYCLESPERTICK :: DWord where "CYCLESPERTICK = 109000"

text \<open>\<open>get_ticks\<close>, given what \<open>rdtsc\<close> delivers in EAX and EDX.\<close>

definition get_ticks :: "DWord \<Rightarrow> DWord \<Rightarrow> DWord option" where
  "get_ticks eax edx =
     (let ticks = push_bit 32 (ucast edx :: 64 word) + ucast eax
      in do { (_, ticks) \<leftarrow> do_div ticks CYCLESPERTICK;
              Some (ucast ticks) })"

subsection \<open>The division is the 64-bit division\<close>

lemma long_division:
  fixes H L b B :: nat
  assumes "0 < b"
  shows "(H * B + L) div b = (H div b) * B + ((H mod b) * B + L) div b"
    and "(H * B + L) mod b = ((H mod b) * B + L) mod b"
proof -
  have eq: "H * B + L = ((H mod b) * B + L) + b * ((H div b) * B)"
    by (metis add.assoc add.commute add_mult_distrib mult.assoc mult_div_mod_eq)
  have "b \<noteq> 0" using assms by simp
  then show "(H * B + L) div b = (H div b) * B + ((H mod b) * B + L) div b"
    unfolding eq by (rule div_mult_self2)
  show "(H * B + L) mod b = ((H mod b) * B + L) mod b"
    unfolding eq by (rule mod_mult_self2)
qed

lemma unat_split_64:
  fixes n :: "64 word"
  shows "unat n = unat (ucast (drop_bit 32 n) :: DWord) * 4294967296 + unat (ucast n :: DWord)"
proof -
  have hi: "unat (ucast (drop_bit 32 n) :: DWord) = unat n div 4294967296"
  proof -
    have "unat (drop_bit 32 n) = unat n div 4294967296"
      by (simp add: drop_bit_eq_div unat_div)
    moreover have "unat n div 4294967296 < 4294967296"
      using unsigned_less [of n, where ?'a = nat] by (simp add: less_mult_imp_div_less)
    ultimately show ?thesis
      by (simp add: unsigned_ucast_eq take_bit_nat_eq_self)
  qed
  have "unat (ucast n :: DWord) = unat n mod 4294967296"
    by (simp add: unsigned_ucast_eq take_bit_eq_mod)
  with hi show ?thesis by simp
qed

lemma unat_join_64:
  fixes h l :: DWord
  shows "unat (push_bit 32 (ucast h :: 64 word) + ucast l) = unat h * 4294967296 + unat l"
proof -
  have up: "unat (ucast w :: 64 word) = unat w" for w :: DWord
  proof -
    have "unat w < 2 ^ 64" by (rule less_le_trans [OF unat_lt_power]) simp
    then have "take_bit 64 (unat w) = unat w" by (rule take_bit_nat_eq_self)
    then show ?thesis by (simp add: unsigned_ucast_eq)
  qed
  have "unat h * 4294967296 + unat l < 18446744073709551616"
    using unat_lt_power [of h] unat_lt_power [of l] by (simp del: unat_lt_power)
  then show ?thesis
    by (simp add: unat_word_ariths push_bit_eq_mult up)
qed

lemma do_div_spec:
  assumes "base \<noteq> 0"
  shows "\<exists>md q. do_div n base = Some (md, q) \<and> unat q = unat n div unat base \<and>
    unat md = unat n mod unat base"
proof -
  define H where "H = unat (ucast (drop_bit 32 n) :: DWord)"
  define L where "L = unat (ucast n :: DWord)"
  let ?b = "unat base"
  have n: "unat n = H * 4294967296 + L"
    unfolding H_def L_def by (rule unat_split_64)
  have b: "0 < ?b" using assms by (simp add: unat_gt_0)
  have L: "L < 4294967296" "H < 4294967296" "?b < 4294967296" by (simp_all add: L_def H_def)
  define q where "q = ((H mod ?b) * 4294967296 + L) div ?b"
  have "(H mod ?b) * 4294967296 + L < ?b * 4294967296"
  proof -
    have "(H mod ?b + 1) * 4294967296 \<le> ?b * 4294967296"
      using b by (intro mult_le_mono1) (simp add: Suc_leI)
    then show ?thesis using L by simp
  qed
  then have q: "q < 4294967296" using b by (simp add: q_def div_less_iff_less_mult mult.commute)
  have r: "((H mod ?b) * 4294967296 + L) mod ?b < 4294967296"
    using L(3) mod_less_divisor [OF b] less_trans by blast
  let ?up = "if (ucast (drop_bit 32 n) :: DWord) \<noteq> 0 then (ucast (drop_bit 32 n) :: DWord) mod base
    else (ucast (drop_bit 32 n) :: DWord)"
  let ?hi = "if (ucast (drop_bit 32 n) :: DWord) \<noteq> 0 then (ucast (drop_bit 32 n) :: DWord) div base
    else (ucast (drop_bit 32 n) :: DWord)"
  have up: "unat ?up = H mod ?b" and hi: "unat ?hi = H div ?b"
    by (simp_all add: H_def unat_mod unat_div)
  have lt: "\<not> base \<le> ?up" using up b by (simp add: word_le_nat_alt not_le)
  have "do_div n base = Some (of_nat (((H mod ?b) * 4294967296 + L) mod ?b),
    push_bit 32 (ucast ?hi) + ucast (of_nat q :: DWord))"
    using assms lt up unfolding do_div_def Let_def divl_def
    by (simp add: L_def q_def del: of_nat_add of_nat_mult)
  moreover have "unat (push_bit 32 (ucast ?hi) + ucast (of_nat q :: DWord) :: 64 word)
      = unat n div ?b"
    using q n long_division(1) [OF b, of H 4294967296 L]
    by (simp only: unat_join_64 hi unat_of_nat_u32 q_def)
  moreover have "unat (of_nat (((H mod ?b) * 4294967296 + L) mod ?b) :: DWord) = unat n mod ?b"
    using r n long_division(2) [OF b, of H 4294967296 L] by (simp only: unat_of_nat_u32)
  ultimately show ?thesis by blast
qed

lemma get_ticks_spec:
  "get_ticks eax edx = Some (of_nat ((unat edx * 4294967296 + unat eax) div 109000))"
proof -
  have "CYCLESPERTICK \<noteq> 0" "unat CYCLESPERTICK = 109000" by (simp_all add: CYCLESPERTICK_def)
  with do_div_spec [of CYCLESPERTICK "push_bit 32 (ucast edx) + ucast eax"] obtain md q where
    "do_div (push_bit 32 (ucast edx) + ucast eax) CYCLESPERTICK = Some (md, q)"
    "unat q = (unat edx * 4294967296 + unat eax) div 109000"
    by (auto simp: unat_join_64)
  moreover from this(2) have "(ucast q :: DWord)
      = of_nat ((unat edx * 4294967296 + unat eax) div 109000)"
    by (metis of_nat_unat)
  ultimately show ?thesis by (simp add: get_ticks_def)
qed

end
