(* ===== verification/UserMem.thy ===== *)
theory UserMem
  imports Paging Utils
begin

text \<open>
  The copies between user memory and the kernel as the system calls make them: the generic loops
  of \<open>Utils\<close> over the byte accesses of \<open>Paging\<close>. A copy into an automatic array of the kernel
  checks the bounds of the array; one into user memory goes through the page tables. The locale
  \<open>copy_regions\<close> is interpreted on the three kinds of copy the kernel uses.
\<close>

section \<open>Accesses\<close>

definition load_at :: "DWord \<Rightarrow> kstate \<Rightarrow> nat \<Rightarrow> Byte option" where
  "load_at va s i = load_byte (va + of_nat i) s"

definition store_at :: "DWord \<Rightarrow> nat \<Rightarrow> Byte \<Rightarrow> kstate \<Rightarrow> kstate option" where
  "store_at va i b s = store_byte (va + of_nat i) b s"

text \<open>An array of the kernel: reading or writing past its end is undefined.\<close>

definition array_get :: "Byte list \<Rightarrow> nat \<Rightarrow> Byte option" where
  "array_get bs i = (if i < length bs then Some (bs ! i) else None)"

definition array_put :: "nat \<Rightarrow> Byte \<Rightarrow> Byte list \<Rightarrow> Byte list option" where
  "array_put i b bs = (if i < length bs then Some (bs[i := b]) else None)"

text \<open>\<open>copy_from_user(va, array, size)\<close> and \<open>copy_to_user(array, va, size)\<close>.\<close>

definition read_user :: "DWord \<Rightarrow> int \<Rightarrow> Byte list \<Rightarrow> kstate \<Rightarrow> (int \<times> Byte list) option" where
  "read_user va sz bs s = copy_from_user (\<lambda>m. load_at va s) array_put sz bs"

definition write_user :: "Byte list \<Rightarrow> DWord \<Rightarrow> int \<Rightarrow> kstate \<Rightarrow> (int \<times> kstate) option" where
  "write_user bs va sz s = copy_to_user (\<lambda>s. array_get bs) (store_at va) sz s"

text \<open>\<open>copy_data(src, dst, size)\<close> between two user areas.\<close>

definition move_user :: "DWord \<Rightarrow> DWord \<Rightarrow> int \<Rightarrow> kstate \<Rightarrow> kstate option" where
  "move_user src dst sz s = copy_data (load_at src) (store_at dst) sz s"

section \<open>Regions of user memory\<close>

definition cells :: "kstate \<Rightarrow> DWord \<Rightarrow> nat \<Rightarrow> (nat \<times> nat) option set" where
  "cells s va n = (\<lambda>i. translate (va + of_nat i) s) ` {..<n}"

text \<open>\<open>n\<close> bytes that are mapped, to frames of users, each to a cell of its own.\<close>

definition user_region :: "kstate \<Rightarrow> DWord \<Rightarrow> nat \<Rightarrow> bool" where
  "user_region s va n \<longleftrightarrow>
     (\<forall>i < n. \<exists>f k. translate (va + of_nat i) s = Some (f, k) \<and> 256 \<le> f) \<and>
     inj_on (\<lambda>i. translate (va + of_nat i) s) {..<n}"

definition user_bytes :: "kstate \<Rightarrow> DWord \<Rightarrow> nat \<Rightarrow> Byte list" where
  "user_bytes s va n = map (\<lambda>i. the (load_at va s i)) [0..<n]"

definition user_mapped :: "kstate \<Rightarrow> DWord \<Rightarrow> nat \<Rightarrow> bool" where
  "user_mapped s va n \<longleftrightarrow> (\<forall>i < n. load_at va s i \<noteq> None)"

lemma region_mapped: "user_region s va n \<Longrightarrow> user_mapped s va n"
  by (auto simp: user_region_def user_mapped_def load_at_def load_byte_def)

lemma translate_ram [simp]: "translate va (s\<lparr>ram := r\<rparr>) = translate va s"
  by (simp add: translate_def Let_def cong: if_cong)

lemma store_load:
  assumes "translate va s = Some (f, k)" and "256 \<le> f"
  shows "store_byte va b s = Some (s\<lparr>ram := (ram s)(f := (ram s f)(k := b))\<rparr>)"
  using assms by (simp add: store_byte_def)

lemma load_byte_ram:
  "load_byte va (s\<lparr>ram := r\<rparr>) =
    (case translate va s of Some (f, k) \<Rightarrow> if 256 \<le> f then Some (r f k) else None | None \<Rightarrow> None)"
  by (simp add: load_byte_def split: option.splits)

definition ram_rest :: "(nat \<times> nat) option set \<Rightarrow> kstate \<Rightarrow> kstate \<times> (nat \<times> nat \<Rightarrow> Byte)" where
  "ram_rest A s = (s\<lparr>ram := \<lambda>_ _. 0\<rparr>, \<lambda>p. if Some p \<in> A then 0 else ram s (fst p) (snd p))"

lemma ram_rest_eq: "ram_rest A s' = ram_rest B s \<Longrightarrow> s' = s\<lparr>ram := ram s'\<rparr>"
proof -
  assume "ram_rest A s' = ram_rest B s"
  then have "s'\<lparr>ram := \<lambda>_ _. 0\<rparr>\<lparr>ram := ram s'\<rparr> = s\<lparr>ram := \<lambda>_ _. 0\<rparr>\<lparr>ram := ram s'\<rparr>"
    by (simp add: ram_rest_def)
  then show ?thesis by simp
qed

text \<open>One byte written into a region.\<close>

lemma store_at_region:
  assumes r: "user_region s va n" and i: "i < n"
  shows "\<exists>s'. store_at va i b s = Some s' \<and> (\<exists>r. s' = s\<lparr>ram := r\<rparr>) \<and>
    (\<forall>j < n. load_at va s' j = (if j = i then Some b else load_at va s j)) \<and>
    (\<forall>w. translate w s \<notin> cells s va n \<longrightarrow> load_byte w s' = load_byte w s) \<and>
    ram_rest (cells s va n) s' = ram_rest (cells s va n) s"
proof -
  obtain f k where fk: "translate (va + of_nat i) s = Some (f, k)" "256 \<le> f"
    using r i by (auto simp: user_region_def)
  let ?s = "s\<lparr>ram := (ram s)(f := (ram s f)(k := b))\<rparr>"
  have cell: "Some (f, k) \<in> cells s va n" using fk(1) i by (force simp: cells_def)
  have other: "translate (va + of_nat j) s \<noteq> Some (f, k)" if "j < n" "j \<noteq> i" for j
    using r that i fk(1) unfolding user_region_def inj_on_def by force
  have "load_at va ?s j = (if j = i then Some b else load_at va s j)" if "j < n" for j
    using that other [OF that] fk
    by (auto simp: load_at_def load_byte_ram load_byte_def split: option.splits bind_splits)
  moreover have "load_byte w ?s = load_byte w s" if "translate w s \<notin> cells s va n" for w
    using that cell by (auto simp: load_byte_ram load_byte_def split: option.splits bind_splits)
  moreover have "ram_rest (cells s va n) ?s = ram_rest (cells s va n) s"
    using cell by (auto simp: ram_rest_def fun_eq_iff)
  moreover have "store_at va i b s = Some ?s"
    using fk by (simp add: store_at_def store_load)
  ultimately show ?thesis by blast
qed

lemma user_region_ram [simp]: "user_region (s\<lparr>ram := r\<rparr>) va n = user_region s va n"
  by (simp add: user_region_def)

lemma cells_ram [simp]: "cells (s\<lparr>ram := r\<rparr>) va n = cells s va n"
  by (simp add: cells_def)

section \<open>The three kinds of copy\<close>

interpretation from_user: copy_regions "\<lambda>m :: Byte list. load_at va s" array_put n
  "\<lambda>m. n \<le> length m \<and> user_mapped s va n" "\<lambda>m i. m ! i" "\<lambda>m. (length m, drop n m)"
  for s va n
  by unfold_locales (auto simp: user_mapped_def array_put_def nth_list_update)

interpretation to_user: copy_regions "\<lambda>m :: kstate. array_get bs" "store_at va" n
  "\<lambda>m. n \<le> length bs \<and> user_region m va n" "\<lambda>m i. the (load_at va m i)"
  "\<lambda>m. ram_rest (cells m va n) m"
  for bs va n
proof (unfold_locales, goal_cases)
  case (1 m i)
  then show ?case by (simp add: array_get_def)
next
  case (2 m i b)
  then obtain m' where m': "store_at va i b m = Some m'" "\<exists>r. m' = m\<lparr>ram := r\<rparr>"
    "\<forall>j < n. load_at va m' j = (if j = i then Some b else load_at va m j)"
    "ram_rest (cells m va n) m' = ram_rest (cells m va n) m"
    using store_at_region [of m va n i b] by blast
  from m'(2) have "cells m' va n = cells m va n" "user_region m' va n = user_region m va n" by auto
  with m' 2 show ?case by (intro exI [of _ m']) simp
qed

interpretation user_move: copy_regions "load_at src" "store_at dst" n
  "\<lambda>m. user_mapped m src n \<and> user_region m dst n \<and> cells m src n \<inter> cells m dst n = {}"
  "\<lambda>m i. the (load_at dst m i)" "\<lambda>m. ram_rest (cells m dst n) m"
  for src dst n
proof (unfold_locales, goal_cases)
  case (1 m i)
  then show ?case by (auto simp: user_mapped_def)
next
  case (2 m i b)
  then have disj: "cells m src n \<inter> cells m dst n = {}" and i: "i < n"
    and r: "user_region m dst n" and um: "user_mapped m src n" by auto
  obtain m' where m': "store_at dst i b m = Some m'" "\<exists>r. m' = m\<lparr>ram := r\<rparr>"
    "\<forall>j < n. load_at dst m' j = (if j = i then Some b else load_at dst m j)"
    "\<And>w. translate w m \<notin> cells m dst n \<Longrightarrow> load_byte w m' = load_byte w m"
    "ram_rest (cells m dst n) m' = ram_rest (cells m dst n) m"
    using store_at_region [OF r i, of b] by blast
  have same: "cells m' va n = cells m va n" "user_region m' va n = user_region m va n" for va
    using m'(2) by auto
  have "translate (src + of_nat j) m \<notin> cells m dst n" if "j < n" for j
    using that disj by (auto simp: cells_def)
  then have src: "load_at src m' j = load_at src m j" if "j < n" for j
    using that m'(4) by (simp add: load_at_def)
  then have "user_mapped m' src n" using um by (simp add: user_mapped_def)
  with m' same src r disj show ?case by (intro exI [of _ m']) simp
qed

text \<open>The copies of the system calls do what they promise.\<close>

lemma read_user_spec:
  assumes "user_mapped s va n" and "n \<le> length bs"
  shows "\<exists>bs'. read_user va (int n) bs s = Some (0, bs') \<and> take n bs' = user_bytes s va n \<and>
    length bs' = length bs"
proof -
  obtain bs' where "read_user va (int n) bs s = Some (0, bs')" "length bs' = length bs"
    "\<And>j. j < n \<Longrightarrow> load_at va s j = Some (bs' ! j)"
    using from_user.copies [of n bs s va] assms unfolding read_user_def by auto
  moreover from this have "take n bs' = user_bytes s va n"
    using assms(2) by (intro nth_equalityI) (auto simp: user_bytes_def)
  ultimately show ?thesis by blast
qed

lemma write_user_spec:
  assumes "user_region s va n" and "length bs = n"
  shows "\<exists>s'. write_user bs va (int n) s = Some (0, s') \<and> user_bytes s' va n = bs \<and>
    (\<exists>r. s' = s\<lparr>ram := r\<rparr>) \<and> ram_rest (cells s va n) s' = ram_rest (cells s va n) s"
proof -
  obtain s' where s': "write_user bs va (int n) s = Some (0, s')" "user_region s' va n"
    "ram_rest (cells s' va n) s' = ram_rest (cells s va n) s"
    "\<And>j. j < n \<Longrightarrow> array_get bs j = Some (the (load_at va s' j))"
    using to_user.copies [of n bs s va] assms unfolding write_user_def by auto
  have "user_bytes s' va n = bs"
    using s'(4) assms(2) by (intro nth_equalityI) (auto simp: user_bytes_def array_get_def)
  have eq: "s' = s\<lparr>ram := ram s'\<rparr>" by (rule ram_rest_eq [OF s'(3)])
  have "cells s' va n = cells (s\<lparr>ram := ram s'\<rparr>) va n" by (rule arg_cong [OF eq])
  then have "cells s' va n = cells s va n" by (simp only: cells_ram)
  with s'(1,3) \<open>user_bytes s' va n = bs\<close> show ?thesis
    by (intro exI [of _ s'] conjI exI [of _ "ram s'"] eq) simp_all
qed

lemma move_user_spec:
  assumes "user_mapped s src n" and "user_region s dst n" and "cells s src n \<inter> cells s dst n = {}"
  shows "\<exists>s'. move_user src dst (int n) s = Some s' \<and>
    user_bytes s' dst n = user_bytes s src n \<and> (\<exists>r. s' = s\<lparr>ram := r\<rparr>) \<and>
    ram_rest (cells s dst n) s' = ram_rest (cells s dst n) s"
proof -
  obtain s' where s': "move_user src dst (int n) s = Some s'" "user_region s' dst n"
    "ram_rest (cells s' dst n) s' = ram_rest (cells s dst n) s"
    "\<And>j. j < n \<Longrightarrow> load_at src s j = Some (the (load_at dst s' j))"
    using user_move.copies [of s src n dst] assms unfolding move_user_def by auto
  have "user_bytes s' dst n = user_bytes s src n"
    using s'(4) by (auto simp: user_bytes_def)
  have eq: "s' = s\<lparr>ram := ram s'\<rparr>" by (rule ram_rest_eq [OF s'(3)])
  have "cells s' dst n = cells (s\<lparr>ram := ram s'\<rparr>) dst n" by (rule arg_cong [OF eq])
  then have "cells s' dst n = cells s dst n" by (simp only: cells_ram)
  with s'(1,3) \<open>user_bytes s' dst n = user_bytes s src n\<close> show ?thesis
    by (intro exI [of _ s'] conjI exI [of _ "ram s'"] eq) simp_all
qed

text \<open>A copy of more bytes than the array has is out of bounds.\<close>

lemma copy_loop1_fits:
  "copy_loop1 (\<lambda>m. load_at va s) array_put i sz bs = Some bs' \<Longrightarrow>
    sz \<le> 0 \<or> i + nat sz \<le> length bs"
proof (induction "nat sz" arbitrary: i sz bs)
  case (Suc k)
  from Suc.hyps(2) have sz: "0 < sz" "k = nat (sz - 1)" by auto
  with Suc.prems obtain bs1 b where 1: "array_put i b bs = Some bs1"
    "copy_loop1 (\<lambda>m. load_at va s) array_put (i + 1) (sz - 1) bs1 = Some bs'"
    by (subst (asm) copy_loop1.simps) (auto elim!: bind_eq_SomeE)
  have "length bs1 = length bs" "i < length bs"
    using 1(1) by (auto simp: array_put_def split: if_splits)
  with Suc.hyps(1) [OF sz(2) 1(2)] sz(1) show ?case by auto
qed simp

lemma copy_loop4_counts:
  "copy_loop4 (\<lambda>m. load_at va s) array_put i sz bs = Some (j, sz', bs') \<Longrightarrow>
    length bs' = length bs \<and> int j + sz' = int i + sz \<and> (0 < sz \<longrightarrow> 0 < sz')"
proof (induction "nat sz" arbitrary: i sz bs rule: less_induct)
  case less
  have len: "length m' = length m" if "array_put k b m = Some m'" for k b m m'
    using that by (auto simp: array_put_def split: if_splits)
  show ?case
  proof (cases "4 < sz")
    case False
    with less.prems show ?thesis by (subst (asm) copy_loop4.simps) auto
  next
    case True
    with less.prems obtain b0 b1 b2 b3 m1 m2 m3 m4 where
      "array_put i b0 bs = Some m1" "array_put (i + 1) b1 m1 = Some m2"
      "array_put (i + 2) b2 m2 = Some m3" "array_put (i + 3) b3 m3 = Some m4"
      "copy_loop4 (\<lambda>m. load_at va s) array_put (i + 4) (sz - 4) m4 = Some (j, sz', bs')"
      by (subst (asm) copy_loop4.simps) (auto elim!: bind_eq_SomeE)
    with len less.hyps [of "sz - 4" "i + 4" m4] True show ?thesis by fastforce
  qed
qed

lemma read_user_overrun:
  assumes "int (length bs) < sz"
  shows "read_user va sz bs s = None"
proof (rule ccontr)
  assume "read_user va sz bs s \<noteq> None"
  then obtain j sz' bs1 bs' where
    "copy_loop4 (\<lambda>m. load_at va s) array_put 0 sz bs = Some (j, sz', bs1)"
    "copy_loop1 (\<lambda>m. load_at va s) array_put j sz' bs1 = Some bs'"
    by (auto simp: read_user_def copy_from_user_def elim!: bind_eq_SomeE)
  with copy_loop4_counts copy_loop1_fits have
    "length bs1 = length bs" "int j + sz' = sz" "0 < sz'" "sz' \<le> 0 \<or> j + nat sz' \<le> length bs1"
    using assms by fastforce+
  then show False using assms by linarith
qed

end
