(* ===== verification/ScreenIO.thy ===== *)
theory ScreenIO
  imports KState
begin

text \<open>
  The text screen (\<open>io.c\<close>). The cursor \<open>x\<close>, \<open>y\<close> is a pair of bytes, the screen is the
  80 by 25 array of 16-bit cells at \<open>0xb8000\<close>; every character is sent to port E9 as well,
  which the model keeps as the sequence \<open>port_e9\<close>. \<open>inb\<close> is the instruction: what the port
  delivers is an argument of the routines that read one.
\<close>

section \<open>Operations\<close>

definition NUM_COLUMNS :: nat where "NUM_COLUMNS = 80"
definition NUM_ROWS :: nat where "NUM_ROWS = 25"

definition NEWLINE :: Byte where "NEWLINE = 10"

lemma screen_values [simp, const_simps]: "NUM_COLUMNS = 80" "NUM_ROWS = 25" "NEWLINE = 10"
  by (simp_all add: NUM_COLUMNS_def NUM_ROWS_def NEWLINE_def)

text \<open>\<open>y=(y+1)%NUM_ROWS\<close>, computed as an int and stored in a byte.\<close>

definition next_row :: "Byte \<Rightarrow> Byte" where
  "next_row y = of_nat ((unat y + 1) mod NUM_ROWS)"

definition screen_addr :: "Byte \<Rightarrow> Byte \<Rightarrow> DWord" where
  "screen_addr x y = 0xb8000 + of_nat ((unat y * NUM_COLUMNS + unat x) * 2)"

definition screen_cell :: "Byte \<Rightarrow> Word" where
  "screen_cell c = (ucast c AND 0x00FF) OR 0x0200"

definition printc :: "Byte \<Rightarrow> kstate \<Rightarrow> kstate" where
  "printc c s =
     (let s = s\<lparr>port_e9 := port_e9 s @ [c]\<rparr>
      in if c = NEWLINE then s\<lparr>scr_x := 0, scr_y := next_row (scr_y s)\<rparr>
         else let ch = screen_cell c;
                  screen = screen_addr (scr_x s) (scr_y s);
                  s = s\<lparr>scr_x := scr_x s + 1\<rparr>;
                  s = (if NUM_COLUMNS \<le> unat (scr_x s)
                       then s\<lparr>scr_x := 0, scr_y := next_row (scr_y s)\<rparr> else s)
              in s\<lparr>video := (video s)(screen := ch)\<rparr>)"

definition printc_xy :: "Byte \<Rightarrow> Byte \<Rightarrow> Byte \<Rightarrow> kstate \<Rightarrow> kstate" where
  "printc_xy mx my c s =
     (let cx = scr_x s; cy = scr_y s;
          s = printc c (s\<lparr>scr_x := mx, scr_y := my\<rparr>)
      in s\<lparr>scr_x := cx, scr_y := cy\<rparr>)"

text \<open>A C string is the sequence of its bytes before the terminating zero.\<close>

definition c_string :: "string \<Rightarrow> Byte list" where
  "c_string cs = map of_char cs"

definition printk :: "Byte list \<Rightarrow> kstate \<Rightarrow> kstate" where
  "printk str s = fold printc (takeWhile (\<lambda>c. c \<noteq> 0) str) s"

section \<open>The cursor stays on the screen\<close>

definition on_screen :: "kstate \<Rightarrow> bool" where
  "on_screen s \<longleftrightarrow> unat (scr_x s) < 80 \<and> unat (scr_y s) < 25"

lemma unat_next_row: "unat (next_row y) = (unat y + 1) mod 25"
proof -
  have "(unat y + 1) mod 25 < 256" by (rule less_trans [of _ 25]) simp_all
  then show ?thesis by (simp add: next_row_def unsigned_of_nat take_bit_nat_eq_self)
qed

lemma next_row_bound [simp]: "unat (next_row y) < 25"
  unfolding unat_next_row by simp

lemma unat_byte_inc: "unat (x :: Byte) < 80 \<Longrightarrow> unat (x + 1) = unat x + 1"
  by (simp add: unat_word_ariths)

text \<open>The text of the screen: cell \<open>(c, r)\<close>.\<close>

definition cell_at :: "kstate \<Rightarrow> nat \<Rightarrow> nat \<Rightarrow> Word" where
  "cell_at s c r = video s (0xb8000 + of_nat ((r * 80 + c) * 2))"

lemma screen_addr_inj:
  assumes "c < 80" "c' < 80" "r < 25" "r' < 25"
  shows "(0xb8000 :: DWord) + of_nat ((r * 80 + c) * 2) = 0xb8000 + of_nat ((r' * 80 + c') * 2)
    \<longleftrightarrow> r = r' \<and> c = c'"
proof -
  have "(of_nat ((r * 80 + c) * 2) :: DWord) = of_nat ((r' * 80 + c') * 2) \<longleftrightarrow>
      (r * 80 + c) * 2 = (r' * 80 + c') * 2"
    using assms by (intro of_nat_inj_u32) auto
  also have "\<dots> \<longleftrightarrow> r * 80 + c = r' * 80 + c'" by (simp only: mult_cancel2) simp
  also have "\<dots> \<longleftrightarrow> r = r' \<and> c = c'"
  proof
    assume eq: "r * 80 + c = r' * 80 + c'"
    have "(r * 80 + c) div 80 = r" "(r' * 80 + c') div 80 = r'" using assms(1,2) by simp_all
    with eq show "r = r' \<and> c = c'" by simp
  qed simp
  finally show ?thesis by (simp del: of_nat_mult of_nat_add)
qed

text \<open>
  What one character does: a newline moves the cursor, any other character is written in the cell
  under the cursor, in green, and the cursor advances.
\<close>

lemma printc_spec:
  assumes "on_screen s"
  shows "on_screen (printc c s)" and "port_e9 (printc c s) = port_e9 s @ [c]"
    and "unat (scr_y (printc c s)) * 80 + unat (scr_x (printc c s)) =
      (if c = 10 then (unat (scr_y s) + 1) * 80
       else unat (scr_y s) * 80 + unat (scr_x s) + 1) mod 2000"
    and "col < 80 \<Longrightarrow> row < 25 \<Longrightarrow> cell_at (printc c s) col row =
      (if c \<noteq> 10 \<and> col = unat (scr_x s) \<and> row = unat (scr_y s)
       then screen_cell c else cell_at s col row)"
proof -
  let ?x = "unat (scr_x s)" and ?y = "unat (scr_y s)"
  have b: "?x < 80" "?y < 25" using assms by (auto simp: on_screen_def)
  note inc = unat_byte_inc [OF b(1)]
  show "on_screen (printc c s)"
    using b by (auto simp: on_screen_def printc_def Let_def inc)
  show "port_e9 (printc c s) = port_e9 s @ [c]"
    by (simp add: printc_def Let_def)
  have "((?y + 1) mod 25) * 80 = ((?y + 1) * 80) mod 2000"
    by (simp add: mult_mod_left)
  then show "unat (scr_y (printc c s)) * 80 + unat (scr_x (printc c s)) =
      (if c = 10 then (?y + 1) * 80 else ?y * 80 + ?x + 1) mod 2000"
    using b by (auto simp: printc_def Let_def inc unat_next_row le_Suc_eq)
  assume "col < 80" "row < 25"
  with b screen_addr_inj [of ?x col ?y row]
  show "cell_at (printc c s) col row =
      (if c \<noteq> 10 \<and> col = ?x \<and> row = ?y then screen_cell c else cell_at s col row)"
    by (auto simp: printc_def Let_def cell_at_def screen_addr_def simp del: of_nat_mult of_nat_add)
qed

definition screen_frame :: "kstate \<Rightarrow> kstate \<Rightarrow> bool" where
  "screen_frame s s' \<longleftrightarrow>
     (\<exists>x y v p. s' = s\<lparr>scr_x := x, scr_y := y, video := v, port_e9 := p\<rparr>)"

lemma screen_frame_refl [simp, intro]: "screen_frame s s"
  unfolding screen_frame_def
  by (rule exI [of _ "scr_x s"], rule exI [of _ "scr_y s"], rule exI [of _ "video s"],
      rule exI [of _ "port_e9 s"]) simp

lemma screen_frame_trans: "screen_frame s s1 \<Longrightarrow> screen_frame s1 s2 \<Longrightarrow> screen_frame s s2"
  unfolding screen_frame_def by force

lemma printc_frame: "screen_frame s (printc c s)"
proof (cases "c = 10")
  case True
  then show ?thesis
    unfolding screen_frame_def
    by (intro exI [of _ "scr_x (printc c s)"] exI [of _ "scr_y (printc c s)"]
        exI [of _ "video (printc c s)"] exI [of _ "port_e9 (printc c s)"])
      (simp add: printc_def Let_def)
next
  case False
  then show ?thesis
    unfolding screen_frame_def
    by (intro exI [of _ "scr_x (printc c s)"] exI [of _ "scr_y (printc c s)"]
        exI [of _ "video (printc c s)"] exI [of _ "port_e9 (printc c s)"])
      (simp add: printc_def Let_def)
qed

text \<open>A sequence of characters.\<close>

lemma prints_spec:
  assumes "on_screen s"
  shows "on_screen (fold printc cs s) \<and> port_e9 (fold printc cs s) = port_e9 s @ cs \<and>
    screen_frame s (fold printc cs s)"
  using assms
proof (induction cs arbitrary: s)
  case (Cons c cs)
  then have "on_screen (printc c s)" by (intro printc_spec(1))
  from Cons.IH [OF this] show ?case
    using printc_spec(2) [OF Cons.prems, of c]
      screen_frame_trans [OF printc_frame, of c s "fold printc cs (printc c s)"] by simp
qed simp

lemma printc_xy_spec:
  assumes "unat mx < 80" and "unat my < 25"
  shows "scr_x (printc_xy mx my c s) = scr_x s \<and> scr_y (printc_xy mx my c s) = scr_y s \<and>
    port_e9 (printc_xy mx my c s) = port_e9 s @ [c] \<and> screen_frame s (printc_xy mx my c s) \<and>
    (\<forall>col < 80. \<forall>row < 25. cell_at (printc_xy mx my c s) col row =
      (if c \<noteq> 10 \<and> col = unat mx \<and> row = unat my then screen_cell c else cell_at s col row))"
proof -
  let ?s = "s\<lparr>scr_x := mx, scr_y := my\<rparr>"
  have on: "on_screen ?s" using assms by (simp add: on_screen_def)
  obtain x y v p where f: "printc c ?s = ?s\<lparr>scr_x := x, scr_y := y, video := v, port_e9 := p\<rparr>"
    using printc_frame [of ?s c] by (auto simp: screen_frame_def)
  have eq: "printc_xy mx my c s = s\<lparr>video := v, port_e9 := p\<rparr>"
    by (simp add: printc_xy_def f)
  have cell: "cell_at (printc_xy mx my c s) col row = cell_at (printc c ?s) col row"
    "cell_at ?s col row = cell_at s col row" for col row
    unfolding eq f by (simp_all add: cell_at_def)
  have p: "p = port_e9 s @ [c]" using printc_spec(2) [OF on, of c] by (simp add: f)
  have "screen_frame s (s\<lparr>video := v, port_e9 := p\<rparr>)"
    unfolding screen_frame_def
    by (intro exI [of _ "scr_x s"] exI [of _ "scr_y s"] exI [of _ v] exI [of _ p]) simp
  moreover have "cell_at (printc_xy mx my c s) col row =
      (if c \<noteq> 10 \<and> col = unat mx \<and> row = unat my then screen_cell c else cell_at s col row)"
    if "col < 80" "row < 25" for col row
    using printc_spec(4) [OF on that, of c] unfolding cell by simp
  ultimately show ?thesis by (simp add: eq p)
qed

end
