(* ===== verification/Sched.thy ===== *)
theory Sched
  imports Paging Utils
begin

text \<open>
  The scheduler of \<open>sched.c\<close>: time accounting, the round-robin policy, and the context switch.
  A routine that gives up the processor ends with \<open>task_switch\<close>: from there on another task
  runs, and \<open>switch_target\<close> says where. The routine's own continuation, with which it comes
  back when it is switched to again, is the \<open>kcont\<close> that the switch stores.
  Each operation has a specification over the queues as sequences of tasks (\<open>queue_map\<close>).
\<close>

section \<open>Time accounting\<close>

definition rdtsc :: "kstate \<Rightarrow> DWord \<times> DWord \<times> kstate" where
  "rdtsc s = (let w = tsc s (tsc_pos s)
              in (ucast w, ucast (drop_bit 32 w), s\<lparr>tsc_pos := tsc_pos s + 1\<rparr>))"

definition read_ticks :: "kstate \<Rightarrow> (DWord \<times> kstate) option" where
  "read_ticks s =
     (let (eax, edx, s) = rdtsc s
      in do { n \<leftarrow> get_ticks eax edx; Some (n, s) })"

text \<open>\<open>update_stats(v, &elapsed_total_ticks)\<close> of task \<open>t\<close>; \<open>upd\<close> updates the counter \<open>v\<close>.\<close>

definition update_stats ::
  "((DWord \<Rightarrow> DWord) \<Rightarrow> stats \<Rightarrow> stats) \<Rightarrow> nat \<Rightarrow> kstate \<Rightarrow> kstate option" where
  "update_stats upd t s =
     do { (current_ticks, s) \<leftarrow> read_ticks s;
          let elapsed = elapsed_total_ticks (task_stats (task_of s t));
          Some (upd_task t (\<lambda>x. x\<lparr>task_stats :=
                  (upd (\<lambda>v. v + (current_ticks - elapsed)) (task_stats x))
                    \<lparr>elapsed_total_ticks := current_ticks\<rparr>\<rparr>) s) }"

definition init_task_stats :: "nat \<Rightarrow> kstate \<Rightarrow> kstate option" where
  "init_task_stats t s =
     do { let s = upd_task t (\<lambda>x. x\<lparr>task_stats := (task_stats x)\<lparr>blocked_ticks := 0\<rparr>\<rparr>) s;
          (n, s) \<leftarrow> read_ticks s;
          let s = upd_task t (\<lambda>x. x\<lparr>task_stats := (task_stats x)
                    \<lparr>elapsed_total_ticks := n, ready_ticks := 0\<rparr>\<rparr>) s;
          (n, s) \<leftarrow> read_ticks s;
          Some (upd_task t (\<lambda>x. x\<lparr>task_stats := (task_stats x)
                  \<lparr>stat_remaining_ticks := n, system_ticks := 0, total_trans := 0,
                   user_ticks := 0\<rparr>\<rparr>) s) }"

text \<open>The reading that the counter delivers next, in ticks.\<close>

definition now :: "kstate \<Rightarrow> DWord" where
  "now s = of_nat (unat (tsc s (tsc_pos s)) div 109000)"

lemma read_ticks_eq: "read_ticks s = Some (now s, s\<lparr>tsc_pos := tsc_pos s + 1\<rparr>)"
  by (simp add: read_ticks_def rdtsc_def get_ticks_spec now_def unat_split_64 [symmetric]
      Let_def)

definition charge :: "((DWord \<Rightarrow> DWord) \<Rightarrow> stats \<Rightarrow> stats) \<Rightarrow> nat \<Rightarrow> kstate \<Rightarrow> kstate" where
  "charge upd t s =
     (let n = now s; elapsed = elapsed_total_ticks (task_stats (task_of s t))
      in upd_task t (\<lambda>x. x\<lparr>task_stats := (upd (\<lambda>v. v + (n - elapsed)) (task_stats x))
           \<lparr>elapsed_total_ticks := n\<rparr>\<rparr>) (s\<lparr>tsc_pos := tsc_pos s + 1\<rparr>))"

lemma update_stats_eq [simp]: "update_stats upd t s = Some (charge upd t s)"
  by (simp add: update_stats_def read_ticks_eq charge_def Let_def task_of_def)

text \<open>Charging time touches the statistics of one task and the counter's position.\<close>

lemma charge_frame [simp, frame_simps]:
  "syms (charge u t s) = syms s" "lists (charge u t s) = lists s" "cur (charge u t s) = cur s"
  "idle_task (charge u t s) = idle_task s" "nextPid (charge u t s) = nextPid s"
  "remaining_ticks (charge u t s) = remaining_ticks s"
  "semaphores (charge u t s) = semaphores s" "cb (charge u t s) = cb s"
  "phys_mem (charge u t s) = phys_mem s" "dir_pages (charge u t s) = dir_pages s"
  "pagusr_table (charge u t s) = pagusr_table s"
  "dir_references (charge u t s) = dir_references s"
  "tss_esp0 (charge u t s) = tss_esp0 s" "cr3 (charge u t s) = cr3 s"
  "ram (charge u t s) = ram s" "zeos_ticks (charge u t s) = zeos_ticks s"
  "tsc (charge u t s) = tsc s" "tsc_pos (charge u t s) = tsc_pos s + 1"
  "scr_x (charge u t s) = scr_x s" "scr_y (charge u t s) = scr_y s" "video (charge u t s) = video s"
  "port_e9 (charge u t s) = port_e9 s"
  "stack (tasks (charge u t s) r) = stack (tasks s r)"
  by (simp_all add: charge_def Let_def upd_task_def)

lemma charge_task_frame [simp, frame_simps]:
  "PID (task_of (charge u t s) r) = PID (task_of s r)"
  "dir_pages_baseAddr (task_of (charge u t s) r) = dir_pages_baseAddr (task_of s r)"
  "kernel_esp (task_of (charge u t s) r) = kernel_esp (task_of s r)"
  "quantum (task_of (charge u t s) r) = quantum (task_of s r)"
  "state (task_of (charge u t s) r) = state (task_of s r)"
  "kb_data (task_of (charge u t s) r) = kb_data (task_of s r)"
  "program_break (task_of (charge u t s) r) = program_break (task_of s r)"
  "r \<noteq> t \<Longrightarrow> task_of (charge u t s) r = task_of s r"
  by (simp_all add: charge_def Let_def task_of_def upd_task_def)

lemma charge_stats:
  "task_stats (task_of (charge u t s) t) =
     (u (\<lambda>v. v + (now s - elapsed_total_ticks (task_stats (task_of s t)))) (task_stats (task_of s t)))
       \<lparr>elapsed_total_ticks := now s\<rparr>"
  by (simp add: charge_def Let_def task_of_def upd_task_def)

section \<open>Policy\<close>

definition get_quantum :: "nat \<Rightarrow> kstate \<Rightarrow> int" where
  "get_quantum t s = to_s32 (quantum (task_of s t))"

definition set_quantum :: "nat \<Rightarrow> int \<Rightarrow> kstate \<Rightarrow> kstate" where
  "set_quantum t new_quantum s = upd_task t (\<lambda>x. x\<lparr>quantum := to_u32 new_quantum\<rparr>) s"

definition getNextPid :: "kstate \<Rightarrow> int \<times> kstate" where
  "getNextPid s = (let s = s\<lparr>nextPid := nextPid s + 1\<rparr> in (to_s32 (nextPid s), s))"

text \<open>What a kernel routine does: it returns, or it has switched to another task.\<close>

datatype 'a outcome = Return 'a | Switched

definition update_process_state_rr :: "nat \<Rightarrow> lnode option \<Rightarrow> kstate \<Rightarrow> kstate option" where
  "update_process_state_rr t dest s =
     do { s \<leftarrow> (if state (task_of s t) \<noteq> ST_RUN
               then do { h \<leftarrow> list_del (Some (TaskNode t)) (lists s); Some (s\<lparr>lists := h\<rparr>) }
               else Some s);
          if dest \<noteq> None then
            do { h \<leftarrow> list_add_tail (Some (TaskNode t)) dest (lists s);
                 let s = s\<lparr>lists := h\<rparr>;
                 if dest \<noteq> Some Readyqueue then Some (set_state t ST_BLOCKED s)
                 else do { s \<leftarrow> update_stats user_ticks_update t s;
                           Some (set_state t ST_READY s) } }
          else Some (set_state t ST_RUN s) }"

text \<open>\<open>inner_task_switch\<close>, with \<open>k\<close> for the frames on the stack of the task that stops.\<close>

definition inner_task_switch :: "kcont \<Rightarrow> nat \<Rightarrow> kstate \<Rightarrow> kstate" where
  "inner_task_switch k new s =
     (let s = s\<lparr>tss_esp0 := KERNEL_ESP (syms s) new\<rparr>;
          s = (if get_DIR_pos (get_DIR new s) s \<noteq> get_DIR_pos (get_DIR (cur s) s) s
               then s\<lparr>cr3 := dir_pages_baseAddr (task_of s new)\<rparr> else s);
          s = upd_task (cur s) (\<lambda>x. x\<lparr>kernel_esp := Frames k\<rparr>) s
      in s\<lparr>cur := new\<rparr>)"

definition task_switch :: "kcont \<Rightarrow> nat \<Rightarrow> kstate \<Rightarrow> kstate" where
  "task_switch k t s = inner_task_switch k t s"

text \<open>
  Where execution goes on after \<open>movl kernel_esp, %esp; popl %ebp; ret\<close>: in the routine whose
  frames were saved, or at the address found in the stack, leaving the stack pointer at the next
  index.
\<close>

datatype target = Routine kcont | At_ret_from_fork nat | At_cpu_idle

definition switch_target :: "kstate \<Rightarrow> target option" where
  "switch_target s =
     (case kernel_esp (task_of s (cur s)) of
        Frames k \<Rightarrow> Some (Routine k)
      | Esp a \<Rightarrow>
          (let i = unat (a - task_addr (syms s) (cur s)) div 4;
               eip = stack (tasks s (cur s)) (i + 1)
           in if eip = ret_from_fork_at (syms s) then Some (At_ret_from_fork (i + 2))
              else if eip = cpu_idle_at (syms s) then Some At_cpu_idle
              else None))"

definition sched_next_rr :: "kcont \<Rightarrow> kstate \<Rightarrow> kstate option" where
  "sched_next_rr k s =
     do { e \<leftarrow> list_empty (Some Readyqueue) (lists s);
          (t, s) \<leftarrow> (if e then do { t \<leftarrow> idle_task s; Some (t, s) }
                    else do { nx \<leftarrow> list_first (Some Readyqueue) (lists s);
                              h \<leftarrow> list_del nx (lists s);
                              t \<leftarrow> list_head_to_task_struct nx;
                              Some (t, s\<lparr>lists := h\<rparr>) });
          let s = set_state t ST_RUN s;
          let s = s\<lparr>remaining_ticks := get_quantum t s\<rparr>;
          s \<leftarrow> update_stats system_ticks_update (cur s) s;
          s \<leftarrow> update_stats ready_ticks_update (cur s) s;
          Some (task_switch k t s) }"

definition needs_sched_rr :: "kstate \<Rightarrow> (int \<times> kstate) option" where
  "needs_sched_rr s =
     do { b \<leftarrow> (if remaining_ticks s \<le> 0
               then do { e \<leftarrow> list_empty (Some Readyqueue) (lists s); Some (\<not> e) }
               else Some False);
          if b then Some (1, s)
          else if remaining_ticks s = 0
          then Some (0, s\<lparr>remaining_ticks := get_quantum (cur s) s\<rparr>)
          else Some (0, s) }"

definition update_sched_data_rr :: "kstate \<Rightarrow> (unit outcome \<times> kstate) option" where
  "update_sched_data_rr s =
     do { r \<leftarrow> c_int (remaining_ticks s - 1);
          (n, s) \<leftarrow> needs_sched_rr (s\<lparr>remaining_ticks := r\<rparr>);
          if n \<noteq> 0 then
            do { s \<leftarrow> update_process_state_rr (cur s) (Some Readyqueue) s;
                 s \<leftarrow> sched_next_rr In_clock s;
                 Some (Switched, s) }
          else Some (Return (), s) }"

end
