(* ===== verification/SysBasic.thy ===== *)
theory SysBasic
  imports UserMem ScreenIO Sched
begin

text \<open>
  The system calls of \<open>sys.c\<close> that neither create processes nor block: the entry and exit
  accounting, the descriptor checks, \<open>write\<close> with the console driver of \<open>devices.c\<close>,
  \<open>getpid\<close>, \<open>gettime\<close>, \<open>get_stats\<close>, and \<open>sbrk\<close>.
  A system call returns the value left in EAX and the state.
\<close>

section \<open>Accounting at the kernel boundary\<close>

definition switch_user_to_system :: "kstate \<Rightarrow> kstate option" where
  "switch_user_to_system s = update_stats user_ticks_update (cur s) s"

definition switch_system_to_user :: "kstate \<Rightarrow> kstate option" where
  "switch_system_to_user s = update_stats system_ticks_update (cur s) s"

lemma switch_eqs:
  "switch_user_to_system s = Some (charge user_ticks_update (cur s) s)"
  "switch_system_to_user s = Some (charge system_ticks_update (cur s) s)"
  by (simp_all add: switch_user_to_system_def switch_system_to_user_def)

section \<open>Descriptors\<close>

definition LECTURA :: int where "LECTURA = 0"
definition ESCRIPTURA :: int where "ESCRIPTURA = 1"
definition BUFFER_SIZE :: nat where "BUFFER_SIZE = 256"

lemma sys_values [simp, const_simps]: "LECTURA = 0" "ESCRIPTURA = 1" "BUFFER_SIZE = 256"
  by (simp_all add: LECTURA_def ESCRIPTURA_def BUFFER_SIZE_def)

definition check_fd_write :: "int \<Rightarrow> int \<Rightarrow> int" where
  "check_fd_write fd permissions =
     (if fd \<noteq> 1 then - EBADF else if permissions \<noteq> ESCRIPTURA then - EACCES else 0)"

definition check_fd_read :: "int \<Rightarrow> int \<Rightarrow> int" where
  "check_fd_read fd permissions =
     (if fd \<noteq> 0 then - EBADF else if permissions \<noteq> LECTURA then - EACCES else 0)"

section \<open>Calls without arguments\<close>

definition sys_ni_syscall :: "kstate \<Rightarrow> int \<times> kstate" where
  "sys_ni_syscall s = (- ENOSYS, s)"

definition sys_getpid :: "kstate \<Rightarrow> int \<times> kstate" where
  "sys_getpid s = (PID (task_of s (cur s)), s)"

definition sys_gettime :: "kstate \<Rightarrow> int \<times> kstate" where
  "sys_gettime s = (zeos_ticks s, s)"

definition ret_from_fork :: int where
  "ret_from_fork = 0"

section \<open>Writing\<close>

definition sys_write_console :: "Byte list \<Rightarrow> int \<Rightarrow> kstate \<Rightarrow> (int \<times> kstate) option" where
  "sys_write_console buf sz s =
     (if sz \<le> int (length buf) then Some (sz, fold printc (take (nat sz) buf) s) else None)"

text \<open>
  The loop of \<open>sys_write\<close>, and the last chunk. \<open>array\<close> is the automatic array of
  \<open>BUFFER_SIZE\<close> bytes; its initial contents are never printed.
\<close>

definition write_chunk :: "DWord \<Rightarrow> int \<Rightarrow> Byte list \<Rightarrow> kstate \<Rightarrow>
    (int \<times> Byte list \<times> kstate) option" where
  "write_chunk buf sz array s =
     do { (_, array) \<leftarrow> read_user buf sz array s;
          (ret, s) \<leftarrow> sys_write_console array sz s;
          Some (ret, array, s) }"

function write_loop :: "DWord \<Rightarrow> int \<Rightarrow> int \<Rightarrow> Byte list \<Rightarrow> kstate \<Rightarrow>
    (int \<times> int \<times> Byte list \<times> kstate) option" where
  "write_loop buf sz ret array s =
     (if int BUFFER_SIZE < sz \<and> ret \<noteq> 0
      then do { (ret, array, s) \<leftarrow> write_chunk buf (int BUFFER_SIZE) array s;
                write_loop buf (sz - int BUFFER_SIZE) ret array s }
      else Some (sz, ret, array, s))"
  by pat_completeness auto
termination
  by (relation "measure (\<lambda>(buf, sz, ret, array, s). nat sz)") auto

declare write_loop.simps [simp del]

definition sys_write :: "int \<Rightarrow> DWord \<Rightarrow> int \<Rightarrow> kstate \<Rightarrow> (int \<times> kstate) option" where
  "sys_write fd buf sz s =
     (let ret = check_fd_write fd ESCRIPTURA
      in if ret < 0 then Some (ret, s)
         else if buf = 0 then Some (- EFAULT, s)
         else if sz < 0 then Some (- EINVAL, s)
         else if access_ok VERIFY_READ buf (to_u32 sz) = 0 then Some (- EFAULT, s)
         else do { (sz, ret, array, s) \<leftarrow> write_loop buf sz ret (replicate BUFFER_SIZE 0) s;
                   (ret, array, s) \<leftarrow> write_chunk buf sz array s;
                   Some (ret, s) })"

lemma write_errors:
  "fd \<noteq> 1 \<Longrightarrow> sys_write fd buf sz s = Some (- 9, s)"
  "sys_write 1 0 sz s = Some (- 14, s)"
  "buf \<noteq> 0 \<Longrightarrow> sz < 0 \<Longrightarrow> sys_write 1 buf sz s = Some (- 22, s)"
  "buf \<noteq> 0 \<Longrightarrow> 0 \<le> sz \<Longrightarrow> access_ok VERIFY_READ buf (to_u32 sz) = 0 \<Longrightarrow>
    sys_write 1 buf sz s = Some (- 14, s)"
  by (simp_all add: sys_write_def check_fd_write_def)

text \<open>The descriptor check leaves 0 in \<open>ret\<close>, so the loop is never entered.\<close>

lemma write_loop_skipped: "write_loop buf sz 0 array s = Some (sz, 0, array, s)"
  by (simp add: write_loop.simps)

lemma sys_write_eq:
  assumes "buf \<noteq> 0" and "0 \<le> sz" and "access_ok VERIFY_READ buf (to_u32 sz) \<noteq> 0"
  shows "sys_write 1 buf sz s =
    do { (ret, array, s) \<leftarrow> write_chunk buf sz (replicate 256 0) s; Some (ret, s) }"
  using assms by (simp add: sys_write_def check_fd_write_def write_loop_skipped)

lemma write_fits:
  assumes "on_screen s" and "user_mapped s buf n" and "n \<le> 256"
    and "buf \<noteq> 0" and "access_ok VERIFY_READ buf (of_nat n) \<noteq> 0"
  shows "\<exists>s'. sys_write 1 buf (int n) s = Some (int n, s') \<and>
    port_e9 s' = port_e9 s @ user_bytes s buf n \<and> on_screen s' \<and> screen_frame s s'"
proof -
  obtain bs where bs: "read_user buf (int n) (replicate 256 0) s = Some (0, bs)"
    "take n bs = user_bytes s buf n" "length bs = 256"
    using read_user_spec [OF assms(2), of "replicate 256 0"] assms(3) by auto
  have "to_u32 (int n) = of_nat n" by (simp add: to_u32_def)
  then have "sys_write 1 buf (int n) s = Some (int n, fold printc (user_bytes s buf n) s)"
    using assms(3-5) bs
    by (subst sys_write_eq) (auto simp: write_chunk_def sys_write_console_def)
  then show ?thesis using prints_spec [OF assms(1)] by blast
qed

text \<open>A longer write runs past the end of the 256-byte array: in C anything may happen then.\<close>

lemma write_overruns:
  assumes "256 < sz" and "buf \<noteq> 0" and "access_ok VERIFY_READ buf (to_u32 sz) \<noteq> 0"
  shows "sys_write 1 buf sz s = None"
  using assms read_user_overrun [of "replicate 256 0" sz buf s]
  by (subst sys_write_eq) (auto simp: write_chunk_def)

section \<open>Statistics\<close>

definition word_bytes :: "DWord \<Rightarrow> Byte list" where
  "word_bytes w = map (\<lambda>k. ucast (drop_bit (8 * k) w)) [0..<4]"

text \<open>The bytes of a \<open>struct stats\<close>: seven little-endian words, in the order of \<open>stats.h\<close>.\<close>

definition stats_bytes :: "stats \<Rightarrow> Byte list" where
  "stats_bytes st = concat (map word_bytes
     [user_ticks st, system_ticks st, blocked_ticks st, ready_ticks st, elapsed_total_ticks st,
      total_trans st, stat_remaining_ticks st])"

lemma length_stats_bytes [simp]: "length (stats_bytes st) = 28"
  by (simp add: stats_bytes_def word_bytes_def)

definition sys_get_stats :: "int \<Rightarrow> DWord \<Rightarrow> kstate \<Rightarrow> (int \<times> kstate) option" where
  "sys_get_stats pid st s =
     (if PID (task_of s (cur s)) = pid
      then do { (_, s) \<leftarrow> write_user (stats_bytes (task_stats (task_of s (cur s)))) st 28 s;
                Some (0, s) }
      else case find (\<lambda>i. PID (task_of s i) = pid) [0..<NR_TASKS] of
             Some i \<Rightarrow> do { (_, s) \<leftarrow> write_user (stats_bytes (task_stats (task_of s i))) st 28 s;
                          Some (0, s) }
           | None \<Rightarrow> Some (-1, s))"

lemma get_stats_unknown:
  assumes "cur s < 10" and "\<And>i. i < 10 \<Longrightarrow> PID (task_of s i) \<noteq> pid"
  shows "sys_get_stats pid st s = Some (-1, s)"
proof -
  have "find (\<lambda>i. PID (task_of s i) = pid) [0..<10] = None"
    using assms(2) unfolding find_None_iff set_upt by fastforce
  with assms show ?thesis unfolding sys_get_stats_def sched_values by simp
qed

lemma find_unique:
  assumes "i < n" and "P i" and "\<And>j. j < n \<Longrightarrow> P j \<Longrightarrow> j = i"
  shows "find P [0..<n] = Some i"
proof (cases "find P [0..<n]")
  case None
  with assms(1,2) show ?thesis by (auto simp: find_None_iff)
next
  case (Some j)
  then have "j < n" "P j" by (auto simp: find_Some_iff)
  with assms(3) Some show ?thesis by blast
qed

lemma get_stats_found:
  assumes "i < 10" and "PID (task_of s i) = pid"
    and "\<And>j. j < 10 \<Longrightarrow> PID (task_of s j) = pid \<Longrightarrow> j = i" and "cur s < 10"
    and "user_region s st 28"
  shows "\<exists>s'. sys_get_stats pid st s = Some (0, s') \<and>
    user_bytes s' st 28 = stats_bytes (task_stats (task_of s i)) \<and> (\<exists>r. s' = s\<lparr>ram := r\<rparr>)"
proof -
  obtain s' where s': "write_user (stats_bytes (task_stats (task_of s i))) st 28 s = Some (0, s')"
    "user_bytes s' st 28 = stats_bytes (task_stats (task_of s i))" "\<exists>r. s' = s\<lparr>ram := r\<rparr>"
    using write_user_spec [OF assms(5), of "stats_bytes (task_stats (task_of s i))"] by auto
  have "sys_get_stats pid st s =
    do { (_, s) \<leftarrow> write_user (stats_bytes (task_stats (task_of s i))) st 28 s; Some (0, s) }"
  proof (cases "PID (task_of s (cur s)) = pid")
    case True
    with assms(3,4) have "cur s = i" by blast
    with True show ?thesis by (simp add: sys_get_stats_def)
  next
    case False
    have "find (\<lambda>i. PID (task_of s i) = pid) [0..<10] = Some i"
      by (rule find_unique) (use assms(1-3) in blast)+
    with False show ?thesis unfolding sys_get_stats_def sched_values by simp
  qed
  with s' show ?thesis by auto
qed

end
