(* ===== verification/SysSbrk.thy ===== *)
theory SysSbrk
  imports SysBasic
begin

text \<open>
  The heap: \<open>sys_sbrk\<close>. A request that needs pages takes the frames first, then looks for free
  entries in the page table of the process, then maps them; the break moves in any case.
  The arrays that the code sizes with the number of pages live on the kernel stack, which shares its
  4096 bytes with the \<open>task_struct\<close>: a request they do not fit in is undefined.
\<close>

section \<open>The call\<close>

text \<open>
  The words of the task union that \<open>new_frames\<close> can take: not the 18 of the \<open>task_struct\<close>, not the 17 of
  the saved user context and the return address to the entry point, and not the frames of \<open>sys_sbrk\<close>
  and of what it calls, for which 64 words are kept. Of the second array, \<open>new_log_pages\<close>, there is
  only need when all frames were found; as at most 384 ever are available, both fit then. Whether a
  request a few pages below or above the limit fits depends on the compiler.
\<close>

definition FREE_STACK :: nat where "FREE_STACK = KERNEL_STACK_SIZE - (18 + 17 + 64)"

lemma FREE_STACK_value [simp]: "FREE_STACK = 925"
  by (simp add: FREE_STACK_def)

text \<open>\<open>PH_PAGE\<close> on an int: the shift is arithmetic.\<close>

definition PH_PAGE_int :: "int \<Rightarrow> int" where "PH_PAGE_int x = drop_bit 12 x"

function free_pages_from :: "nat \<Rightarrow> nat \<Rightarrow> (nat \<Rightarrow> page_table_entry) \<Rightarrow> nat list" where
  "free_pages_from i missing row =
     (if i < TOTAL_PAGES \<and> missing \<noteq> 0
      then if row i = 0 then i # free_pages_from (i + 1) (missing - 1) row
           else free_pages_from (i + 1) missing row
      else [])"
  by pat_completeness auto
termination
  by (relation "measure (\<lambda>(i, missing, row). TOTAL_PAGES - i)") auto

declare free_pages_from.simps [simp del]

fun map_pages :: "DWord \<Rightarrow> (nat \<times> int) list \<Rightarrow> kstate \<Rightarrow> kstate option" where
  "map_pages PT [] s = Some s"
| "map_pages PT ((p, f) # pfs) s =
     do { s \<leftarrow> set_ss_pag PT (of_nat p) (to_u32 f) s; map_pages PT pfs s }"

definition set_break :: "DWord \<Rightarrow> kstate \<Rightarrow> kstate" where
  "set_break pb s = upd_task (cur s) (\<lambda>x. x\<lparr>program_break := pb\<rparr>) s"

definition sys_sbrk :: "int \<Rightarrow> kstate \<Rightarrow> (DWord \<times> kstate) option" where
  "sys_sbrk increment s =
     (let current_pb = program_break (task_of s (cur s))
      in if increment = 0 then Some (current_pb, s)
         else let future_pb = current_pb + to_u32 increment;
                  current_page_number = PH_PAGE_int (to_s32 (current_pb - 1));
                  future_page_number = PH_PAGE_int (to_s32 future_pb);
                  pages_needed = future_page_number - current_page_number
              in if 0 < pages_needed
                 then if int FREE_STACK < pages_needed then None
                 else case alloc_frames (nat pages_needed) (phys_mem s) of
                     (None, pm) \<Rightarrow> Some (to_u32 (- ENOMEM), s\<lparr>phys_mem := pm\<rparr>)
                   | (Some new_frames, pm) \<Rightarrow>
                       do { let s = s\<lparr>phys_mem := pm\<rparr>;
                            current_pt \<leftarrow> get_PT (cur s) s;
                            r \<leftarrow> pt_row (syms s) current_pt;
                            let new_log_pages = free_pages_from (PAG_LOG_INIT_DATA + NUM_PAG_DATA)
                                                  (nat pages_needed) (pagusr_table s r);
                            if length new_log_pages \<noteq> nat pages_needed
                            then Some (to_u32 (- EAGAIN), s)
                            else do { s \<leftarrow> map_pages current_pt (zip new_log_pages new_frames) s;
                                      Some (current_pb, set_break future_pb s) } }
                 else Some (current_pb, set_break future_pb s))"

section \<open>Searching and mapping pages\<close>

lemma free_pages_from_eq:
  "free_pages_from i k row = take k (filter (\<lambda>p. row p = 0) [i..<1024])"
proof (induction i k row rule: free_pages_from.induct)
  case (1 i k row)
  show ?case
  proof (cases "i < 1024 \<and> k \<noteq> 0")
    case True
    then obtain j where "k = Suc j" by (cases k) auto
    with True 1 show ?thesis
      by (subst free_pages_from.simps) (auto simp: upt_conv_Cons)
  next
    case False
    then show ?thesis by (subst free_pages_from.simps) auto
  qed
qed

text \<open>When the free entries are those from \<open>k\<close> on, the search finds the pages after \<open>k\<close> in order.\<close>

lemma free_pages_contiguous:
  assumes "284 \<le> k" and "\<And>p. 284 \<le> p \<Longrightarrow> p < k \<Longrightarrow> row p \<noteq> 0"
    and "\<And>p. k \<le> p \<Longrightarrow> p < 1024 \<Longrightarrow> row p = 0" and "k + n \<le> 1024"
  shows "free_pages_from 284 n row = [k..<k + n]"
proof -
  have "[284..<1024] = [284..<k] @ [k..<k + n] @ [k + n..<1024]"
    using assms(1,4) upt_add_eq_append [of 284 k "1024 - k"] upt_add_eq_append [of k "k + n" "1024 - (k + n)"]
    by simp
  moreover have "filter (\<lambda>p. row p = 0) [284..<k] = []"
    using assms(2) by (auto simp: filter_empty_conv)
  moreover have "filter (\<lambda>p. row p = 0) [k..<k + n] = [k..<k + n]"
    using assms(3,4) by (auto simp: filter_id_conv)
  ultimately show ?thesis by (simp add: free_pages_from_eq)
qed

lemma map_pages_spec:
  assumes "pt_row (syms s) PT = Some r" and "\<And>p. p \<in> set ps \<Longrightarrow> p < 1024"
    and "length ps = length fs" and "distinct ps"
  shows "\<exists>t. map_pages PT (zip ps fs) s = Some (s\<lparr>pagusr_table := t\<rparr>) \<and>
    (\<forall>q p. t q p = (if q = r \<and> p \<in> set ps
        then set_ss_pag_entry (to_u32 (the (map_of (zip ps fs) p))) else pagusr_table s q p))"
  using assms(3,1,2,4)
proof (induction ps fs arbitrary: s rule: list_induct2)
  case Nil
  then show ?case by (intro exI [of _ "pagusr_table s"]) simp
next
  case (Cons p ps f fs)
  let ?s = "upd_pte r p (set_ss_pag_entry (to_u32 f)) s"
  have "unat (of_nat p :: DWord) = p" using Cons.prems(2) [of p] by simp
  then have step: "set_ss_pag PT (of_nat p) (to_u32 f) s = Some ?s"
    using Cons.prems by (simp add: set_ss_pag_def)
  obtain t where t: "map_pages PT (zip ps fs) ?s = Some (?s\<lparr>pagusr_table := t\<rparr>)"
    "\<forall>q k. t q k = (if q = r \<and> k \<in> set ps
        then set_ss_pag_entry (to_u32 (the (map_of (zip ps fs) k))) else pagusr_table ?s q k)"
    using Cons.IH [of ?s] Cons.prems by auto
  have "?s\<lparr>pagusr_table := t\<rparr> = s\<lparr>pagusr_table := t\<rparr>" by (simp add: upd_pte_def)
  with t(1) step have "map_pages PT (zip (p # ps) (f # fs)) s = Some (s\<lparr>pagusr_table := t\<rparr>)"
    by simp
  moreover have "t q k = (if q = r \<and> k \<in> set (p # ps)
      then set_ss_pag_entry (to_u32 (the (map_of (zip (p # ps) (f # fs)) k)))
      else pagusr_table s q k)" for q k
    using t(2) Cons.prems(3) by auto
  ultimately show ?case by blast
qed

lemma frame_bits_inj:
  assumes "take_bit 20 (of_nat m :: DWord) = take_bit 20 (of_nat n)" and "m < 1024" and "n < 1024"
  shows "m = n"
proof -
  have "unat (take_bit 20 (of_nat j :: DWord)) = j" if "j < 1024" for j
    using that by (simp add: unsigned_take_bit_eq take_bit_nat_eq_self)
  with assms show ?thesis by metis
qed

section \<open>What a growing heap gets\<close>

text \<open>
  \<open>heap_to s r k\<close>: in page table \<open>r\<close> the heap pages from 284 up to \<open>k\<close> are mapped and the
  rest is free; the break lies in them or right behind.
\<close>

definition heap_to :: "kstate \<Rightarrow> nat \<Rightarrow> nat \<Rightarrow> bool" where
  "heap_to s r k \<longleftrightarrow> 284 \<le> k \<and> k \<le> 1024 \<and>
     (\<forall>p. 284 \<le> p \<longrightarrow> p < k \<longrightarrow> get_present (pagusr_table s r p) = 1) \<and>
     (\<forall>p. k \<le> p \<longrightarrow> p < 1024 \<longrightarrow> pagusr_table s r p = 0) \<and>
     0 < unat (program_break (task_of s (cur s))) \<and>
     (unat (program_break (task_of s (cur s))) - 1) div 4096 < k"

lemma PH_PAGE_int_to_s32:
  "unat w < 2147483648 \<Longrightarrow> PH_PAGE_int (to_s32 w) = int (unat w div 4096)"
  by (simp add: PH_PAGE_int_def to_s32_small drop_bit_eq_div zdiv_int)

lemma unat_pred: "0 < unat (w :: DWord) \<Longrightarrow> unat (w - 1) = unat w - 1"
  by (metis Suc_pred' unat_minus_one unat_0 less_irrefl diff_Suc_1)

lemma sbrk_grows:
  assumes pg: "paging_ok s" "space s (cur s) r" and top: "heap_to s r k"
    and pb: "unat (program_break (task_of s (cur s))) = pb"
    and inc: "0 < inc" "int pb + inc < 4194304"
    and n: "n = (pb + nat inc) div 4096 - (pb - 1) div 4096" "0 < n" "k + n \<le> 1024"
    and mem: "n \<le> card (avail (phys_mem s))"
  shows "\<exists>s'. sys_sbrk inc s = Some (of_nat pb, s') \<and> heap_to s' r (k + n) \<and>
    program_break (task_of s' (cur s')) = of_nat (pb + nat inc) \<and>
    (\<forall>p. k \<le> p \<longrightarrow> p < k + n \<longrightarrow> (\<exists>f \<in> avail (phys_mem s).
        pagusr_table s' r p = set_ss_pag_entry (of_nat f) \<and> phys_mem s' f = 1)) \<and>
    inj_on (\<lambda>p. get_pbase_addr (pagusr_table s' r p)) {k..<k + n} \<and>
    (\<forall>q p. q = r \<and> k \<le> p \<and> p < k + n \<or> pagusr_table s' q p = pagusr_table s q p)"
proof -
  let ?b = "program_break (task_of s (cur s))"
  have r: "r < 10" using pg(2) by (simp add: space_def)
  have pos: "0 < pb" and low: "pb < 4194304" using top pb inc by (auto simp: heap_to_def)
  have fut: "unat (?b + to_u32 inc) = pb + nat inc"
    using unat_add_u32 [of ?b "to_u32 inc"] unat_to_u32 [of inc] pb inc by simp
  have new: "?b + to_u32 inc = of_nat (pb + nat inc)" using fut [symmetric] by (simp only: of_nat_unat ucast_id)
  have old: "?b = of_nat pb" using pb [symmetric] by (simp only: of_nat_unat ucast_id)
  have cur_page: "PH_PAGE_int (to_s32 (?b - 1)) = int ((pb - 1) div 4096)"
    using PH_PAGE_int_to_s32 [of "?b - 1"] unat_pred [of ?b] pos low pb by simp
  have fut_page: "PH_PAGE_int (to_s32 (?b + to_u32 inc)) = int ((pb + nat inc) div 4096)"
    using PH_PAGE_int_to_s32 [of "?b + to_u32 inc"] fut inc by simp
  have needed: "PH_PAGE_int (to_s32 (?b + to_u32 inc)) - PH_PAGE_int (to_s32 (?b - 1)) = int n"
    using n(1,2) unfolding cur_page fut_page by linarith
  from alloc_frames_succeeds [OF mem] obtain gs where gs:
    "alloc_frames n (phys_mem s)
      = (Some (map int gs), \<lambda>f. if f \<in> set gs then USED_FRAME else phys_mem s f)"
    "length gs = n" "distinct gs" "set gs \<subseteq> avail (phys_mem s)" by blast
  define s1 where "s1 = s\<lparr>phys_mem := \<lambda>f. if f \<in> set gs then USED_FRAME else phys_mem s f\<rparr>"
  have s1: "syms s1 = syms s" "pagusr_table s1 = pagusr_table s" "cur s1 = cur s"
    "task_of s1 = task_of s" "phys_mem s1 f = (if f \<in> set gs then 1 else phys_mem s f)" for f
    by (simp_all add: s1_def fun_eq_iff task_of_def)
  have "paging_ok s1" "space s1 (cur s1) r"
    using pg by (simp_all add: s1_def paging_ok_def space_def task_of_def)
  then have pt: "get_PT (cur s) s1 = Some (pt_addr (syms s) r)"
    using get_PT_space [of s1 "cur s1" r] by (simp add: s1)
  have row: "pt_row (syms s) (pt_addr (syms s) r) = Some r" using r by simp
  have pages: "free_pages_from 284 n (pagusr_table s r) = [k..<k + n]"
    using top n(3) by (intro free_pages_contiguous) (auto simp: heap_to_def dest: entry_present_nonzero)
  obtain t where t: "map_pages (pt_addr (syms s) r) (zip [k..<k + n] (map int gs)) s1
      = Some (s1\<lparr>pagusr_table := t\<rparr>)"
    "\<And>q p. t q p = (if q = r \<and> p \<in> set [k..<k + n]
      then set_ss_pag_entry (to_u32 (the (map_of (zip [k..<k + n] (map int gs)) p)))
      else pagusr_table s q p)"
    using map_pages_spec [of s1 "pt_addr (syms s) r" r "[k..<k + n]" "map int gs"] row gs(2) n(3)
    by (auto simp: s1)
  have entry: "t r (k + j) = set_ss_pag_entry (of_nat (gs ! j))" if "j < n" for j
  proof -
    have "map_of (zip [k..<k + n] (map int gs)) ([k..<k + n] ! j) = Some (map int gs ! j)"
      using that gs(2) by (intro map_of_zip_nth) auto
    with that gs(2) show ?thesis by (simp add: t(2) to_u32_def)
  qed
  define s' where "s' = set_break (?b + to_u32 inc) (s1\<lparr>pagusr_table := t\<rparr>)"
  have "n \<le> 740" using top n(3) by (simp add: heap_to_def)
  then have run: "sys_sbrk inc s = Some (of_nat pb, s')"
    using inc(1) n(2,3) gs(1) pt row pages t(1)
    unfolding sys_sbrk_def needed Let_def
    by (simp add: s1_def [symmetric] s1 s'_def old [symmetric])
  have s': "pagusr_table s' = t" "phys_mem s' = phys_mem s1" "cur s' = cur s"
    "program_break (task_of s' (cur s')) = of_nat (pb + nat inc)"
    by (simp_all add: s'_def set_break_def s1 new)
  have new_page: "\<exists>f \<in> avail (phys_mem s). t r p = set_ss_pag_entry (of_nat f) \<and> phys_mem s1 f = 1"
    if "k \<le> p" "p < k + n" for p
  proof -
    obtain j where j: "p = k + j" "j < n" using \<open>k \<le> p\<close> \<open>p < k + n\<close> by (metis le_Suc_ex nat_add_left_cancel_less)
    then have "gs ! j \<in> set gs" using gs(2) by simp
    with j entry [OF j(2)] gs(4) show ?thesis by (auto simp: s1)
  qed
  have inj: "inj_on (\<lambda>p. get_pbase_addr (t r p)) {k..<k + n}"
  proof (rule inj_onI)
    fix p q assume pq: "p \<in> {k..<k + n}" "q \<in> {k..<k + n}"
      "get_pbase_addr (t r p) = get_pbase_addr (t r q)"
    obtain i j where ij: "p = k + i" "i < n" "q = k + j" "j < n"
      using pq(1,2) by (metis atLeastLessThan_iff le_Suc_ex nat_add_left_cancel_less)
    have b: "gs ! i < 1024" "gs ! j < 1024"
      using gs(2,4) ij avail_less by (meson nth_mem subset_iff)+
    have "take_bit 20 (of_nat (gs ! i) :: DWord) = take_bit 20 (of_nat (gs ! j))"
      using pq(3) ij entry by simp
    then have "gs ! i = gs ! j" using b by (rule frame_bits_inj)
    then show "p = q" using gs(2,3) ij by (simp add: nth_eq_iff_index_eq)
  qed
  have "(pb + nat inc - 1) div 4096 \<le> (pb + nat inc) div 4096" by (intro div_le_mono) simp
  moreover have "(pb - 1) div 4096 < k" using top pb unfolding heap_to_def by blast
  ultimately have "(pb + nat inc - 1) div 4096 < k + n" using n(1,2) by linarith
  moreover have "get_present (t r p) = 1" if "284 \<le> p" "p < k + n" for p
  proof (cases "p < k")
    case True
    with that top show ?thesis by (simp add: t(2) heap_to_def)
  next
    case False
    with that new_page [of p] show ?thesis by auto
  qed
  moreover have "t r p = 0" if "k + n \<le> p" "p < 1024" for p
    using that top by (simp add: t(2) heap_to_def)
  moreover have "unat (program_break (task_of s' (cur s'))) = pb + nat inc"
    unfolding s'(4) using inc by (intro unat_of_nat_u32) linarith
  ultimately have top': "heap_to s' r (k + n)"
    using top n(3) inc pos unfolding heap_to_def s'(1) by simp
  have rest: "q = r \<and> k \<le> p \<and> p < k + n \<or> t q p = pagusr_table s q p" for q p
    by (auto simp: t(2))
  show ?thesis
    by (intro exI [of _ s'] conjI allI run top' s'(4))
      (unfold s'(1,2), rule impI, rule impI, erule (1) new_page, rule inj, rule rest)
qed

section \<open>The other branches\<close>

lemma sbrk_zero: "sys_sbrk 0 s = Some (program_break (task_of s (cur s)), s)"
  by (simp add: sys_sbrk_def)

lemma sbrk_no_memory:
  assumes "inc \<noteq> 0" and "card (avail (phys_mem s)) < nat n" and "256 \<notin> avail (phys_mem s)"
    and "n = PH_PAGE_int (to_s32 (program_break (task_of s (cur s)) + to_u32 inc))
      - PH_PAGE_int (to_s32 (program_break (task_of s (cur s)) - 1))" and "n \<le> int FREE_STACK"
  shows "sys_sbrk inc s = Some (to_u32 (-12), s)"
proof -
  have "0 < n" using assms(2) by linarith
  with assms(1,5) alloc_frames_fails [OF assms(2,3)] show ?thesis
    unfolding sys_sbrk_def Let_def assms(4) [symmetric] by simp
qed

end
