(* ===== verification/SchedProps.thy ===== *)
theory SchedProps
  imports Sched
begin

text \<open>
  What the scheduler does to the queues, the states and the processor. \<open>sched_frame\<close> collects
  what none of its operations touches; \<open>sched_ok\<close> is the invariant: the queues are well formed
  and disjoint, the running task is in none of them and is marked as running, the tasks of the
  blocking queues are marked as blocked, and the idle task waits in the ready queue only.
\<close>

section \<open>What the scheduler leaves alone\<close>

definition sched_frame :: "kstate \<Rightarrow> kstate \<Rightarrow> bool" where
  "sched_frame s s' \<longleftrightarrow>
     syms s' = syms s \<and> idle_task s' = idle_task s \<and> nextPid s' = nextPid s \<and>
     semaphores s' = semaphores s \<and> cb s' = cb s \<and> phys_mem s' = phys_mem s \<and>
     dir_pages s' = dir_pages s \<and> pagusr_table s' = pagusr_table s \<and>
     dir_references s' = dir_references s \<and> ram s' = ram s \<and> zeos_ticks s' = zeos_ticks s \<and>
     tsc s' = tsc s \<and> scr_x s' = scr_x s \<and> scr_y s' = scr_y s \<and> video s' = video s \<and>
     port_e9 s' = port_e9 s \<and>
     (\<forall>t. PID (task_of s' t) = PID (task_of s t) \<and>
          dir_pages_baseAddr (task_of s' t) = dir_pages_baseAddr (task_of s t) \<and>
          quantum (task_of s' t) = quantum (task_of s t) \<and>
          kb_data (task_of s' t) = kb_data (task_of s t) \<and>
          program_break (task_of s' t) = program_break (task_of s t) \<and>
          stack (tasks s' t) = stack (tasks s t))"

lemma sched_frame_refl [simp, intro]: "sched_frame s s"
  by (simp add: sched_frame_def)

lemma sched_frame_trans: "sched_frame s s1 \<Longrightarrow> sched_frame s1 s2 \<Longrightarrow> sched_frame s s2"
  by (simp add: sched_frame_def)

lemma sched_frame_lists [simp, intro]: "sched_frame s (s\<lparr>lists := h\<rparr>)"
  by (simp add: sched_frame_def task_of_def)

lemma sched_frame_charge [simp, intro]: "sched_frame s (charge u t s)"
  by (simp add: sched_frame_def)

lemma sched_frame_state [simp, intro]: "sched_frame s (set_state t st s)"
  by (simp add: sched_frame_def)

lemma sched_frame_switch [simp, intro]: "sched_frame s (inner_task_switch k t s)"
  by (simp add: sched_frame_def inner_task_switch_def Let_def upd_task_def task_of_def)

lemma sched_frame_remaining [simp, intro]: "sched_frame s (s\<lparr>remaining_ticks := r\<rparr>)"
  by (simp add: sched_frame_def task_of_def)

lemma task_of_upd_fields [simp]:
  "task_of (s\<lparr>lists := h\<rparr>) t = task_of s t" "task_of (s\<lparr>remaining_ticks := r\<rparr>) t = task_of s t"
  "task_of (s\<lparr>cur := c\<rparr>) t = task_of s t" "task_of (s\<lparr>cr3 := a\<rparr>) t = task_of s t"
  "task_of (s\<lparr>tss_esp0 := a\<rparr>) t = task_of s t" "task_of (s\<lparr>semaphores := f\<rparr>) t = task_of s t"
  "task_of (s\<lparr>cb := b\<rparr>) t = task_of s t" "task_of (s\<lparr>phys_mem := p\<rparr>) t = task_of s t"
  "task_of (s\<lparr>nextPid := n\<rparr>) t = task_of s t" "task_of (s\<lparr>zeos_ticks := z\<rparr>) t = task_of s t"
  "task_of (s\<lparr>ram := m\<rparr>) t = task_of s t" "task_of (s\<lparr>dir_references := d\<rparr>) t = task_of s t"
  "task_of (s\<lparr>tsc_pos := i\<rparr>) t = task_of s t" "task_of (s\<lparr>pagusr_table := pt\<rparr>) t = task_of s t"
  "task_of (s\<lparr>idle_task := it\<rparr>) t = task_of s t" "task_of (s\<lparr>task1_task := it\<rparr>) t = task_of s t"
  "task_of (s\<lparr>dir_pages := dp\<rparr>) t = task_of s t"
  by (simp_all add: task_of_def)

lemma switch_fields [simp]:
  "lists (inner_task_switch k t s) = lists s" "cur (inner_task_switch k t s) = t"
  "remaining_ticks (inner_task_switch k t s) = remaining_ticks s"
  "tss_esp0 (inner_task_switch k t s) = KERNEL_ESP (syms s) t"
  "state (task_of (inner_task_switch k t s) r) = state (task_of s r)"
  "task_stats (task_of (inner_task_switch k t s) r) = task_stats (task_of s r)"
  "kernel_esp (task_of (inner_task_switch k t s) r) =
    (if r = cur s then Frames k else kernel_esp (task_of s r))"
  by (simp_all add: inner_task_switch_def Let_def upd_task_def task_of_def)

section \<open>The invariant\<close>

definition sched_ok :: "kstate \<Rightarrow> queue_map \<Rightarrow> bool" where
  "sched_ok s qs \<longleftrightarrow> queues (lists s) qs \<and>
     {Freequeue, Readyqueue, Keyboardqueue} \<subseteq> dom qs \<and>
     cur s < NR_TASKS \<and> queued qs \<subseteq> {..<NR_TASKS} \<and>
     cur s \<notin> queued qs \<and> state (task_of s (cur s)) = ST_RUN \<and>
     (\<forall>q xs t. qs q = Some xs \<longrightarrow> t \<in> set xs \<longrightarrow> q \<noteq> Readyqueue \<longrightarrow> q \<noteq> Freequeue \<longrightarrow>
        state (task_of s t) = ST_BLOCKED) \<and>
     (\<exists>i < NR_TASKS. idle_task s = Some i \<and>
        (\<forall>q xs. qs q = Some xs \<longrightarrow> i \<in> set xs \<longrightarrow> q = Readyqueue))"

lemma sched_okD:
  assumes "sched_ok s qs"
  shows "queues (lists s) qs" "\<exists>xs. qs Readyqueue = Some xs" "\<exists>xs. qs Freequeue = Some xs"
    "\<exists>xs. qs Keyboardqueue = Some xs" "cur s < 10" "queued qs \<subseteq> {..<10}" "cur s \<notin> queued qs"
    "state (task_of s (cur s)) = ST_RUN"
  using assms by (auto simp: sched_ok_def)

lemma sched_ok_blocked:
  "sched_ok s qs \<Longrightarrow> qs q = Some xs \<Longrightarrow> t \<in> set xs \<Longrightarrow> q \<noteq> Readyqueue \<Longrightarrow> q \<noteq> Freequeue \<Longrightarrow>
    state (task_of s t) = ST_BLOCKED"
  unfolding sched_ok_def by blast

lemma queued_member: "qs q = Some xs \<Longrightarrow> t \<in> set xs \<Longrightarrow> t \<in> queued qs"
  by (auto simp: queued_def ran_def)

section \<open>Changing the state of a process\<close>

text \<open>A running task goes to the back of a queue; it is in no queue before.\<close>

lemma update_process_running:
  assumes "queues (lists s) qs" and "qs d = Some xs" and "t \<notin> queued qs"
    and "state (task_of s t) = ST_RUN"
  shows "\<exists>s'. update_process_state_rr t (Some d) s = Some s' \<and>
    queues (lists s') (qs(d \<mapsto> xs @ [t])) \<and> sched_frame s s' \<and>
    cur s' = cur s \<and> remaining_ticks s' = remaining_ticks s \<and> cr3 s' = cr3 s \<and>
    tss_esp0 s' = tss_esp0 s \<and>
    state (task_of s' t) = (if d = Readyqueue then ST_READY else ST_BLOCKED) \<and>
    (\<forall>r. kernel_esp (task_of s' r) = kernel_esp (task_of s r)) \<and>
    (\<forall>r. r \<noteq> t \<longrightarrow> task_of s' r = task_of s r)"
proof -
  obtain h' where h': "list_add_tail (Some (TaskNode t)) (Some d) (lists s) = Some h'"
    "queues h' (qs(d \<mapsto> xs @ [t]))"
    by (rule queues_push [OF assms(1-3)])
  have fr: "sched_frame s (set_state t st (charge u t (s\<lparr>lists := h'\<rparr>)))"
    "sched_frame s (set_state t st (s\<lparr>lists := h'\<rparr>))" for st u
    by (simp_all add: sched_frame_def)
  show ?thesis
    using h' assms(4) fr
    by (cases "d = Readyqueue") (auto simp: update_process_state_rr_def)
qed

text \<open>A task that waits in a queue is taken out of it, wherever it is, and goes to the back of another.\<close>

lemma update_process_waiting:
  assumes "queues (lists s) qs" and "qs q = Some (xs @ t # ys)" and "qs d = Some zs" and "d \<noteq> q"
    and "state (task_of s t) \<noteq> ST_RUN"
  shows "\<exists>s'. update_process_state_rr t (Some d) s = Some s' \<and>
    queues (lists s') (qs(q \<mapsto> xs @ ys, d \<mapsto> zs @ [t])) \<and> sched_frame s s' \<and>
    cur s' = cur s \<and> remaining_ticks s' = remaining_ticks s \<and> cr3 s' = cr3 s \<and>
    tss_esp0 s' = tss_esp0 s \<and>
    state (task_of s' t) = (if d = Readyqueue then ST_READY else ST_BLOCKED) \<and>
    (\<forall>r. kernel_esp (task_of s' r) = kernel_esp (task_of s r)) \<and>
    (\<forall>r. r \<noteq> t \<longrightarrow> task_of s' r = task_of s r)"
proof -
  obtain h1 where h1: "list_del (Some (TaskNode t)) (lists s) = Some h1"
    "queues h1 (qs(q \<mapsto> xs @ ys))" "t \<notin> queued (qs(q \<mapsto> xs @ ys))"
    by (rule queues_remove [OF assms(1,2)])
  obtain h' where h': "list_add_tail (Some (TaskNode t)) (Some d) h1 = Some h'"
    "queues h' (qs(q \<mapsto> xs @ ys, d \<mapsto> zs @ [t]))"
    by (rule queues_push [OF h1(2) _ h1(3), of d zs]) (use assms(3,4) in simp)
  have fr: "sched_frame s (set_state t st (charge u t (s\<lparr>lists := h'\<rparr>)))"
    "sched_frame s (set_state t st (s\<lparr>lists := h'\<rparr>))" for st u
    by (simp_all add: sched_frame_def)
  show ?thesis
    using h1(1) h' assms(5) fr
    by (cases "d = Readyqueue") (auto simp: update_process_state_rr_def)
qed

text \<open>A task that is marked as not running but is linked nowhere cannot be moved.\<close>

lemma update_process_unlinked:
  "state (task_of s t) \<noteq> ST_RUN \<Longrightarrow> lnext (lists s (TaskNode t)) = None \<Longrightarrow>
    update_process_state_rr t d s = None"
  by (simp add: update_process_state_rr_def list_del_unlinked)

section \<open>Choosing the next process\<close>

definition next_of :: "kstate \<Rightarrow> queue_map \<Rightarrow> nat" where
  "next_of s qs = (case qs Readyqueue of Some (t # ts) \<Rightarrow> t | _ \<Rightarrow> the (idle_task s))"

definition after_next :: "queue_map \<Rightarrow> queue_map" where
  "after_next qs = (case qs Readyqueue of Some ts \<Rightarrow> qs(Readyqueue \<mapsto> tl ts) | None \<Rightarrow> qs)"

lemma sched_next_rr_spec:
  assumes "queues (lists s) qs" and "qs Readyqueue = Some ts" and "idle_task s = Some i"
  shows "\<exists>s'. sched_next_rr k s = Some s' \<and> queues (lists s') (after_next qs) \<and>
    sched_frame s s' \<and> cur s' = next_of s qs \<and>
    state (task_of s' (cur s')) = ST_RUN \<and>
    (\<forall>r. r \<noteq> next_of s qs \<longrightarrow> state (task_of s' r) = state (task_of s r)) \<and>
    remaining_ticks s' = get_quantum (next_of s qs) s \<and>
    tss_esp0 s' = KERNEL_ESP (syms s) (next_of s qs) \<and>
    (\<forall>r. kernel_esp (task_of s' r) = (if r = cur s then Frames k else kernel_esp (task_of s r)))"
proof -
  define t where "t = next_of s qs"
  obtain h where sel: "queues h (after_next qs)"
    "(do { e \<leftarrow> list_empty (Some Readyqueue) (lists s);
          (t, s) \<leftarrow> (if e then do { t \<leftarrow> idle_task s; Some (t, s) }
                    else do { nx \<leftarrow> list_first (Some Readyqueue) (lists s);
                              h \<leftarrow> list_del nx (lists s);
                              t \<leftarrow> list_head_to_task_struct nx;
                              Some (t, s\<lparr>lists := h\<rparr>) });
          Some (t, s) }) = Some (t, s\<lparr>lists := h\<rparr>)"
  proof (cases ts)
    case Nil
    then have "after_next qs = qs" using assms(2) by (auto simp: after_next_def)
    with Nil show ?thesis
      using that [of "lists s"] assms queues_empty [OF assms(1,2)]
      by (simp add: t_def next_of_def)
  next
    case (Cons u us)
    with queues_remove [OF assms(1), of Readyqueue "[]" u us] assms(2) obtain h where
      "list_del (Some (TaskNode u)) (lists s) = Some h" "queues h (qs(Readyqueue \<mapsto> us))"
      by auto
    with Cons show ?thesis
      using that [of h] assms queues_empty [OF assms(1,2)] queues_first [OF assms(1), of Readyqueue u us]
      by (simp add: t_def next_of_def after_next_def)
  qed
  define s1 where "s1 = set_state t ST_RUN (s\<lparr>lists := h\<rparr>)"
  define s2 where "s2 = s1\<lparr>remaining_ticks := get_quantum t s1\<rparr>"
  define s3 where "s3 = charge ready_ticks_update (cur s) (charge system_ticks_update (cur s) s2)"
  have run: "sched_next_rr k s = Some (inner_task_switch k t s3)"
    using sel(2)
    by (auto simp: sched_next_rr_def s3_def s2_def s1_def task_switch_def Let_def
        split: if_splits bind_splits)
  have fr: "sched_frame s (inner_task_switch k t s3)"
    by (rule sched_frame_trans [OF _ sched_frame_switch])
      (simp add: sched_frame_def s3_def s2_def s1_def)
  show ?thesis
    using run fr sel(1)
    by (auto simp: s3_def s2_def s1_def t_def [symmetric] get_quantum_def)
qed

section \<open>Giving up the processor\<close>

lemma sched_ok_idle:
  assumes "sched_ok s qs"
  obtains i where "idle_task s = Some i" "i < 10"
    "\<And>q xs. qs q = Some xs \<Longrightarrow> i \<in> set xs \<Longrightarrow> q = Readyqueue"
  using assms unfolding sched_ok_def by auto

lemma after_next_other [simp]: "q \<noteq> Readyqueue \<Longrightarrow> after_next qs q = qs q"
  by (simp add: after_next_def split: option.splits)

lemma after_next_ready: "qs Readyqueue = Some ts \<Longrightarrow> after_next qs Readyqueue = Some (tl ts)"
  by (simp add: after_next_def)

lemma in_set_tlD: "x \<in> set (tl xs) \<Longrightarrow> x \<in> set xs"
  by (cases xs) auto

lemma after_next_cases:
  "after_next qs q = Some xs \<Longrightarrow> \<exists>ys. qs q = Some ys \<and> set xs \<subseteq> set ys"
  by (cases "q = Readyqueue")
    (auto simp: after_next_def split: option.splits if_splits dest: in_set_tlD)

lemma queued_after_next: "queued (after_next qs) \<subseteq> queued qs"
  by (auto simp: queued_def ran_def dest!: after_next_cases)

text \<open>The task that is chosen was ready, or is the idle task; it is queued no more.\<close>

lemma next_of_not_queued:
  assumes "queues h qs" and "qs Readyqueue = Some ts" and "idle_task s = Some i"
    and idle: "\<And>q xs. qs q = Some xs \<Longrightarrow> i \<in> set xs \<Longrightarrow> q = Readyqueue"
  shows "next_of s qs \<notin> queued (after_next qs)"
proof
  assume "next_of s qs \<in> queued (after_next qs)"
  then obtain q xs where q: "after_next qs q = Some xs" "next_of s qs \<in> set xs"
    by (auto simp: queued_def ran_def)
  then obtain ys where ys: "qs q = Some ys" "set xs \<subseteq> set ys" using after_next_cases by blast
  show False
  proof (cases ts)
    case Nil
    with q(2) assms(2,3) have "i \<in> set xs" by (simp add: next_of_def)
    with ys idle have "q = Readyqueue" by blast
    with Nil q(1) assms(2) \<open>i \<in> set xs\<close> show False by (auto simp: after_next_ready)
  next
    case (Cons t us)
    with q ys assms queues_disjoint [OF assms(1) ys(1) assms(2), of t] have "q = Readyqueue"
      by (auto simp: next_of_def)
    with q Cons assms queues_distinct [OF assms(1,2)] show False
      by (auto simp: next_of_def after_next_ready)
  qed
qed

lemma next_of_bound:
  assumes "queued qs \<subseteq> {..<10}" and "idle_task s = Some i" and "i < 10"
  shows "next_of s qs < 10"
  using assms queued_member [of qs Readyqueue]
  by (fastforce simp: next_of_def split: option.splits list.splits)

text \<open>What the state must satisfy when the scheduler is entered, and what holds afterwards.\<close>

definition waiting_ok :: "kstate \<Rightarrow> queue_map \<Rightarrow> bool" where
  "waiting_ok s qs \<longleftrightarrow> queues (lists s) qs \<and>
     {Freequeue, Readyqueue, Keyboardqueue} \<subseteq> dom qs \<and> queued qs \<subseteq> {..<NR_TASKS} \<and>
     (\<forall>q xs t. qs q = Some xs \<longrightarrow> t \<in> set xs \<longrightarrow> q \<noteq> Readyqueue \<longrightarrow> q \<noteq> Freequeue \<longrightarrow>
        state (task_of s t) = ST_BLOCKED) \<and>
     (\<exists>i < NR_TASKS. idle_task s = Some i \<and>
        (\<forall>q xs. qs q = Some xs \<longrightarrow> i \<in> set xs \<longrightarrow> q = Readyqueue))"

lemma reschedule:
  assumes ok: "waiting_ok s qs"
  shows "\<exists>s'. sched_next_rr k s = Some s' \<and> sched_ok s' (after_next qs) \<and> sched_frame s s' \<and>
    cur s' = next_of s qs \<and> remaining_ticks s' = get_quantum (cur s') s \<and>
    tss_esp0 s' = KERNEL_ESP (syms s) (cur s') \<and>
    (\<forall>r. kernel_esp (task_of s' r) = (if r = cur s then Frames k else kernel_esp (task_of s r)))"
proof -
  have q: "queues (lists s) qs" and dom: "{Freequeue, Readyqueue, Keyboardqueue} \<subseteq> dom qs"
    and sub: "queued qs \<subseteq> {..<10}" using ok by (simp_all add: waiting_ok_def)
  have blocked: "state (task_of s t) = ST_BLOCKED"
    if "qs q = Some xs" "t \<in> set xs" "q \<noteq> Readyqueue" "q \<noteq> Freequeue" for q xs t
    using ok that unfolding waiting_ok_def by blast
  obtain i where idle: "idle_task s = Some i" "i < 10"
    "\<And>q xs. qs q = Some xs \<Longrightarrow> i \<in> set xs \<Longrightarrow> q = Readyqueue"
    using ok unfolding waiting_ok_def by auto
  obtain ts where ts: "qs Readyqueue = Some ts" using dom by auto
  obtain s' where s': "sched_next_rr k s = Some s'" "queues (lists s') (after_next qs)"
    "sched_frame s s'" "cur s' = next_of s qs" "state (task_of s' (cur s')) = ST_RUN"
    "\<And>r. r \<noteq> next_of s qs \<Longrightarrow> state (task_of s' r) = state (task_of s r)"
    "remaining_ticks s' = get_quantum (next_of s qs) s"
    "tss_esp0 s' = KERNEL_ESP (syms s) (next_of s qs)"
    "\<And>r. kernel_esp (task_of s' r) = (if r = cur s then Frames k else kernel_esp (task_of s r))"
    using sched_next_rr_spec [OF q ts idle(1), of k] by blast
  have nq: "next_of s qs \<notin> queued (after_next qs)"
    by (rule next_of_not_queued [OF q ts idle(1,3)])
  have still: "state (task_of s' t) = ST_BLOCKED"
    if t: "after_next qs q = Some ys" "t \<in> set ys" "q \<noteq> Readyqueue" "q \<noteq> Freequeue" for q ys t
  proof -
    have "t \<noteq> next_of s qs" using nq t(1,2) queued_member by metis
    then show ?thesis using s'(6) [of t] blocked [of q ys t] t by simp
  qed
  have "sched_ok s' (after_next qs)"
    unfolding sched_ok_def
  proof (intro conjI)
    show "{Freequeue, Readyqueue, Keyboardqueue} \<subseteq> dom (after_next qs)"
      using dom ts after_next_ready [of qs ts] by auto
    show "cur s' < NR_TASKS" using next_of_bound [OF sub idle(1,2)] s'(4) by simp
    show "queued (after_next qs) \<subseteq> {..<NR_TASKS}"
      using sub queued_after_next by fastforce
    show "\<exists>i<NR_TASKS. idle_task s' = Some i \<and>
      (\<forall>q xs. after_next qs q = Some xs \<longrightarrow> i \<in> set xs \<longrightarrow> q = Readyqueue)"
      using idle s'(3) after_next_cases [of qs] by (fastforce simp: sched_frame_def)
  qed (use s' nq still in auto)
  with s' show ?thesis by auto
qed

text \<open>
  The pattern of every blocking or preempted routine: \<open>update_process_state_rr(current(), d);
  sched_next_rr()\<close>.
\<close>

definition yield_to :: "lnode \<Rightarrow> kcont \<Rightarrow> kstate \<Rightarrow> kstate option" where
  "yield_to d k s =
     do { s \<leftarrow> update_process_state_rr (cur s) (Some d) s; sched_next_rr k s }"

lemma yield_to_spec:
  assumes ok: "sched_ok s qs" and d: "qs d = Some xs" "d \<noteq> Freequeue"
    and busy: "d \<noteq> Readyqueue \<Longrightarrow> idle_task s \<noteq> Some (cur s)"
  defines "qs1 \<equiv> qs(d \<mapsto> xs @ [cur s])"
  shows "\<exists>s'. yield_to d k s = Some s' \<and> sched_ok s' (after_next qs1) \<and> sched_frame s s' \<and>
    cur s' = next_of s qs1 \<and> remaining_ticks s' = get_quantum (cur s') s \<and>
    tss_esp0 s' = KERNEL_ESP (syms s) (cur s') \<and>
    (\<forall>r. kernel_esp (task_of s' r) = (if r = cur s then Frames k else kernel_esp (task_of s r)))"
proof -
  note okD = sched_okD [OF ok]
  obtain i where i: "idle_task s = Some i" "i < 10"
    "\<And>q xs. qs q = Some xs \<Longrightarrow> i \<in> set xs \<Longrightarrow> q = Readyqueue"
    by (rule sched_ok_idle [OF ok]) (rule that; assumption)
  obtain s1 where s1: "update_process_state_rr (cur s) (Some d) s = Some s1"
    "queues (lists s1) qs1" "sched_frame s s1" "cur s1 = cur s"
    "state (task_of s1 (cur s)) = (if d = Readyqueue then ST_READY else ST_BLOCKED)"
    "\<And>r. kernel_esp (task_of s1 r) = kernel_esp (task_of s r)"
    "\<And>r. r \<noteq> cur s \<Longrightarrow> task_of s1 r = task_of s r"
    using update_process_running [OF okD(1) d(1) okD(7,8)] unfolding qs1_def by blast
  have idle1: "idle_task s1 = Some i" using s1(3) i(1) by (simp add: sched_frame_def)
  have iq: "q = Readyqueue" if "qs1 q = Some ys" "i \<in> set ys" for q ys
    using that i busy d(1) by (cases "d = Readyqueue") (auto simp: qs1_def split: if_splits)
  have "set xs \<subseteq> queued qs" using queued_member [of qs d xs] d(1) by blast
  then have sub: "queued qs1 \<subseteq> {..<10}"
    using okD(5,6) queued_upd [of qs d "xs @ [cur s]"] by (auto simp: qs1_def)
  have blocked: "state (task_of s1 t) = ST_BLOCKED"
    if t: "qs1 q = Some ys" "t \<in> set ys" "q \<noteq> Readyqueue" "q \<noteq> Freequeue" for q ys t
  proof (cases "t = cur s")
    case True
    with t okD(7) queued_member [of qs q ys] s1(5) show ?thesis
      by (auto simp: qs1_def split: if_splits)
  next
    case False
    with t(1,2) have "\<exists>zs. qs q = Some zs \<and> t \<in> set zs"
      using d(1) by (auto simp: qs1_def split: if_splits)
    with False t(3,4) s1(7) sched_ok_blocked [OF ok] show ?thesis by auto
  qed
  have dom: "{Freequeue, Readyqueue, Keyboardqueue} \<subseteq> dom qs1"
    using okD(2-4) by (auto simp: qs1_def)
  have wait: "waiting_ok s1 qs1"
    unfolding waiting_ok_def sched_values using s1(2) dom sub blocked idle1 i(2) iq by blast
  have next_eq: "next_of s1 qs1 = next_of s qs1" unfolding next_of_def idle1 i(1) ..
  have same: "get_quantum r s1 = get_quantum r s" "syms s1 = syms s" for r
    using s1(3) by (simp_all add: get_quantum_def sched_frame_def)
  obtain s' where s': "sched_next_rr k s1 = Some s'" "sched_ok s' (after_next qs1)"
    "sched_frame s1 s'" "cur s' = next_of s qs1" "remaining_ticks s' = get_quantum (cur s') s"
    "tss_esp0 s' = KERNEL_ESP (syms s) (cur s')"
    "\<And>r. kernel_esp (task_of s' r) = (if r = cur s then Frames k else kernel_esp (task_of s r))"
    using reschedule [OF wait, of k]
    unfolding next_eq same s1(4,6) by blast
  have "yield_to d k s = Some s'" using s1(1) s'(1) by (simp add: yield_to_def)
  with s' sched_frame_trans [OF s1(3) s'(3)] show ?thesis by blast
qed

end
