(* ===== verification/SysProc.thy ===== *)
theory SysProc
  imports SysSbrk SchedProps
begin

text \<open>
  Process creation and termination in \<open>sys.c\<close>: \<open>sys_fork\<close>, \<open>sys_clone\<close> and \<open>sys_exit\<close>.
  A new task is a copy of its creator's task union; its stack is prepared so that the context
  switch enters it at \<open>ret_from_fork\<close>, with the saved user context above. The slots the code
  writes are named by their index in the stack.
\<close>

section \<open>Copying a task union\<close>

text \<open>
  \<open>copy_data(father, child, sizeof(union task_union))\<close>. The list node is a member of the task,
  so its links are copied too.
\<close>

definition copy_task_union :: "nat \<Rightarrow> nat \<Rightarrow> kstate \<Rightarrow> kstate" where
  "copy_task_union f c s =
     s\<lparr>tasks := (tasks s)(c := tasks s f),
       lists := (lists s)(TaskNode c := lists s (TaskNode f))\<rparr>"

text \<open>The stack slots of a new task, below the 16 words that \<open>SAVE_ALL\<close> and the processor push.\<close>

definition SLOT_ebp :: nat where "SLOT_ebp = KERNEL_STACK_SIZE - 19"
definition SLOT_ret :: nat where "SLOT_ret = KERNEL_STACK_SIZE - 18"
definition SLOT_eip :: nat where "SLOT_eip = KERNEL_STACK_SIZE - 5"
definition SLOT_esp :: nat where "SLOT_esp = KERNEL_STACK_SIZE - 2"

lemma slot_values [simp, const_simps]:
  "SLOT_ebp = 1005" "SLOT_ret = 1006" "SLOT_eip = 1019" "SLOT_esp = 1022"
  by (simp_all add: SLOT_ebp_def SLOT_ret_def SLOT_eip_def SLOT_esp_def)

text \<open>The dynamic link that \<open>sys_fork\<close> and \<open>sys_clone\<close> both build.\<close>

definition dynamic_link :: "nat \<Rightarrow> kstate \<Rightarrow> kstate" where
  "dynamic_link c s =
     upd_stack c SLOT_ret (ret_from_fork_at (syms s))
       (upd_stack c SLOT_ebp 0
         (upd_task c (\<lambda>x. x\<lparr>kernel_esp := Esp (stack_addr (syms s) c SLOT_ebp)\<rparr>) s))"

text \<open>\<open>list_del\<close> of the first free task.\<close>

definition take_free :: "kstate \<Rightarrow> (nat \<times> kstate) option" where
  "take_free s =
     do { child_list_head \<leftarrow> list_first (Some Freequeue) (lists s);
          h \<leftarrow> list_del child_list_head (lists s);
          c \<leftarrow> list_head_to_task_struct child_list_head;
          Some (c, s\<lparr>lists := h\<rparr>) }"

text \<open>\<open>init_task_stats\<close>, \<open>list_add_tail(..., &readyqueue)\<close> and \<open>return PID\<close>.\<close>

definition make_ready :: "nat \<Rightarrow> kstate \<Rightarrow> (int \<times> kstate) option" where
  "make_ready c s =
     do { s \<leftarrow> init_task_stats c s;
          h \<leftarrow> list_add_tail (Some (TaskNode c)) (Some Readyqueue) (lists s);
          let s = s\<lparr>lists := h\<rparr>;
          Some (PID (task_of s c), s) }"

section \<open>fork\<close>

text \<open>The loop that shares the kernel and code pages.\<close>

fun share_pages :: "DWord \<Rightarrow> DWord \<Rightarrow> nat list \<Rightarrow> kstate \<Rightarrow> kstate option" where
  "share_pages child_pt father_pt [] s = Some s"
| "share_pages child_pt father_pt (i # is) s =
     do { f \<leftarrow> get_frame father_pt (of_nat i) s;
          s \<leftarrow> set_ss_pag child_pt (of_nat i) f s;
          share_pages child_pt father_pt is s }"

text \<open>
  The first free entry of the father from 284 on. With none, \<open>tmp_logpage\<close> keeps the value
  \<open>(unsigned) -1\<close>, and the test \<open>tmp_logpage < 0\<close> is false for every unsigned value.
\<close>

definition tmp_logpage :: "(nat \<Rightarrow> page_table_entry) \<Rightarrow> DWord" where
  "tmp_logpage father_pt =
     (case find (\<lambda>i. father_pt i = 0) [PAG_LOG_INIT_DATA + NUM_PAG_DATA..<TOTAL_PAGES] of
        Some i \<Rightarrow> of_nat i | None \<Rightarrow> -1)"

text \<open>One turn of the loop that gives the child its data pages.\<close>

definition copy_page :: "nat \<Rightarrow> DWord \<Rightarrow> DWord \<Rightarrow> DWord \<Rightarrow> nat \<Rightarrow> int \<Rightarrow> kstate \<Rightarrow> kstate option" where
  "copy_page father child_pt father_pt tmp i frame s =
     do { s \<leftarrow> set_ss_pag child_pt (of_nat (PAG_LOG_INIT_DATA + i)) (to_u32 frame) s;
          s \<leftarrow> set_ss_pag father_pt tmp (to_u32 frame) s;
          s \<leftarrow> move_user (of_nat ((PAG_LOG_INIT_DATA + i) * PAGE_SIZE)) (tmp * of_nat PAGE_SIZE)
                 (int PAGE_SIZE) s;
          s \<leftarrow> del_ss_pag father_pt tmp s;
          Some (s\<lparr>cr3 := get_DIR father s\<rparr>) }"

fun copy_pages :: "nat \<Rightarrow> DWord \<Rightarrow> DWord \<Rightarrow> DWord \<Rightarrow> nat \<Rightarrow> int list \<Rightarrow> kstate \<Rightarrow> kstate option" where
  "copy_pages father child_pt father_pt tmp i [] s = Some s"
| "copy_pages father child_pt father_pt tmp i (frame # frames) s =
     do { s \<leftarrow> copy_page father child_pt father_pt tmp i frame s;
          copy_pages father child_pt father_pt tmp (Suc i) frames s }"

text \<open>The child's address space: \<open>allocate_DIR\<close>, the shared pages and the copied ones.\<close>

definition fork_space :: "nat \<Rightarrow> nat \<Rightarrow> int list \<Rightarrow> kstate \<Rightarrow> (DWord \<times> DWord \<times> kstate) option" where
  "fork_space f c child_frames s =
     do { (_, s) \<leftarrow> allocate_DIR c s;
          child_pt \<leftarrow> get_PT c s;
          father_pt \<leftarrow> get_PT f s;
          s \<leftarrow> share_pages child_pt father_pt [0..<PAG_LOG_INIT_DATA] s;
          r \<leftarrow> pt_row (syms s) father_pt;
          let tmp = tmp_logpage (pagusr_table s r);
          s \<leftarrow> copy_pages f child_pt father_pt tmp 0 child_frames s;
          Some (father_pt, tmp, s) }"

definition sys_fork :: "kstate \<Rightarrow> (int \<times> kstate) option" where
  "sys_fork s =
     do { e \<leftarrow> list_empty (Some Freequeue) (lists s);
          if e then Some (- ENOMEM, s)
          else case alloc_frames NUM_PAG_DATA (phys_mem s) of
              (None, pm) \<Rightarrow> Some (- ENOMEM, s\<lparr>phys_mem := pm\<rparr>)
            | (Some child_frames, pm) \<Rightarrow>
                do { let s = s\<lparr>phys_mem := pm\<rparr>;
                     (c, s) \<leftarrow> take_free s;
                     let f = cur s;
                     let s = copy_task_union f c s;
                     (father_pt, tmp, s) \<leftarrow> fork_space f c child_frames s;
                     let (pid, s) = getNextPid s;
                     let s = upd_task c (\<lambda>x. x\<lparr>PID := pid\<rparr>) s;
                     s \<leftarrow> del_ss_pag father_pt tmp s;
                     make_ready c (dynamic_link c s) } }"

section \<open>clone\<close>

definition sys_clone :: "DWord \<Rightarrow> DWord \<Rightarrow> kstate \<Rightarrow> (int \<times> kstate) option" where
  "sys_clone function_at stack_at s =
     do { e \<leftarrow> list_empty (Some Freequeue) (lists s);
          if e then Some (- ENOMEM, s)
          else if access_ok VERIFY_WRITE stack_at 4 = 0 \<or> access_ok VERIFY_READ function_at 4 = 0
          then Some (- EFAULT, s)
          else do { (c, s) \<leftarrow> take_free s;
                    let f = cur s;
                    let dirPos = get_DIR_pos (get_DIR f s) s;
                    s \<leftarrow> (if dirPos < NR_TASKS
                         then do { n \<leftarrow> c_int (dir_references s dirPos + 1);
                                   Some (s\<lparr>dir_references := (dir_references s)(dirPos := n)\<rparr>) }
                         else None);
                    let s = copy_task_union f c s;
                    let (pid, s) = getNextPid s;
                    let s = upd_task c (\<lambda>x. x\<lparr>PID := pid\<rparr>) s;
                    let s = dynamic_link c s;
                    let s = upd_stack c SLOT_esp stack_at (upd_stack c SLOT_eip function_at s);
                    make_ready c s } }"

section \<open>exit\<close>

text \<open>
  The test \<open>dir_references == 0\<close> compares the array with a null pointer, which is false.
\<close>

definition sys_exit :: "kstate \<Rightarrow> (unit outcome \<times> kstate) option" where
  "sys_exit s =
     (let t = cur s;
          dirPos = get_DIR_pos (get_DIR t s) s
      in if dirPos < NR_TASKS
         then do { n \<leftarrow> c_int (dir_references s dirPos - 1);
                   let s = s\<lparr>dir_references := (dir_references s)(dirPos := n)\<rparr>;
                   let s = upd_task t (\<lambda>x. x\<lparr>PID := -1\<rparr>) s;
                   h \<leftarrow> list_add_tail (Some (TaskNode t)) (Some Freequeue) (lists s);
                   s \<leftarrow> sched_next_rr In_exit (s\<lparr>lists := h\<rparr>);
                   Some (Switched, s) }
         else None)"

end
