(* ===== verification/ForkSpace.thy ===== *)
theory ForkSpace
  imports SysProc
begin

text \<open>
  The address space that \<open>sys_fork\<close> builds: what the loop over the shared pages and the loop
  over the copied pages leave in the page tables and in memory. The page tables of the father are
  as before; every data page of the child is a new frame with the father's bytes.
\<close>

section \<open>Pages of the current space\<close>

definition frame_of :: "kstate \<Rightarrow> nat \<Rightarrow> nat \<Rightarrow> nat" where
  "frame_of s i p = unat (get_pbase_addr (pagusr_table s i p))"

text \<open>The processor runs in space \<open>i\<close>.\<close>

definition in_space :: "kstate \<Rightarrow> nat \<Rightarrow> bool" where
  "in_space s i \<longleftrightarrow> paging_ok s \<and> i < 10 \<and> cr3 s = dir_addr (syms s) i"

lemma in_space_ram [simp]: "in_space (s\<lparr>ram := m\<rparr>) i = in_space s i"
  by (simp add: in_space_def paging_ok_def)

lemma in_space_table [simp]: "in_space (s\<lparr>pagusr_table := t\<rparr>) i = in_space s i"
  by (simp add: in_space_def paging_ok_def)

lemma in_space_upd_pte [simp]: "in_space (upd_pte r p e s) i = in_space s i"
  by (simp add: upd_pte_def)

lemma translate_page:
  assumes "in_space s i" and "p < 1024" and "k < 4096" and "get_present (pagusr_table s i p) = 1"
  shows "translate (of_nat (p * 4096) + of_nat k) s = Some (frame_of s i p, k)"
proof -
  have va: "unat (of_nat (p * 4096) + of_nat k :: DWord) = p * 4096 + k"
    using assms(2,3) by (subst of_nat_add [symmetric], subst unat_of_nat_u32) auto
  have "(p * 4096 + k) div 4096 = p" "(p * 4096 + k) mod 4096 = k" using assms(3) by auto
  with assms translate_low [of s i "of_nat (p * 4096) + of_nat k"] va show ?thesis
    by (simp add: in_space_def frame_of_def Let_def del: of_nat_mult)
qed

lemma page_cells:
  assumes "in_space s i" and "p < 1024" and "get_present (pagusr_table s i p) = 1"
  shows "cells s (of_nat (p * 4096)) 4096 = {Some (frame_of s i p, k) | k. k < 4096}"
  using translate_page [OF assms(1,2) _ assms(3)] by (auto simp: cells_def image_iff simp del: of_nat_mult)

lemma page_region:
  assumes "in_space s i" and "p < 1024" and "get_present (pagusr_table s i p) = 1"
    and "256 \<le> frame_of s i p"
  shows "user_region s (of_nat (p * 4096)) 4096"
  using translate_page [OF assms(1,2) _ assms(3)] assms(4)
  unfolding user_region_def inj_on_def by (auto simp del: of_nat_mult)

lemma page_load:
  assumes "in_space s i" and "p < 1024" and "get_present (pagusr_table s i p) = 1"
    and "256 \<le> frame_of s i p" and "k < 4096"
  shows "load_at (of_nat (p * 4096)) s k = Some (ram s (frame_of s i p) k)"
  using translate_page [OF assms(1,2,5,3)] assms(4)
  by (simp add: load_at_def load_byte_def del: of_nat_mult)

text \<open>Copying one page to another frame.\<close>

lemma move_page:
  assumes sp: "in_space s i"
    and p: "p < 1024" "get_present (pagusr_table s i p) = 1" "256 \<le> frame_of s i p"
    and q: "q < 1024" "get_present (pagusr_table s i q) = 1" "256 \<le> frame_of s i q"
    and ne: "frame_of s i p \<noteq> frame_of s i q"
  shows "\<exists>m. move_user (of_nat (p * 4096)) (of_nat (q * 4096)) 4096 s = Some (s\<lparr>ram := m\<rparr>) \<and>
    (\<forall>f k. m f k = (if f = frame_of s i q \<and> k < 4096 then ram s (frame_of s i p) k else ram s f k))"
proof -
  let ?src = "of_nat (p * 4096) :: DWord" and ?dst = "of_nat (q * 4096) :: DWord"
  have "cells s ?src 4096 \<inter> cells s ?dst 4096 = {}"
    unfolding page_cells [OF sp p(1,2)] page_cells [OF sp q(1,2)] using ne by auto
  from move_user_spec [OF region_mapped [OF page_region [OF sp p]] page_region [OF sp q] this]
  obtain s' m where s': "move_user ?src ?dst (int 4096) s = Some s'" "s' = s\<lparr>ram := m\<rparr>"
    "user_bytes s' ?dst 4096 = user_bytes s ?src 4096"
    "ram_rest (cells s ?dst 4096) s' = ram_rest (cells s ?dst 4096) s" by blast
  have fr: "frame_of s' i r = frame_of s i r" for r by (simp add: s'(2) frame_of_def)
  have q': "q < 1024" "get_present (pagusr_table s' i q) = 1" "256 \<le> frame_of s' i q"
    using q by (simp_all add: fr) (simp add: s'(2))
  have sp': "in_space s' i" using sp by (simp add: s'(2))
  have "m f k = (if f = frame_of s i q \<and> k < 4096 then ram s (frame_of s i p) k else ram s f k)" for f k
  proof (cases "f = frame_of s i q \<and> k < 4096")
    case True
    then have "the (load_at ?dst s' k) = the (load_at ?src s k)"
      using arg_cong [OF s'(3), of "\<lambda>xs. xs ! k"] by (simp add: user_bytes_def del: of_nat_mult)
    with True page_load [OF sp' q'] page_load [OF sp p] fr show ?thesis
      by (simp add: s'(2) del: of_nat_mult)
  next
    case False
    then have "Some (f, k) \<notin> cells s ?dst 4096" unfolding page_cells [OF sp q(1,2)] by auto
    moreover have "(if Some (f, k) \<in> cells s ?dst 4096 then 0 else ram s' f k) =
        (if Some (f, k) \<in> cells s ?dst 4096 then 0 else ram s f k)"
      using arg_cong [OF s'(4), of "\<lambda>x. snd x (f, k)"]
      by (simp only: ram_rest_def snd_conv fst_conv)
    ultimately show ?thesis using False by (simp only: if_False) (auto simp: s'(2))
  qed
  with s'(1,2) show ?thesis by (intro exI [of _ m]) simp
qed

section \<open>The shared pages\<close>

lemma share_pages_spec:
  assumes "pt_row (syms s) cpt = Some j" and "pt_row (syms s) fpt = Some i" and "i \<noteq> j"
    and "\<And>p. p \<in> set ps \<Longrightarrow> p < 1024"
  shows "\<exists>t. share_pages cpt fpt ps s = Some (s\<lparr>pagusr_table := t\<rparr>) \<and>
    (\<forall>q p. t q p = (if q = j \<and> p \<in> set ps
        then set_ss_pag_entry (get_pbase_addr (pagusr_table s i p)) else pagusr_table s q p))"
  using assms
proof (induction ps arbitrary: s)
  case Nil
  then show ?case by (intro exI [of _ "pagusr_table s"]) simp
next
  case (Cons p ps)
  let ?s = "upd_pte j p (set_ss_pag_entry (get_pbase_addr (pagusr_table s i p))) s"
  have "p < 1024" using Cons.prems(4) [of p] by simp
  then have p: "unat (of_nat p :: DWord) = p" "p < 1024" by simp_all
  have "get_frame fpt (of_nat p) s = Some (get_pbase_addr (pagusr_table s i p))"
    "set_ss_pag cpt (of_nat p) (get_pbase_addr (pagusr_table s i p)) s = Some ?s"
    using Cons.prems(1,2) p by (simp_all add: get_frame_def get_entry_def set_ss_pag_def)
  then have step: "share_pages cpt fpt (p # ps) s = share_pages cpt fpt ps ?s" by simp
  obtain t where t: "share_pages cpt fpt ps ?s = Some (?s\<lparr>pagusr_table := t\<rparr>)"
    "\<forall>q k. t q k = (if q = j \<and> k \<in> set ps
        then set_ss_pag_entry (get_pbase_addr (pagusr_table ?s i k)) else pagusr_table ?s q k)"
    using Cons.IH [of ?s] Cons.prems by auto
  have "?s\<lparr>pagusr_table := t\<rparr> = s\<lparr>pagusr_table := t\<rparr>" by (simp add: upd_pte_def)
  then have "share_pages cpt fpt (p # ps) s = Some (s\<lparr>pagusr_table := t\<rparr>)"
    using t(1) step by (simp only:)
  moreover have "t q k = (if q = j \<and> k \<in> set (p # ps)
      then set_ss_pag_entry (get_pbase_addr (pagusr_table s i k)) else pagusr_table s q k)" for q k
    using t(2) Cons.prems(3) by auto
  ultimately show ?case by blast
qed

section \<open>The copied pages\<close>

text \<open>The father's data pages: present, in frames of users that are in use.\<close>

definition data_pages_ok :: "kstate \<Rightarrow> nat \<Rightarrow> bool" where
  "data_pages_ok s i \<longleftrightarrow>
     (\<forall>p. 264 \<le> p \<longrightarrow> p < 284 \<longrightarrow> get_present (pagusr_table s i p) = 1 \<and> 256 \<le> frame_of s i p)"

lemma copy_page_spec:
  assumes sp: "in_space s i" and j: "j < 10" "i \<noteq> j" and n: "n < 20"
    and f: "dir_pages_baseAddr (task_of s f) = dir_addr (syms s) i" and dp: "data_pages_ok s i"
    and k: "284 \<le> k" "k < 1024" "pagusr_table s i k = 0"
    and g: "256 \<le> g" "g < 1024" "frame_of s i (264 + n) \<noteq> g"
  shows "\<exists>t m. copy_page f (pt_addr (syms s) j) (pt_addr (syms s) i) (of_nat k) n (int g) s
      = Some (s\<lparr>pagusr_table := t, ram := m\<rparr>) \<and>
    (\<forall>q p. t q p = (if q = j \<and> p = 264 + n then set_ss_pag_entry (of_nat g) else pagusr_table s q p)) \<and>
    (\<forall>h o'. m h o' = (if h = g \<and> o' < 4096 then ram s (frame_of s i (264 + n)) o' else ram s h o'))"
proof -
  let ?e = "set_ss_pag_entry (of_nat g)"
  let ?s = "upd_pte i k ?e (upd_pte j (264 + n) ?e s)"
  have i: "i < 10" using sp by (simp add: in_space_def)
  have idx: "unat (of_nat (264 + n) :: DWord) = 264 + n" "unat (of_nat k :: DWord) = k"
    using n k(2) by (simp_all del: of_nat_add)
  have steps: "set_ss_pag (pt_addr (syms s) j) (of_nat (264 + n)) (to_u32 (int g)) s
      = Some (upd_pte j (264 + n) ?e s)"
    "set_ss_pag (pt_addr (syms s) i) (of_nat k) (to_u32 (int g)) (upd_pte j (264 + n) ?e s) = Some ?s"
    using i j n k(2) idx by (simp_all add: set_ss_pag_def to_u32_def)
  have fg: "unat (take_bit 20 (of_nat g :: DWord)) = g"
    using g(2) by (simp add: unsigned_take_bit_eq take_bit_nat_eq_self)
  have src: "frame_of ?s i (264 + n) = frame_of s i (264 + n)"
    "get_present (pagusr_table ?s i (264 + n)) = 1" "256 \<le> frame_of s i (264 + n)"
    using dp n k(1) j(2) by (auto simp: frame_of_def data_pages_ok_def)
  have dst: "frame_of ?s i k = g" "get_present (pagusr_table ?s i k) = 1"
    by (simp_all add: frame_of_def fg)
  have "in_space ?s i" using sp by simp
  from move_page [OF this, of "264 + n" k] src dst g n k(2) obtain m where
    m: "move_user (of_nat ((264 + n) * 4096)) (of_nat (k * 4096)) 4096 ?s = Some (?s\<lparr>ram := m\<rparr>)"
    "\<forall>h o'. m h o' = (if h = g \<and> o' < 4096 then ram s (frame_of s i (264 + n)) o' else ram s h o')"
    by auto
  let ?t = "pagusr_table (upd_pte j (264 + n) ?e s)"
  let ?r = "upd_pte i k 0 (?s\<lparr>ram := m\<rparr>)"
  have "pagusr_table ?r = ?t" using k(1,3) j(2) n by (auto simp: fun_eq_iff)
  then have fin: "?r\<lparr>cr3 := dir_addr (syms s) i\<rparr> = s\<lparr>pagusr_table := ?t, ram := m\<rparr>"
    using sp by (simp add: upd_pte_def in_space_def)
  have "del_ss_pag (pt_addr (syms s) i) (of_nat k) (?s\<lparr>ram := m\<rparr>) = Some ?r"
    using i k(2) idx by (simp add: del_ss_pag_def)
  moreover have "get_DIR f ?r = dir_addr (syms s) i" using f by (simp add: get_DIR_def task_of_def)
  moreover have "(of_nat k * of_nat 4096 :: DWord) = of_nat (k * 4096)" by simp
  ultimately have "copy_page f (pt_addr (syms s) j) (pt_addr (syms s) i) (of_nat k) n (int g) s
      = Some (s\<lparr>pagusr_table := ?t, ram := m\<rparr>)"
    using steps m(1) fin unfolding copy_page_def layout_values
    by (simp only: Option.bind.simps of_nat_numeral)
  with m(2) show ?thesis by (intro exI [of _ ?t] exI [of _ m]) (auto simp: fun_eq_iff)
qed

lemma copy_pages_spec:
  assumes "in_space s i" and "j < 10" "i \<noteq> j"
    and "dir_pages_baseAddr (task_of s f) = dir_addr (syms s) i" and "data_pages_ok s i"
    and "284 \<le> k" "k < 1024" "pagusr_table s i k = 0"
    and "n + length gs \<le> 20" and "distinct gs"
    and "\<And>g. g \<in> set gs \<Longrightarrow> 256 \<le> g \<and> g < 1024 \<and>
      (\<forall>p. 264 \<le> p \<longrightarrow> p < 284 \<longrightarrow> frame_of s i p \<noteq> g)"
  shows "\<exists>t m. copy_pages f (pt_addr (syms s) j) (pt_addr (syms s) i) (of_nat k) n (map int gs) s
      = Some (s\<lparr>pagusr_table := t, ram := m\<rparr>) \<and>
    (\<forall>q p. t q p = (if q = j \<and> 264 + n \<le> p \<and> p < 264 + n + length gs
        then set_ss_pag_entry (of_nat (gs ! (p - (264 + n)))) else pagusr_table s q p)) \<and>
    (\<forall>x < length gs. \<forall>o' < 4096. m (gs ! x) o' = ram s (frame_of s i (264 + n + x)) o') \<and>
    (\<forall>h. h \<notin> set gs \<longrightarrow> m h = ram s h)"
  using assms
proof (induction gs arbitrary: n s)
  case Nil
  show ?case by (intro exI [of _ "pagusr_table s"] exI [of _ "ram s"]) auto
next
  case (Cons g gs)
  have n: "n < 20" using Cons.prems(9) by simp
  have g: "256 \<le> g" "g < 1024" "frame_of s i (264 + n) \<noteq> g"
    using Cons.prems(11) [of g] n by auto
  from copy_page_spec [OF Cons.prems(1-3) n Cons.prems(4-8) g] obtain t1 m1 where
    1: "copy_page f (pt_addr (syms s) j) (pt_addr (syms s) i) (of_nat k) n (int g) s
        = Some (s\<lparr>pagusr_table := t1, ram := m1\<rparr>)"
      "\<And>q p. t1 q p =
        (if q = j \<and> p = 264 + n then set_ss_pag_entry (of_nat g) else pagusr_table s q p)"
      "\<And>h o'. m1 h o' = (if h = g \<and> o' < 4096 then ram s (frame_of s i (264 + n)) o' else ram s h o')"
    by blast
  let ?s = "s\<lparr>pagusr_table := t1, ram := m1\<rparr>"
  have row: "t1 i p = pagusr_table s i p" for p using Cons.prems(3) 1(2) by simp
  have fr: "frame_of ?s i p = frame_of s i p" for p by (simp add: frame_of_def row)
  have "\<exists>t m. copy_pages f (pt_addr (syms ?s) j) (pt_addr (syms ?s) i) (of_nat k) (Suc n) (map int gs) ?s
      = Some (?s\<lparr>pagusr_table := t, ram := m\<rparr>) \<and>
    (\<forall>q p. t q p = (if q = j \<and> 264 + Suc n \<le> p \<and> p < 264 + Suc n + length gs
        then set_ss_pag_entry (of_nat (gs ! (p - (264 + Suc n)))) else pagusr_table ?s q p)) \<and>
    (\<forall>x < length gs. \<forall>o' < 4096. m (gs ! x) o' = ram ?s (frame_of ?s i (264 + Suc n + x)) o') \<and>
    (\<forall>h. h \<notin> set gs \<longrightarrow> m h = ram ?s h)"
  proof (rule Cons.IH)
    show "dir_pages_baseAddr (task_of ?s f) = dir_addr (syms ?s) i"
      using Cons.prems(4) by (simp add: task_of_def)
    show "data_pages_ok ?s i"
      using Cons.prems(5) unfolding data_pages_ok_def fr by (simp add: row)
    show "256 \<le> h \<and> h < 1024 \<and> (\<forall>p. 264 \<le> p \<longrightarrow> p < 284 \<longrightarrow> frame_of ?s i p \<noteq> h)"
      if "h \<in> set gs" for h
      using Cons.prems(11) [of h] that unfolding fr by simp
  qed (use Cons.prems row in auto)
  then obtain t m where
    2: "copy_pages f (pt_addr (syms s) j) (pt_addr (syms s) i) (of_nat k) (Suc n) (map int gs) ?s
        = Some (s\<lparr>pagusr_table := t, ram := m\<rparr>)"
      "\<And>q p. t q p = (if q = j \<and> 264 + Suc n \<le> p \<and> p < 264 + Suc n + length gs
          then set_ss_pag_entry (of_nat (gs ! (p - (264 + Suc n)))) else t1 q p)"
      "\<And>x o'. x < length gs \<Longrightarrow> o' < 4096 \<Longrightarrow>
        m (gs ! x) o' = m1 (frame_of s i (264 + Suc n + x)) o'"
      "\<And>h. h \<notin> set gs \<Longrightarrow> m h = m1 h"
    unfolding fr by auto
  have src: "frame_of s i (264 + n + x) \<noteq> g" if "x < length (g # gs)" for x
    using Cons.prems(9) Cons.prems(11) [of g] that by auto
  have "m ((g # gs) ! x) o' = ram s (frame_of s i (264 + n + x)) o'"
    if "x < length (g # gs)" "o' < 4096" for x o'
  proof (cases x)
    case 0
    with 2(4) [of g] Cons.prems(10) 1(3) that show ?thesis by simp
  next
    case (Suc y)
    then have idx: "264 + Suc n + y = 264 + n + x" by simp
    have "m (gs ! y) o' = m1 (frame_of s i (264 + n + x)) o'"
      using 2(3) [of y o'] that Suc unfolding idx by simp
    with src [of x] that show ?thesis unfolding 1(3) by (simp add: Suc)
  qed
  moreover have "t q p = (if q = j \<and> 264 + n \<le> p \<and> p < 264 + n + length (g # gs)
      then set_ss_pag_entry (of_nat ((g # gs) ! (p - (264 + n)))) else pagusr_table s q p)" for q p
  proof (cases "p = 264 + n")
    case False
    then have "264 + n \<le> p \<longleftrightarrow> 264 + Suc n \<le> p" by linarith
    moreover have "(g # gs) ! (p - (264 + n)) = gs ! (p - (264 + Suc n))" if "264 + Suc n \<le> p"
      using that by (simp add: nth_Cons')
    ultimately show ?thesis using False 1(2) 2(2) by simp
  qed (use 1(2) 2(2) in simp)
  moreover have "m h = ram s h" if "h \<notin> set (g # gs)" for h
    using that 2(4) 1(3) by (auto simp: fun_eq_iff)
  moreover have "copy_pages f (pt_addr (syms s) j) (pt_addr (syms s) i) (of_nat k) n
      (map int (g # gs)) s = Some (s\<lparr>pagusr_table := t, ram := m\<rparr>)"
    using 1(1) 2(1) by simp
  ultimately show ?case by (intro exI [of _ t] exI [of _ m] conjI allI impI) (assumption | blast)+
qed

end
