(* ===== verification/Boot.thy ===== *)
theory Boot
  imports SysBasic ForkSpace
begin

text \<open>
  The initialisation of memory and scheduling: \<open>init_mm\<close> and \<open>set_user_pages\<close> of \<open>mm.c\<close>,
  \<open>init_sched\<close>, \<open>init_idle\<close> and \<open>init_task1\<close> of \<open>sched.c\<close>, run by \<open>main\<close> in that order
  on the zeroed state the loader leaves.
\<close>

section \<open>Memory\<close>

definition init_dir_references :: "kstate \<Rightarrow> kstate" where
  "init_dir_references s =
     s\<lparr>dir_references := for_loop 0 NR_TASKS (\<lambda>i r. r(i := 0)) (dir_references s)\<rparr>"

definition dir_entry :: "symbols \<Rightarrow> nat \<Rightarrow> page_table_entry" where
  "dir_entry y i =
     set_present 1 (set_rw 1 (set_user 1 (set_pbase_addr (drop_bit 12 (pt_addr y i)) 0)))"

definition init_dir_pages :: "kstate \<Rightarrow> kstate" where
  "init_dir_pages s =
     s\<lparr>dir_pages := for_loop 0 NR_TASKS
        (\<lambda>i d. d(i := (d i)(ENTRY_DIR_PAGES := dir_entry (syms s) i))) (dir_pages s)\<rparr>"

text \<open>One turn of the outer loop of \<open>init_table_pages\<close>, on row \<open>j\<close>.\<close>

definition init_table_row :: "symbols \<Rightarrow> (nat \<Rightarrow> page_table_entry) \<Rightarrow> nat \<Rightarrow> page_table_entry" where
  "init_table_row y row =
     (let row = for_loop 0 TOTAL_PAGES (\<lambda>i r. r(i := 0)) row;
          row = for_loop 1 NUM_PAG_KERNEL
                  (\<lambda>i r. r(i := set_present 1 (set_rw 1 (set_pbase_addr (of_nat i) (r i))))) row;
          first = unat (PH_PAGE (protected_tasks_at y));
          last = unat (PH_PAGE (protected_tasks_at y + of_nat (11 * 4096)));
          row = row(first := set_present 0 (row first))
      in row(last := set_present 0 (row last)))"

definition init_table_pages :: "kstate \<Rightarrow> kstate" where
  "init_table_pages s =
     s\<lparr>pagusr_table := for_loop 0 NR_TASKS (\<lambda>j t. t(j := init_table_row (syms s) (t j))) (pagusr_table s)\<rparr>"

definition set_cr3 :: "DWord \<Rightarrow> kstate \<Rightarrow> kstate" where
  "set_cr3 dir s = s\<lparr>cr3 := dir\<rparr>"

definition read_cr0 :: "kstate \<Rightarrow> DWord" where
  "read_cr0 s = cr0 s"

definition write_cr0 :: "DWord \<Rightarrow> kstate \<Rightarrow> kstate" where
  "write_cr0 v s = s\<lparr>cr0 := v\<rparr>"

definition set_pe_flag :: "kstate \<Rightarrow> kstate" where
  "set_pe_flag s = write_cr0 (read_cr0 s OR 0x80000000) s"

definition init_mm :: "kstate \<Rightarrow> kstate option" where
  "init_mm s =
     do { let s = init_table_pages s;
          let s = s\<lparr>phys_mem := init_frames (phys_mem s)\<rparr>;
          let s = init_dir_pages s;
          (_, s) \<leftarrow> allocate_DIR 0 s;
          let s = set_cr3 (get_DIR 0 s) s;
          Some (init_dir_references (set_pe_flag s)) }"

text \<open>The two loops of \<open>set_user_pages\<close>; code pages stay read-only.\<close>

definition user_page :: "bool \<Rightarrow> nat \<Rightarrow> nat \<Rightarrow> kstate \<Rightarrow> kstate" where
  "user_page writable r p s =
     (let (new_ph_pag, pm) = alloc_frame (phys_mem s);
          e = set_user 1 (set_pbase_addr (to_u32 new_ph_pag) 0);
          e = set_present 1 (if writable then set_rw 1 e else e)
      in upd_pte r p e (s\<lparr>phys_mem := pm\<rparr>))"

definition set_user_pages :: "nat \<Rightarrow> kstate \<Rightarrow> kstate option" where
  "set_user_pages t s =
     do { process_PT \<leftarrow> get_PT t s;
          r \<leftarrow> pt_row (syms s) process_PT;
          let s = for_loop 0 NUM_PAG_CODE (\<lambda>pag. user_page False r (PAG_LOG_INIT_CODE + pag)) s;
          Some (for_loop 0 NUM_PAG_DATA (\<lambda>pag. user_page True r (PAG_LOG_INIT_DATA + pag)) s) }"

text \<open>\<open>free_user_pages\<close>, which \<open>sys_exit\<close> means to call.\<close>

definition free_user_pages :: "nat \<Rightarrow> kstate \<Rightarrow> kstate option" where
  "free_user_pages t s =
     do { process_PT \<leftarrow> get_PT t s;
          r \<leftarrow> pt_row (syms s) process_PT;
          Some (for_loop 0 NUM_PAG_DATA
            (\<lambda>pag s. upd_pte r (PAG_LOG_INIT_DATA + pag) 0
               (s\<lparr>phys_mem := free_frame (get_pbase_addr (pagusr_table s r (PAG_LOG_INIT_DATA + pag)))
                                (phys_mem s)\<rparr>)) s) }"

text \<open>
  \<open>monoprocess_init_addr_space\<close>, which \<open>main\<close> calls after \<open>init_mm\<close>, is in the library
  \<open>libzeos.a\<close> (its object \<open>zeos_mm.o\<close>): it gives the first task of the array user pages, in the
  directory that \<open>init_mm\<close> gave it, and loads CR3 with that directory. The frames stay in use.
\<close>

definition monoprocess_init_addr_space :: "kstate \<Rightarrow> kstate option" where
  "monoprocess_init_addr_space s =
     do { s \<leftarrow> set_user_pages 0 s;
          Some (set_cr3 (get_DIR 0 s) s) }"

section \<open>Scheduling\<close>

definition init_head :: "lnode \<Rightarrow> kstate \<Rightarrow> kstate option" where
  "init_head q s = do { h \<leftarrow> INIT_LIST_HEAD (Some q) (lists s); Some (s\<lparr>lists := h\<rparr>) }"

fun add_tasks :: "nat list \<Rightarrow> kstate \<Rightarrow> kstate option" where
  "add_tasks [] s = Some s"
| "add_tasks (i # is) s =
     do { h \<leftarrow> list_add (Some (TaskNode i)) (Some Freequeue) (lists s);
          add_tasks is (s\<lparr>lists := h\<rparr>) }"

text \<open>\<open>buff\<close> is the array that \<open>circular_buffer_init\<close> makes the buffer point to.\<close>

definition init_sched :: "Byte list \<Rightarrow> kstate \<Rightarrow> kstate option" where
  "init_sched buff s =
     do { s \<leftarrow> init_head Freequeue s;
          s \<leftarrow> add_tasks [0..<NR_TASKS] s;
          s \<leftarrow> init_head Readyqueue s;
          s \<leftarrow> init_head Blockedqueue s;
          s \<leftarrow> init_head Keyboardqueue s;
          let s = s\<lparr>semaphores := for_loop 0 NR_SEMAPHORES
                     (\<lambda>i f. f(i := (f i)\<lparr>owner := -1\<rparr>)) (semaphores s)\<rparr>;
          b \<leftarrow> circular_buffer_init buff 4096;
          Some (s\<lparr>cb := b\<rparr>) }"

definition init_idle :: "kstate \<Rightarrow> kstate option" where
  "init_idle s =
     do { (t, s) \<leftarrow> take_free s;
          let s = upd_task t (\<lambda>x. x\<lparr>PID := 0\<rparr>) s;
          (_, s) \<leftarrow> allocate_DIR t s;
          let s = upd_stack t (KERNEL_STACK_SIZE - 1) (cpu_idle_at (syms s)) s;
          let s = upd_stack t (KERNEL_STACK_SIZE - 2) 0 s;
          let s = upd_task t (\<lambda>x. x\<lparr>kernel_esp := Esp (stack_addr (syms s) t (KERNEL_STACK_SIZE - 2))\<rparr>) s;
          let s = s\<lparr>idle_task := Some t\<rparr>;
          init_task_stats t s }"

definition init_task1 :: "kstate \<Rightarrow> kstate option" where
  "init_task1 s =
     do { (t, s) \<leftarrow> take_free s;
          let s = upd_task t (\<lambda>x. x\<lparr>PID := 1\<rparr>) s;
          let s = s\<lparr>nextPid := 13\<rparr>;
          let s = upd_task t (\<lambda>x. x\<lparr>quantum := QUANTUM, state := ST_RUN\<rparr>) s;
          (_, s) \<leftarrow> allocate_DIR t s;
          s \<leftarrow> set_user_pages t s;
          let s = s\<lparr>tss_esp0 := KERNEL_ESP (syms s) t\<rparr>;
          let s = set_cr3 (get_DIR t s) s;
          let s = s\<lparr>task1_task := Some t\<rparr>;
          r \<leftarrow> c_int (int (unat (quantum (task_of s t))));
          let s = s\<lparr>remaining_ticks := r\<rparr>;
          s \<leftarrow> init_task_stats t s;
          Some (upd_task t (\<lambda>x. x\<lparr>program_break :=
            of_nat ((PAG_LOG_INIT_DATA + NUM_PAG_DATA) * PAGE_SIZE)\<rparr>) s) }"

text \<open>
  The part of \<open>main\<close> that sets up memory and scheduling, and the return to user mode: from the
  first entry to the kernel on, the stack that \<open>tss.esp0\<close> names is in use, so the current task is
  the one it belongs to.
\<close>

definition init_kernel :: "Byte list \<Rightarrow> kstate \<Rightarrow> kstate option" where
  "init_kernel buff s =
     do { s \<leftarrow> init_mm s;
          s \<leftarrow> monoprocess_init_addr_space s;
          s \<leftarrow> init_sched buff s;
          s \<leftarrow> init_idle s;
          init_task1 s }"

definition enter_user :: "kstate \<Rightarrow> kstate" where
  "enter_user s = s\<lparr>cur := unat (tss_esp0 s - 1 - task_addr (syms s) 0) div 4096\<rparr>"

section \<open>The zeroed state\<close>

definition zero_task :: task_union where
  "zero_task = \<lparr>task = \<lparr>PID = 0, dir_pages_baseAddr = 0, kernel_esp = Esp 0, quantum = 0,
     state = ST_RUN, task_stats = \<lparr>user_ticks = 0, system_ticks = 0, blocked_ticks = 0,
       ready_ticks = 0, elapsed_total_ticks = 0, total_trans = 0, stat_remaining_ticks = 0\<rparr>,
     kb_data = \<lparr>to_read = 0, already_read = 0\<rparr>, program_break = 0\<rparr>, stack = \<lambda>_. 0\<rparr>"

text \<open>
  What the boot loader leaves: zeroed variables, \<open>y=19\<close>. Until the first user process runs the
  stack is that of \<open>set_seg_regs\<close>, just below \<open>protected_tasks[5]\<close>, that is in \<open>task[3]\<close>.
\<close>

definition loaded :: "symbols \<Rightarrow> (nat \<Rightarrow> 64 word) \<Rightarrow> (nat \<Rightarrow> nat \<Rightarrow> Byte) \<Rightarrow> kstate" where
  "loaded y clock m =
     \<lparr>syms = y, lists = \<lambda>_. \<lparr>lnext = None, lprev = None\<rparr>, tasks = \<lambda>_. zero_task, cur = 3,
      idle_task = None, nextPid = 0, remaining_ticks = 0,
      semaphores = \<lambda>_. \<lparr>counter = 0, owner = 0\<rparr>,
      cb = \<lparr>head = 0, tail = 0, cb_size = 0, num_elem = 0, buffer = []\<rparr>,
      phys_mem = \<lambda>_. 0, dir_pages = \<lambda>_ _. 0, pagusr_table = \<lambda>_ _. 0, dir_references = \<lambda>_. 0,
      tss_esp0 = 0, cr3 = 0, ram = m, zeos_ticks = 0, tsc = clock, tsc_pos = 0, scr_x = 0,
      scr_y = 19, video = \<lambda>_. 0, port_e9 = [], cr0 = 0, task1_task = None\<rparr>"

end
