(* ===== verification/ProcProps.thy ===== *)
theory ProcProps
  imports ForkSpace
begin

text \<open>
  What \<open>sys_fork\<close>, \<open>sys_clone\<close> and \<open>sys_exit\<close> do to the queues, the tasks and the
  address spaces.
\<close>

section \<open>A new task\<close>

text \<open>The node of the new task: out of the free queue, overwritten by the copy, into the ready queue.\<close>

lemma recycle_node:
  assumes ok: "queues (lists s) qs" and free: "qs Freequeue = Some (c # fs)"
    and ready: "qs Readyqueue = Some rs"
  obtains h where "take_free s = Some (c, s\<lparr>lists := h\<rparr>)"
    "\<And>x. \<exists>h'. list_add_tail (Some (TaskNode c)) (Some Readyqueue) (h(TaskNode c := x)) = Some h' \<and>
      queues h' (qs(Freequeue \<mapsto> fs, Readyqueue \<mapsto> rs @ [c]))"
proof -
  have "qs Freequeue = Some ([] @ c # fs)" using free by simp
  from queues_remove [OF ok this] obtain h where h: "list_del (Some (TaskNode c)) (lists s) = Some h"
    "queues h (qs(Freequeue \<mapsto> fs))" "c \<notin> queued (qs(Freequeue \<mapsto> fs))" by auto
  have "take_free s = Some (c, s\<lparr>lists := h\<rparr>)"
    using queues_first [OF ok free] h(1) by (simp add: take_free_def)
  moreover have "\<exists>h'. list_add_tail (Some (TaskNode c)) (Some Readyqueue) (h(TaskNode c := x)) = Some h' \<and>
      queues h' (qs(Freequeue \<mapsto> fs, Readyqueue \<mapsto> rs @ [c]))" for x
  proof -
    have "queues (h(TaskNode c := x)) (qs(Freequeue \<mapsto> fs))"
      by (rule queues_frame [OF h(2)]) (use h(3) in auto)
    moreover have "(qs(Freequeue \<mapsto> fs)) Readyqueue = Some rs" using ready by simp
    ultimately show ?thesis by (rule queues_push [OF _ _ h(3)]) blast
  qed
  ultimately show ?thesis by (rule that)
qed

lemma sched_ok_new_task:
  assumes ok: "sched_ok s qs" and free: "qs Freequeue = Some (c # fs)"
    and ready: "qs Readyqueue = Some rs"
    and q: "queues (lists s') (qs(Freequeue \<mapsto> fs, Readyqueue \<mapsto> rs @ [c]))"
    and same: "cur s' = cur s" "idle_task s' = idle_task s"
      "\<And>t. t \<noteq> c \<Longrightarrow> state (task_of s' t) = state (task_of s t)"
  shows "sched_ok s' (qs(Freequeue \<mapsto> fs, Readyqueue \<mapsto> rs @ [c]))"
proof -
  note okD = sched_okD [OF ok]
  obtain i where i: "idle_task s = Some i" "i < 10"
    "\<And>q xs. qs q = Some xs \<Longrightarrow> i \<in> set xs \<Longrightarrow> q = Readyqueue"
    by (rule sched_ok_idle [OF ok]) (rule that; assumption)
  have ic: "i \<noteq> c" using i(3) [OF free] by auto
  have c: "c \<in> queued qs" using queued_member [of qs Freequeue "c # fs" c, OF free] by simp
  have sub: "queued (qs(Freequeue \<mapsto> fs, Readyqueue \<mapsto> rs @ [c])) \<subseteq> queued qs"
  proof
    fix t assume "t \<in> queued (qs(Freequeue \<mapsto> fs, Readyqueue \<mapsto> rs @ [c]))"
    then obtain r ys where "(qs(Freequeue \<mapsto> fs, Readyqueue \<mapsto> rs @ [c])) r = Some ys" "t \<in> set ys"
      by (auto simp: queued_def ran_def)
    then show "t \<in> queued qs"
      using c queued_member [of qs Freequeue "c # fs" t] queued_member [of qs Readyqueue rs t]
        queued_member [of qs r ys t] free ready
      by (auto split: if_splits)
  qed
  have cc: "cur s \<noteq> c" using c okD(7) by blast
  show ?thesis
    unfolding sched_ok_def
  proof (intro conjI allI impI)
    show "queues (lists s') (qs(Freequeue \<mapsto> fs, Readyqueue \<mapsto> rs @ [c]))" by (rule q)
    show "{Freequeue, Readyqueue, Keyboardqueue} \<subseteq> dom (qs(Freequeue \<mapsto> fs, Readyqueue \<mapsto> rs @ [c]))"
      using okD(4) by auto
    show "queued (qs(Freequeue \<mapsto> fs, Readyqueue \<mapsto> rs @ [c])) \<subseteq> {..<NR_TASKS}"
      using sub okD(6) by auto
    show "cur s' \<notin> queued (qs(Freequeue \<mapsto> fs, Readyqueue \<mapsto> rs @ [c]))"
      using sub okD(7) same(1) by auto
    show "state (task_of s' (cur s')) = ST_RUN" using okD(8) cc same by simp
    show "state (task_of s' t) = ST_BLOCKED"
      if "(qs(Freequeue \<mapsto> fs, Readyqueue \<mapsto> rs @ [c])) q = Some xs" "t \<in> set xs"
        "q \<noteq> Readyqueue" "q \<noteq> Freequeue" for q xs t
    proof -
      have "qs q = Some xs" using that by simp
      moreover from this have "t \<noteq> c"
        using queues_disjoint [OF okD(1) _ free, of q xs t] that by auto
      ultimately show ?thesis using sched_ok_blocked [OF ok] that same(3) by auto
    qed
    show "\<exists>i<NR_TASKS. idle_task s' = Some i \<and>
      (\<forall>q xs. (qs(Freequeue \<mapsto> fs, Readyqueue \<mapsto> rs @ [c])) q = Some xs \<longrightarrow> i \<in> set xs \<longrightarrow> q = Readyqueue)"
      using i(1,2) same(2) i(3) i(3) [OF free] by (intro exI [of _ i]) auto
  qed (use okD(5) same(1) in auto)
qed

lemma copy_task_union_frame [simp]:
  "task_of (copy_task_union f c s) t = task_of s (if t = c then f else t)"
  "stack (tasks (copy_task_union f c s) t) = stack (tasks s (if t = c then f else t))"
  "lists (copy_task_union f c s) = (lists s)(TaskNode c := lists s (TaskNode f))"
  "cur (copy_task_union f c s) = cur s" "idle_task (copy_task_union f c s) = idle_task s"
  "syms (copy_task_union f c s) = syms s" "nextPid (copy_task_union f c s) = nextPid s"
  "pagusr_table (copy_task_union f c s) = pagusr_table s" "ram (copy_task_union f c s) = ram s"
  "phys_mem (copy_task_union f c s) = phys_mem s" "cr3 (copy_task_union f c s) = cr3 s"
  "dir_pages (copy_task_union f c s) = dir_pages s"
  "dir_references (copy_task_union f c s) = dir_references s"
  "semaphores (copy_task_union f c s) = semaphores s"
  by (simp_all add: copy_task_union_def task_of_def)

text \<open>The statistics of a new task start from zero.\<close>

lemma init_task_stats_spec:
  "\<exists>n m. init_task_stats c s = Some ((upd_task c (\<lambda>x. x\<lparr>task_stats :=
     \<lparr>user_ticks = 0, system_ticks = 0, blocked_ticks = 0, ready_ticks = 0,
      elapsed_total_ticks = n, total_trans = 0, stat_remaining_ticks = m\<rparr>\<rparr>) s)\<lparr>tsc_pos := tsc_pos s + 2\<rparr>)"
proof -
  let ?n = "now s" and ?m = "now (s\<lparr>tsc_pos := tsc_pos s + 1\<rparr>)"
  have "now (upd_task c f s) = now s" "now (upd_task c f s\<lparr>tsc_pos := k\<rparr>) = now (s\<lparr>tsc_pos := k\<rparr>)" for f s k
    by (simp_all add: now_def upd_task_def)
  moreover have "upd_task c g (upd_task c f s) = upd_task c (\<lambda>x. g (f x)) s"
    "upd_task c g ((upd_task c f s)\<lparr>tsc_pos := k\<rparr>) = (upd_task c (\<lambda>x. g (f x)) s)\<lparr>tsc_pos := k\<rparr>" for f g s k
    by (simp_all add: upd_task_def)
  ultimately have "init_task_stats c s = Some ((upd_task c (\<lambda>x. x\<lparr>task_stats :=
     \<lparr>user_ticks = 0, system_ticks = 0, blocked_ticks = 0, ready_ticks = 0,
      elapsed_total_ticks = ?n, total_trans = 0, stat_remaining_ticks = ?m\<rparr>\<rparr>) s)\<lparr>tsc_pos := tsc_pos s + 2\<rparr>)"
    unfolding init_task_stats_def read_ticks_eq Let_def
    by (cases "task_stats (task (tasks s c))") (simp add: upd_task_def)
  then show ?thesis by blast
qed

lemma make_ready_spec:
  assumes "list_add_tail (Some (TaskNode c)) (Some Readyqueue) (lists s) = Some h"
  shows "\<exists>st. make_ready c s = Some (PID (task_of s c),
      (upd_task c (\<lambda>x. x\<lparr>task_stats := st\<rparr>) s)\<lparr>tsc_pos := tsc_pos s + 2, lists := h\<rparr>) \<and>
    user_ticks st = 0 \<and> system_ticks st = 0 \<and> blocked_ticks st = 0 \<and> ready_ticks st = 0 \<and>
    total_trans st = 0"
  using init_task_stats_spec [of c s] assms
  by (auto simp: make_ready_def task_of_def upd_task_def)

lemma dynamic_link_frame [simp]:
  "lists (dynamic_link c s) = lists s" "cur (dynamic_link c s) = cur s"
  "idle_task (dynamic_link c s) = idle_task s" "pagusr_table (dynamic_link c s) = pagusr_table s"
  "ram (dynamic_link c s) = ram s" "phys_mem (dynamic_link c s) = phys_mem s"
  "syms (dynamic_link c s) = syms s" "dir_references (dynamic_link c s) = dir_references s"
  "dir_pages (dynamic_link c s) = dir_pages s" "semaphores (dynamic_link c s) = semaphores s"
  "nextPid (dynamic_link c s) = nextPid s" "cr3 (dynamic_link c s) = cr3 s" "cb (dynamic_link c s) = cb s"
  "task_of (dynamic_link c s) t = (if t = c then (task_of s c)
     \<lparr>kernel_esp := Esp (stack_addr (syms s) c SLOT_ebp)\<rparr> else task_of s t)"
  "stack (tasks (dynamic_link c s) t) = (if t = c then (stack (tasks s c))
     (1005 := 0, 1006 := ret_from_fork_at (syms s)) else stack (tasks s t))"
  by (simp_all add: dynamic_link_def)

text \<open>
  Switching to a task with a dynamic link enters \<open>ret_from_fork\<close> with the stack pointer at
  slot 1007, where the saved EBX of the system call handler lies.
\<close>

lemma dynamic_link_target:
  assumes "kernel_esp (task_of s c) = Esp (stack_addr (syms s) c SLOT_ebp)"
    and "stack (tasks s c) 1006 = ret_from_fork_at (syms s)" and "cur s = c"
  shows "switch_target s = Some (At_ret_from_fork 1007)"
proof -
  have "(stack_addr (syms s) c 1005 - task_addr (syms s) c) = 4020"
    by (simp add: stack_addr_def)
  then show ?thesis using assms by (simp add: switch_target_def Let_def)
qed

section \<open>clone\<close>

text \<open>What the process-creating calls leave to the caller.\<close>

definition call_frame :: "kstate \<Rightarrow> kstate \<Rightarrow> bool" where
  "call_frame s s' \<longleftrightarrow> syms s' = syms s \<and> cur s' = cur s \<and> idle_task s' = idle_task s \<and>
     remaining_ticks s' = remaining_ticks s \<and> semaphores s' = semaphores s \<and> cb s' = cb s \<and>
     cr3 s' = cr3 s \<and> tss_esp0 s' = tss_esp0 s \<and> dir_pages s' = dir_pages s \<and>
     nextPid s' = nextPid s + 1"

definition clone_ready :: "kstate \<Rightarrow> queue_map \<Rightarrow> nat \<Rightarrow> nat \<Rightarrow> nat list \<Rightarrow> nat list \<Rightarrow> bool" where
  "clone_ready s qs i c fs rs \<longleftrightarrow> sched_ok s qs \<and> space s (cur s) i \<and>
     qs Freequeue = Some (c # fs) \<and> qs Readyqueue = Some rs \<and> int_ok (dir_references s i + 1)"

lemma clone_works:
  assumes ready: "clone_ready s qs i c fs rs"
    and ptrs: "access_ok VERIFY_WRITE st 4 = 1" "access_ok VERIFY_READ fn 4 = 1"
  defines "pid \<equiv> to_s32 (nextPid s + 1)"
  shows "\<exists>s'. sys_clone fn st s = Some (pid, s') \<and>
    sched_ok s' (qs(Freequeue \<mapsto> fs, Readyqueue \<mapsto> rs @ [c])) \<and>
    PID (task_of s' c) = pid \<and> space s' c i \<and> quantum (task_of s' c) = quantum (task_of s (cur s)) \<and>
    dir_references s' = (dir_references s)(i := dir_references s i + 1) \<and>
    kernel_esp (task_of s' c) = Esp (stack_addr (syms s) c SLOT_ebp) \<and>
    stack (tasks s' c) = (stack (tasks s (cur s)))
      (1005 := 0, 1006 := ret_from_fork_at (syms s), 1019 := fn, 1022 := st) \<and>
    (\<forall>t. t \<noteq> c \<longrightarrow> tasks s' t = tasks s t) \<and>
    pagusr_table s' = pagusr_table s \<and> ram s' = ram s \<and> phys_mem s' = phys_mem s \<and> call_frame s s'"
proof -
  note r = ready [unfolded clone_ready_def]
  have ok: "sched_ok s qs" and i: "i < 10" and sp: "get_DIR_pos (get_DIR (cur s) s) s = i"
    and free: "qs Freequeue = Some (c # fs)" and rdy: "qs Readyqueue = Some rs"
    using r get_DIR_pos_space by (auto simp: space_def)
  note okD = sched_okD [OF ok]
  have cc: "cur s \<noteq> c" using okD(7) queued_member [of qs Freequeue "c # fs" c] free by auto
  from recycle_node [OF okD(1) free rdy] obtain h where h: "take_free s = Some (c, s\<lparr>lists := h\<rparr>)"
    "\<And>x. \<exists>h'. list_add_tail (Some (TaskNode c)) (Some Readyqueue) (h(TaskNode c := x)) = Some h' \<and>
      queues h' (qs(Freequeue \<mapsto> fs, Readyqueue \<mapsto> rs @ [c]))" by metis
  obtain h' where h': "list_add_tail (Some (TaskNode c)) (Some Readyqueue)
      (h(TaskNode c := h (TaskNode (cur s)))) = Some h'"
    "queues h' (qs(Freequeue \<mapsto> fs, Readyqueue \<mapsto> rs @ [c]))" using h(2) by blast
  define s1 where "s1 = copy_task_union (cur s) c (s\<lparr>lists := h,
    dir_references := (dir_references s)(i := dir_references s i + 1)\<rparr>)"
  define s2 where "s2 = dynamic_link c (upd_task c (\<lambda>x. x\<lparr>PID := pid\<rparr>) (s1\<lparr>nextPid := nextPid s + 1\<rparr>))"
  define s3 where "s3 = upd_stack c SLOT_esp st (upd_stack c SLOT_eip fn s2)"
  have lists3: "lists s3 = h(TaskNode c := h (TaskNode (cur s)))"
    by (simp add: s3_def s2_def s1_def copy_task_union_def)
  have pid3: "PID (task_of s3 c) = pid" by (simp add: s3_def s2_def)
  obtain stt s' where mk: "make_ready c s3 = Some (pid, s')"
    "s' = (upd_task c (\<lambda>x. x\<lparr>task_stats := stt\<rparr>) s3)\<lparr>tsc_pos := tsc_pos s3 + 2, lists := h'\<rparr>"
    using make_ready_spec [of c s3 h'] h'(1) lists3 pid3 by auto
  have run: "sys_clone fn st s = Some (pid, s')"
    using queues_empty [OF okD(1) free] h(1) ptrs r sp i mk(1)
    by (simp add: sys_clone_def Let_def getNextPid_def pid_def s3_def s2_def s1_def copy_task_union_def
        get_DIR_def task_of_def get_DIR_pos_def del: of_nat_mult)
  have other: "tasks s' t = tasks s t" if "t \<noteq> c" for t
    using that by (simp add: mk(2) s3_def s2_def s1_def dynamic_link_def upd_task_def upd_stack_def
        copy_task_union_def)
  have "sched_ok s' (qs(Freequeue \<mapsto> fs, Readyqueue \<mapsto> rs @ [c]))"
  proof (rule sched_ok_new_task [OF ok free rdy])
    show "cur s' = cur s" "idle_task s' = idle_task s" "queues (lists s') (qs(Freequeue \<mapsto> fs, Readyqueue \<mapsto> rs @ [c]))"
      using h'(2) by (simp_all add: mk(2) s3_def s2_def s1_def copy_task_union_def)
    show "state (task_of s' t) = state (task_of s t)" if "t \<noteq> c" for t
      using other [OF that] by (simp add: task_of_def)
  qed
  moreover have "syms s' = syms s" "PID (task_of s' c) = pid"
    "dir_pages_baseAddr (task_of s' c) = dir_pages_baseAddr (task_of s (cur s))"
    "quantum (task_of s' c) = quantum (task_of s (cur s))"
    "dir_references s' = (dir_references s)(i := dir_references s i + 1)"
    "kernel_esp (task_of s' c) = Esp (stack_addr (syms s) c SLOT_ebp)"
    "stack (tasks s' c) = (stack (tasks s (cur s)))
      (1005 := 0, 1006 := ret_from_fork_at (syms s), 1019 := fn, 1022 := st)"
    "pagusr_table s' = pagusr_table s" "ram s' = ram s" "phys_mem s' = phys_mem s"
    by (simp_all add: mk(2) s3_def s2_def s1_def)
  moreover have "call_frame s s'"
    by (simp add: mk(2) s3_def s2_def s1_def call_frame_def copy_task_union_def dynamic_link_def
        upd_task_def upd_stack_def)
  ultimately show ?thesis using run other r by (auto simp: space_def)
qed

section \<open>exit\<close>

text \<open>
  The task becomes free again at the end of the free queue, without a process number, its address
  space loses a reference, and the next ready task runs. No frame is given back.
\<close>

lemma exit_works:
  assumes ok: "sched_ok s qs" and sp: "space s (cur s) i" and free: "qs Freequeue = Some fs"
    and busy: "idle_task s \<noteq> Some (cur s)" and refs: "int_ok (dir_references s i - 1)"
  shows "\<exists>s'. sys_exit s = Some (Switched, s') \<and>
    sched_ok s' (after_next (qs(Freequeue \<mapsto> fs @ [cur s]))) \<and> cur s' = next_of s qs \<and>
    PID (task_of s' (cur s)) = -1 \<and>
    dir_references s' = (dir_references s)(i := dir_references s i - 1) \<and>
    phys_mem s' = phys_mem s \<and> pagusr_table s' = pagusr_table s \<and>
    (\<forall>t. t \<noteq> cur s \<longrightarrow> PID (task_of s' t) = PID (task_of s t))"
proof -
  note okD = sched_okD [OF ok]
  let ?qs = "qs(Freequeue \<mapsto> fs @ [cur s])"
  obtain n where n: "idle_task s = Some n" "n < 10"
    "\<And>q xs. qs q = Some xs \<Longrightarrow> n \<in> set xs \<Longrightarrow> q = Readyqueue"
    by (rule sched_ok_idle [OF ok]) (rule that; assumption)
  obtain h where h: "list_add_tail (Some (TaskNode (cur s))) (Some Freequeue) (lists s) = Some h"
    "queues h ?qs" by (rule queues_push [OF okD(1) free okD(7)])
  define s1 where "s1 = (upd_task (cur s) (\<lambda>x. x\<lparr>PID := -1\<rparr>)
    (s\<lparr>dir_references := (dir_references s)(i := dir_references s i - 1)\<rparr>))\<lparr>lists := h\<rparr>"
  have s1: "cur s1 = cur s" "idle_task s1 = Some n" "lists s1 = h"
    "state (task_of s1 t) = state (task_of s t)" for t
    using n(1) by (simp_all add: s1_def)
  have "set fs \<subseteq> queued qs" using queued_member [of qs Freequeue fs] free by blast
  then have sub: "queued ?qs \<subseteq> {..<10}"
    using okD(5,6) queued_upd [of qs Freequeue "fs @ [cur s]"] by auto
  have "q = Readyqueue" if "?qs q = Some xs" "n \<in> set xs" for q xs
    using that n(1) n(3) [of q xs] n(3) [OF free] busy by (cases "q = Freequeue") auto
  moreover have "state (task_of s1 t) = ST_BLOCKED"
    if "?qs q = Some xs" "t \<in> set xs" "q \<noteq> Readyqueue" "q \<noteq> Freequeue" for q xs t
    using that sched_ok_blocked [OF ok, of q xs t] by (simp add: s1)
  moreover have "{Freequeue, Readyqueue, Keyboardqueue} \<subseteq> dom ?qs" using okD(2,4) by auto
  ultimately have wait: "waiting_ok s1 ?qs"
    unfolding waiting_ok_def sched_values s1(3) using h(2) s1(2) n(2) sub by blast
  obtain s' where s': "sched_next_rr In_exit s1 = Some s'" "sched_ok s' (after_next ?qs)"
    "sched_frame s1 s'" "cur s' = next_of s1 ?qs" using reschedule [OF wait] by blast
  have "next_of s1 ?qs = next_of s qs" unfolding next_of_def s1(2) n(1) by simp
  moreover have "sys_exit s = Some (Switched, s')"
    using refs h(1) s'(1) sp get_DIR_pos_space [OF sp]
    by (simp add: sys_exit_def Let_def s1_def space_def)
  moreover have "PID (task_of s' t) = PID (task_of s1 t)" "dir_references s' = dir_references s1"
    "phys_mem s' = phys_mem s1" "pagusr_table s' = pagusr_table s1" for t
    using s'(3) by (simp_all add: sched_frame_def)
  ultimately show ?thesis using s'(2,4) by (intro exI [of _ s']) (simp add: s1_def)
qed

end
