(* ===== verification/ForkProps.thy ===== *)
theory ForkProps
  imports ProcProps
begin

text \<open>
  The correctness of \<open>sys_fork\<close>: when it has what it needs, the child is a ready task with its
  own address space, whose data pages are new frames with the contents of the father's, and nothing
  the father or any other process can see has changed.
\<close>

section \<open>The address space\<close>

text \<open>\<open>child_table s i gs row\<close>: the page table that \<open>sys_fork\<close> makes from table \<open>i\<close> and the frames \<open>gs\<close>.\<close>

definition child_table :: "kstate \<Rightarrow> nat \<Rightarrow> nat list \<Rightarrow> (nat \<Rightarrow> page_table_entry) \<Rightarrow>
    (nat \<Rightarrow> page_table_entry) \<Rightarrow> bool" where
  "child_table s i gs old row \<longleftrightarrow>
     (\<forall>p < 264. row p = set_ss_pag_entry (get_pbase_addr (pagusr_table s i p))) \<and>
     (\<forall>p. 264 \<le> p \<longrightarrow> p < 284 \<longrightarrow> row p = set_ss_pag_entry (of_nat (gs ! (p - 264)))) \<and>
     (\<forall>p \<ge> 284. row p = old p)"

definition pages_copied :: "kstate \<Rightarrow> nat \<Rightarrow> nat list \<Rightarrow> (nat \<Rightarrow> nat \<Rightarrow> Byte) \<Rightarrow> bool" where
  "pages_copied s i gs m \<longleftrightarrow>
     (\<forall>x < 20. \<forall>k < 4096. m (gs ! x) k = ram s (frame_of s i (264 + x)) k) \<and>
     (\<forall>f. f \<notin> set gs \<longrightarrow> m f = ram s f)"

text \<open>The frames that a fork may use: distinct, of users, none of them the father's.\<close>

definition fresh_frames :: "kstate \<Rightarrow> nat \<Rightarrow> nat list \<Rightarrow> bool" where
  "fresh_frames s i gs \<longleftrightarrow> length gs = 20 \<and> distinct gs \<and>
     (\<forall>g \<in> set gs. 256 \<le> g \<and> g < 1024 \<and> (\<forall>p. 264 \<le> p \<longrightarrow> p < 284 \<longrightarrow> frame_of s i p \<noteq> g))"

lemma tmp_logpage_found:
  assumes "284 \<le> k" "k < 1024" "row k = 0" "\<And>p. 284 \<le> p \<Longrightarrow> p < k \<Longrightarrow> row p \<noteq> 0"
  shows "tmp_logpage row = of_nat k"
  unfolding tmp_logpage_def using find_upt [of 284 k 1024 "\<lambda>i. row i = 0"] assms
  by (simp del: upt_rec_numeral)

lemma get_PT_dir:
  "paging_ok s \<Longrightarrow> dir_pages_baseAddr (task_of s t) = dir_addr (syms s) i \<Longrightarrow> i < 10 \<Longrightarrow>
    get_PT t s = Some (pt_addr (syms s) i)"
  by (rule get_PT_space) (simp_all add: space_def)

lemma allocate_DIR_spec:
  assumes "free_dir_from 0 (dir_references s) = j" and "j < 10"
  shows "allocate_DIR c s = Some (1, (upd_task c (\<lambda>x. x\<lparr>dir_pages_baseAddr := dir_addr (syms s) j\<rparr>) s)
    \<lparr>dir_references := (dir_references s)(j := 1)\<rparr>)"
proof -
  have "dir_references s j = 0" using free_dir_bounds [of "dir_references s"] assms by simp
  then show ?thesis using assms by (simp add: allocate_DIR_def Let_def int_ok_def)
qed

lemma fork_space_spec:
  assumes sp: "in_space s i" and f: "dir_pages_baseAddr (task_of s f) = dir_addr (syms s) i" "f \<noteq> c"
    and j: "free_dir_from 0 (dir_references s) = j" "j < 10" "j \<noteq> i"
    and dp: "data_pages_ok s i" and gs: "fresh_frames s i gs"
    and k: "284 \<le> k" "k < 1024" "pagusr_table s i k = 0"
      "\<And>p. 284 \<le> p \<Longrightarrow> p < k \<Longrightarrow> pagusr_table s i p \<noteq> 0"
  shows "\<exists>row m. fork_space f c (map int gs) s = Some (pt_addr (syms s) i, of_nat k,
      (upd_task c (\<lambda>x. x\<lparr>dir_pages_baseAddr := dir_addr (syms s) j\<rparr>) s)
        \<lparr>dir_references := (dir_references s)(j := 1),
         pagusr_table := (pagusr_table s)(j := row), ram := m\<rparr>) \<and>
    child_table s i gs (pagusr_table s j) row \<and> pages_copied s i gs m"
proof -
  define s1 where "s1 = (upd_task c (\<lambda>x. x\<lparr>dir_pages_baseAddr := dir_addr (syms s) j\<rparr>) s)
    \<lparr>dir_references := (dir_references s)(j := 1)\<rparr>"
  have i: "i < 10" and pok: "paging_ok s" using sp by (auto simp: in_space_def)
  have s1: "syms s1 = syms s" "pagusr_table s1 = pagusr_table s" "ram s1 = ram s" "paging_ok s1"
    "in_space s1 i" "dir_pages_baseAddr (task_of s1 c) = dir_addr (syms s) j"
    "dir_pages_baseAddr (task_of s1 f) = dir_addr (syms s) i"
    using sp pok f by (simp_all add: s1_def in_space_def paging_ok_def)
  have pts: "get_PT c s1 = Some (pt_addr (syms s) j)" "get_PT f s1 = Some (pt_addr (syms s) i)"
    using get_PT_dir [OF s1(4), of c j] get_PT_dir [OF s1(4), of f i] s1 i j(2) by auto
  have rows: "pt_row (syms s1) (pt_addr (syms s) j) = Some j" "pt_row (syms s1) (pt_addr (syms s) i) = Some i"
    using i j(2) by (simp_all add: s1)
  obtain t1 where t1: "share_pages (pt_addr (syms s) j) (pt_addr (syms s) i) [0..<264] s1
      = Some (s1\<lparr>pagusr_table := t1\<rparr>)"
    "\<And>q p. t1 q p = (if q = j \<and> p < 264
        then set_ss_pag_entry (get_pbase_addr (pagusr_table s i p)) else pagusr_table s q p)"
    using share_pages_spec [OF rows, of "[0..<264]"] j(3) by (auto simp: s1)
  let ?s = "s1\<lparr>pagusr_table := t1\<rparr>"
  have row: "t1 i p = pagusr_table s i p" for p using j(3) t1(2) by simp
  have fr: "frame_of ?s i p = frame_of s i p" for p by (simp add: frame_of_def row)
  have tmp: "tmp_logpage (t1 i) = of_nat k" by (rule tmp_logpage_found) (use k row in auto)
  have "\<exists>t m. copy_pages f (pt_addr (syms ?s) j) (pt_addr (syms ?s) i) (of_nat k) 0 (map int gs) ?s
      = Some (?s\<lparr>pagusr_table := t, ram := m\<rparr>) \<and>
    (\<forall>q p. t q p = (if q = j \<and> 264 + 0 \<le> p \<and> p < 264 + 0 + length gs
        then set_ss_pag_entry (of_nat (gs ! (p - (264 + 0)))) else pagusr_table ?s q p)) \<and>
    (\<forall>x < length gs. \<forall>o' < 4096. m (gs ! x) o' = ram ?s (frame_of ?s i (264 + 0 + x)) o') \<and>
    (\<forall>h. h \<notin> set gs \<longrightarrow> m h = ram ?s h)"
  proof (rule copy_pages_spec)
    show "data_pages_ok ?s i" using dp unfolding data_pages_ok_def fr by (simp add: row)
    show "256 \<le> g \<and> g < 1024 \<and> (\<forall>p. 264 \<le> p \<longrightarrow> p < 284 \<longrightarrow> frame_of ?s i p \<noteq> g)" if "g \<in> set gs" for g
      using gs that unfolding fresh_frames_def fr by blast
    show "pagusr_table ?s i k = 0" using k(3) row by simp
  qed (use s1 j k gs in \<open>auto simp: fresh_frames_def\<close>)
  then obtain t2 m where
    2: "copy_pages f (pt_addr (syms s) j) (pt_addr (syms s) i) (of_nat k) 0 (map int gs) ?s
        = Some (s1\<lparr>pagusr_table := t2, ram := m\<rparr>)"
      "\<And>q p. t2 q p = (if q = j \<and> 264 \<le> p \<and> p < 284
          then set_ss_pag_entry (of_nat (gs ! (p - 264))) else t1 q p)"
      "\<And>x o'. x < 20 \<Longrightarrow> o' < 4096 \<Longrightarrow> m (gs ! x) o' = ram s (frame_of s i (264 + x)) o'"
      "\<And>h. h \<notin> set gs \<Longrightarrow> m h = ram s h"
    using gs unfolding fr fresh_frames_def by (auto simp: s1)
  have t2: "t2 = (pagusr_table s)(j := t2 j)" using t1(2) 2(2) by (auto simp: fun_eq_iff)
  have "fork_space f c (map int gs) s
      = Some (pt_addr (syms s) i, of_nat k, s1\<lparr>pagusr_table := t2, ram := m\<rparr>)"
    unfolding fork_space_def allocate_DIR_spec [OF j(1,2)] s1_def [symmetric] layout_values
    using pts t1(1) 2(1) tmp rows(2) by (simp add: s1(1))
  moreover have "child_table s i gs (pagusr_table s j) (t2 j)"
    using t1(2) 2(2) by (simp add: child_table_def)
  moreover have "pages_copied s i gs m" using 2(3,4) by (simp add: pages_copied_def)
  moreover have "s1\<lparr>pagusr_table := t2, ram := m\<rparr> = s1\<lparr>pagusr_table := (pagusr_table s)(j := t2 j), ram := m\<rparr>"
    using t2 by simp
  ultimately show ?thesis unfolding s1_def by (intro exI [of _ "t2 j"] exI [of _ m]) simp
qed

section \<open>fork\<close>

text \<open>What a fork needs: a free task, 20 free frames, a free directory, a free entry in the father's table.\<close>

definition fork_ready :: "kstate \<Rightarrow> queue_map \<Rightarrow> nat \<Rightarrow> nat \<Rightarrow> nat \<Rightarrow> nat list \<Rightarrow> nat list \<Rightarrow> nat \<Rightarrow> bool" where
  "fork_ready s qs i j c fs rs k \<longleftrightarrow> sched_ok s qs \<and> in_space s i \<and> space s (cur s) i \<and>
     qs Freequeue = Some (c # fs) \<and> qs Readyqueue = Some rs \<and>
     20 \<le> card (avail (phys_mem s)) \<and>
     free_dir_from 0 (dir_references s) = j \<and> j < 10 \<and> j \<noteq> i \<and>
     data_pages_ok s i \<and> (\<forall>p. 264 \<le> p \<longrightarrow> p < 284 \<longrightarrow> phys_mem s (frame_of s i p) \<noteq> 0) \<and>
     284 \<le> k \<and> k < 1024 \<and> pagusr_table s i k = 0 \<and>
     (\<forall>p. 284 \<le> p \<longrightarrow> p < k \<longrightarrow> pagusr_table s i p \<noteq> 0)"

lemma fork_readyD:
  assumes "fork_ready s qs i j c fs rs k"
  shows "sched_ok s qs" "qs Freequeue = Some (c # fs)" "qs Readyqueue = Some rs"
    "20 \<le> card (avail (phys_mem s))" "i < 10" "in_space s i"
    "dir_pages_baseAddr (task_of s (cur s)) = dir_addr (syms s) i"
    "free_dir_from 0 (dir_references s) = j" "j < 10" "j \<noteq> i" "data_pages_ok s i"
    "264 \<le> p \<Longrightarrow> p < 284 \<Longrightarrow> phys_mem s (frame_of s i p) \<noteq> 0"
    "284 \<le> k" "k < 1024" "pagusr_table s i k = 0"
    "284 \<le> p \<Longrightarrow> p < k \<Longrightarrow> pagusr_table s i p \<noteq> 0"
  using assms unfolding fork_ready_def space_def sched_values by - (elim conjE, (assumption | simp))+

lemma fork_works:
  assumes ready: "fork_ready s qs i j c fs rs k"
  defines "pid \<equiv> to_s32 (nextPid s + 1)"
  shows "\<exists>s' gs. sys_fork s = Some (pid, s') \<and>
    sched_ok s' (qs(Freequeue \<mapsto> fs, Readyqueue \<mapsto> rs @ [c])) \<and>
    PID (task_of s' c) = pid \<and> space s' c j \<and> quantum (task_of s' c) = quantum (task_of s (cur s)) \<and>
    kernel_esp (task_of s' c) = Esp (stack_addr (syms s) c SLOT_ebp) \<and>
    stack (tasks s' c) = (stack (tasks s (cur s)))(1005 := 0, 1006 := ret_from_fork_at (syms s)) \<and>
    (\<forall>t. t \<noteq> c \<longrightarrow> tasks s' t = tasks s t) \<and>
    length gs = 20 \<and> distinct gs \<and> set gs \<subseteq> avail (phys_mem s) \<and>
    phys_mem s' = (\<lambda>f. if f \<in> set gs then 1 else phys_mem s f) \<and>
    child_table s i gs (pagusr_table s j) (pagusr_table s' j) \<and>
    (\<forall>q. q \<noteq> j \<longrightarrow> pagusr_table s' q = pagusr_table s q) \<and>
    pages_copied s i gs (ram s') \<and> dir_references s' = (dir_references s)(j := 1) \<and> call_frame s s'"
proof -
  note r = fork_readyD [OF ready]
  note ok = r(1) and free = r(2) and rdy = r(3) and mem = r(4) and i = r(5) and sp = r(6)
    and base = r(7) and j = r(8-10) and dp = r(11) and used = r(12) and k = r(13-16)
  note okD = sched_okD [OF ok]
  have cc: "cur s \<noteq> c" using okD(7) queued_member [of qs Freequeue "c # fs" c] free by auto
  obtain gs where gs: "alloc_frames 20 (phys_mem s)
      = (Some (map int gs), \<lambda>f. if f \<in> set gs then 1 else phys_mem s f)"
    "length gs = 20" "distinct gs" "set gs \<subseteq> avail (phys_mem s)"
    using alloc_frames_succeeds [OF mem] unfolding frame_marks by blast
  let ?pm = "\<lambda>f. if f \<in> set gs then 1 else phys_mem s f"
  define s1 where "s1 = s\<lparr>phys_mem := ?pm\<rparr>"
  have s1: "lists s1 = lists s" "cur s1 = cur s" "task_of s1 t = task_of s t"
    "pagusr_table s1 = pagusr_table s" "ram s1 = ram s" "syms s1 = syms s"
    "dir_references s1 = dir_references s" for t
    by (simp_all add: s1_def)
  from recycle_node [of s1 qs c fs rs] okD(1) free rdy obtain h where
    h: "take_free s1 = Some (c, s1\<lparr>lists := h\<rparr>)"
    "\<And>x. \<exists>h'. list_add_tail (Some (TaskNode c)) (Some Readyqueue) (h(TaskNode c := x)) = Some h' \<and>
      queues h' (qs(Freequeue \<mapsto> fs, Readyqueue \<mapsto> rs @ [c]))" unfolding s1(1) by metis
  obtain h' where h': "list_add_tail (Some (TaskNode c)) (Some Readyqueue)
      (h(TaskNode c := h (TaskNode (cur s)))) = Some h'"
    "queues h' (qs(Freequeue \<mapsto> fs, Readyqueue \<mapsto> rs @ [c]))" using h(2) by blast
  define s2 where "s2 = copy_task_union (cur s) c (s1\<lparr>lists := h\<rparr>)"
  have fr: "frame_of s2 i p = frame_of s i p" for p
    by (simp add: frame_of_def s2_def s1_def)
  have fresh: "fresh_frames s2 i gs"
    unfolding fresh_frames_def fr
  proof (intro conjI ballI allI impI)
    fix g assume "g \<in> set gs"
    then have g: "g \<in> avail (phys_mem s)" using gs(4) by blast
    then show "256 \<le> g" "g < 1024" using avail_less by blast+
    show "frame_of s i p \<noteq> g" if "264 \<le> p" "p < 284" for p
      using used [OF that] g by (auto simp: avail_def)
  qed (rule gs)+
  have s2: "syms s2 = syms s" "dir_references s2 = dir_references s" "pagusr_table s2 = pagusr_table s"
    "ram s2 = ram s" "dir_pages_baseAddr (task_of s2 (cur s)) = dir_addr (syms s) i"
    using cc base by (simp_all add: s2_def s1_def)
  have sp2: "in_space s2 i" using sp by (simp add: in_space_def paging_ok_def s2_def s1_def)
  have dp2: "data_pages_ok s2 i" using dp unfolding data_pages_ok_def fr s2(3) .
  obtain row m where
    fs: "fork_space (cur s) c (map int gs) s2 = Some (pt_addr (syms s) i, of_nat k,
      (upd_task c (\<lambda>x. x\<lparr>dir_pages_baseAddr := dir_addr (syms s) j\<rparr>) s2)
        \<lparr>dir_references := (dir_references s)(j := 1),
         pagusr_table := (pagusr_table s)(j := row), ram := m\<rparr>)"
    "child_table s2 i gs (pagusr_table s j) row" "pages_copied s2 i gs m"
    using fork_space_spec [OF sp2, of "cur s" c j gs k] unfolding s2
    using cc j dp2 fresh k by blast
  define s3 where "s3 = (upd_task c (\<lambda>x. x\<lparr>dir_pages_baseAddr := dir_addr (syms s) j\<rparr>) s2)
    \<lparr>dir_references := (dir_references s)(j := 1),
     pagusr_table := (pagusr_table s)(j := row), ram := m\<rparr>"
  define s4 where "s4 = upd_task c (\<lambda>x. x\<lparr>PID := pid\<rparr>) (s3\<lparr>nextPid := nextPid s + 1\<rparr>)"
  have s4: "syms s4 = syms s" "pagusr_table s4 = (pagusr_table s)(j := row)"
    by (simp_all add: s4_def s3_def s2_def s1_def)
  have del: "del_ss_pag (pt_addr (syms s) i) (of_nat k) s4 = Some (upd_pte i k 0 s4)"
    using i k(2) by (simp add: del_ss_pag_def s4(1))
  have same: "upd_pte i k 0 s4 = s4"
    using k(3) j(3) by (simp add: upd_pte_def s4(2) fun_upd_idem)
  have lists5: "lists (dynamic_link c s4) = h(TaskNode c := h (TaskNode (cur s)))"
    and pid5: "PID (task_of (dynamic_link c s4) c) = pid"
    by (simp_all add: s4_def s3_def s2_def s1_def)
  obtain stt s' where mk: "make_ready c (dynamic_link c s4) = Some (pid, s')"
    "s' = (upd_task c (\<lambda>x. x\<lparr>task_stats := stt\<rparr>) (dynamic_link c s4))
      \<lparr>tsc_pos := tsc_pos (dynamic_link c s4) + 2, lists := h'\<rparr>"
    using make_ready_spec [of c "dynamic_link c s4" h'] h'(1) lists5 pid5 by auto
  have pid_s: "getNextPid s3 = (pid, s3\<lparr>nextPid := nextPid s + 1\<rparr>)"
    by (simp add: getNextPid_def pid_def s3_def s2_def s1_def)
  have run: "sys_fork s = Some (pid, s')"
    using queues_empty [OF okD(1) free] gs(1) h(1) fs(1) del mk(1)
    unfolding sys_fork_def Let_def layout_values s3_def [symmetric]
    by (simp add: s1_def [symmetric] s1 s2_def [symmetric] s3_def [symmetric] pid_s
        s4_def [symmetric] same)
  have other: "tasks s' t = tasks s t" if "t \<noteq> c" for t
    using that by (simp add: mk(2) s4_def s3_def s2_def s1_def dynamic_link_def upd_task_def upd_stack_def
        copy_task_union_def)
  have "sched_ok s' (qs(Freequeue \<mapsto> fs, Readyqueue \<mapsto> rs @ [c]))"
  proof (rule sched_ok_new_task [OF ok free rdy])
    show "cur s' = cur s" "idle_task s' = idle_task s" "queues (lists s') (qs(Freequeue \<mapsto> fs, Readyqueue \<mapsto> rs @ [c]))"
      using h'(2) by (simp_all add: mk(2) s4_def s3_def s2_def s1_def)
    show "state (task_of s' t) = state (task_of s t)" if "t \<noteq> c" for t
      using other [OF that] by (simp add: task_of_def)
  qed
  moreover have "call_frame s s'"
    by (simp add: mk(2) s4_def s3_def s2_def s1_def call_frame_def dynamic_link_def copy_task_union_def
        upd_task_def upd_stack_def)
  moreover have "PID (task_of s' c) = pid" "space s' c j"
    "quantum (task_of s' c) = quantum (task_of s (cur s))"
    "kernel_esp (task_of s' c) = Esp (stack_addr (syms s) c SLOT_ebp)"
    "stack (tasks s' c) = (stack (tasks s (cur s)))(1005 := 0, 1006 := ret_from_fork_at (syms s))"
    "phys_mem s' = (\<lambda>f. if f \<in> set gs then 1 else phys_mem s f)"
    "pagusr_table s' = (pagusr_table s)(j := row)" "ram s' = m"
    "dir_references s' = (dir_references s)(j := 1)"
    using j(2) by (simp_all add: mk(2) s4_def s3_def s2_def s1_def space_def)
  moreover have "child_table s i gs (pagusr_table s j) row" "pages_copied s i gs m"
    using fs(2,3) unfolding child_table_def pages_copied_def fr s2 by blast+
  ultimately show ?thesis using run other gs(2-4)
    by (intro exI [of _ s'] exI [of _ gs]) simp
qed

text \<open>A fork that finds no free task or too few frames.\<close>

lemma fork_fails:
  assumes "sched_ok s qs" and "qs Freequeue = Some fs"
    and "fs = [] \<or> card (avail (phys_mem s)) < 20 \<and> 256 \<notin> avail (phys_mem s)"
  shows "sys_fork s = Some (-12, s)"
  using assms(3) queues_empty [OF sched_okD(1) [OF assms(1)] assms(2)] alloc_frames_fails
  by (cases "fs = []") (auto simp: sys_fork_def)

end
