(* ===== verification/BootProps.thy ===== *)
theory BootProps
  imports Boot ForkProps
begin

text \<open>
  What the initialisation establishes: the kernel pages map themselves and page 0 is not mapped,
  the idle task and the first user task are set up, all other tasks are free, and the invariants
  that the other theories assume hold when the first user process starts.
\<close>

section \<open>The page tables\<close>

definition kernel_row :: "symbols \<Rightarrow> nat \<Rightarrow> page_table_entry" where
  "kernel_row y p =
     (if 1 \<le> p \<and> p < 256
      then (if p = unat (protected_tasks_at y) div 4096 \<or> p = unat (protected_tasks_at y) div 4096 + 11
            then set_present 0 (set_present 1 (set_rw 1 (set_pbase_addr (of_nat p) 0)))
            else set_present 1 (set_rw 1 (set_pbase_addr (of_nat p) 0)))
      else 0)"

lemma guard_pages:
  assumes "symbols_ok y"
  shows "unat (PH_PAGE (protected_tasks_at y)) = unat (protected_tasks_at y) div 4096"
    "unat (PH_PAGE (protected_tasks_at y + of_nat (11 * 4096))) = unat (protected_tasks_at y) div 4096 + 11"
    "unat (protected_tasks_at y) div 4096 + 11 < 256"
proof -
  have b: "unat (protected_tasks_at y) + 49152 \<le> 1048576" using assms by (simp add: symbols_ok_def)
  show "unat (PH_PAGE (protected_tasks_at y)) = unat (protected_tasks_at y) div 4096"
    by (simp add: PH_PAGE_def unat_drop_bit_12)
  have "unat (protected_tasks_at y + of_nat (11 * 4096)) = unat (protected_tasks_at y) + 45056"
    using b by (subst unat_add_u32) simp_all
  then show "unat (PH_PAGE (protected_tasks_at y + of_nat (11 * 4096))) = unat (protected_tasks_at y) div 4096 + 11"
    by (simp add: PH_PAGE_def unat_drop_bit_12)
  show "unat (protected_tasks_at y) div 4096 + 11 < 256" using b by linarith
qed

lemma set_present_0_0: "set_present 0 0 = 0"
  by (simp add: set_present_def field_set_def)

lemma init_table_row_eq:
  assumes "symbols_ok y" and "\<And>p. 1024 \<le> p \<Longrightarrow> row p = 0"
  shows "init_table_row y row = kernel_row y"
proof -
  note g = guard_pages [OF assms(1)]
  show ?thesis
    unfolding init_table_row_def Let_def for_loop_store g(1,2)
      for_loop_update [where g = "\<lambda>i e. set_present 1 (set_rw 1 (set_pbase_addr (of_nat i) e))"]
    using g(3) assms(2) by (auto simp: fun_eq_iff kernel_row_def set_present_0_0)
qed

text \<open>The tables and directories that \<open>init_mm\<close> leaves.\<close>

definition tables_ready :: "kstate \<Rightarrow> bool" where
  "tables_ready s \<longleftrightarrow>
     (\<forall>j < 10. pagusr_table s j = kernel_row (syms s)) \<and>
     (\<forall>j < 10. dir_pages s j = (\<lambda>_. 0)(0 := dir_entry (syms s) j)) \<and>
     phys_mem s = init_frames (\<lambda>_. 0) \<and> dir_references s = (\<lambda>_. 0)"

lemma tables_ready_paging:
  assumes "tables_ready s" and "symbols_ok (syms s)"
  shows "paging_ok s"
proof -
  have al: "unat (pt_addr (syms s) i) mod 4096 = 0" if "i < 10" for i
    using assms(2) that by (simp add: unat_pt_addr) (simp add: symbols_ok_def)
  have "push_bit 12 (get_pbase_addr (dir_entry (syms s) i)) = pt_addr (syms s) i" if "i < 10" for i
    using aligned_page_roundtrip [OF al [OF that], of 0] by (simp add: dir_entry_def)
  moreover have "get_present (dir_entry (syms s) i) = 1" for i by (simp add: dir_entry_def)
  ultimately show ?thesis using assms by (simp add: paging_ok_def tables_ready_def)
qed

text \<open>The variables \<open>init_mm\<close> relies on are zero at first.\<close>

definition fresh :: "symbols \<Rightarrow> kstate \<Rightarrow> bool" where
  "fresh y s \<longleftrightarrow> syms s = y \<and> tasks s = (\<lambda>_. zero_task) \<and> phys_mem s = (\<lambda>_. 0) \<and>
     dir_pages s = (\<lambda>_ _. 0) \<and> pagusr_table s = (\<lambda>_ _. 0) \<and> dir_references s = (\<lambda>_. 0) \<and> cr0 s = 0 \<and>
     lists s = (\<lambda>_. \<lparr>lnext = None, lprev = None\<rparr>) \<and> semaphores s = (\<lambda>_. \<lparr>counter = 0, owner = 0\<rparr>)"

lemma fresh_loaded: "fresh y (loaded y clock m)"
  by (simp add: fresh_def loaded_def)

lemma init_mm_fresh:
  assumes "symbols_ok y" and s0: "fresh y s0"
  shows "\<exists>s. init_mm s0 = Some s \<and> tables_ready s \<and> syms s = y \<and>
    (\<forall>t. state (task_of s t) = ST_RUN) \<and> (\<forall>t. quantum (task_of s t) = 0) \<and>
    cr0 s = 0x80000000 \<and> cr3 s = dir_addr y 0 \<and> space s 0 0 \<and>
    lists s = lists s0 \<and> semaphores s = semaphores s0"
proof -
  let ?s = s0
  let ?t = "\<lambda>j. if j < 10 then kernel_row y else (\<lambda>_. 0)"
  let ?d = "\<lambda>j. if j < 10 then (\<lambda>_. 0)(0 := dir_entry y j) else (\<lambda>_. 0)"
  have t: "init_table_pages ?s = ?s\<lparr>pagusr_table := ?t\<rparr>"
    unfolding init_table_pages_def for_loop_update [where g = "\<lambda>j. init_table_row (syms s0)"]
    using init_table_row_eq [OF assms(1)] s0 by (simp add: fresh_def fun_eq_iff)
  have d: "init_dir_pages (?s\<lparr>pagusr_table := ?t, phys_mem := pm\<rparr>)
      = ?s\<lparr>pagusr_table := ?t, phys_mem := pm, dir_pages := ?d\<rparr>" for pm
    unfolding init_dir_pages_def
      for_loop_update [where g = "\<lambda>i r. r(ENTRY_DIR_PAGES := dir_entry (syms _) i)"]
    using s0 by (simp add: fresh_def fun_eq_iff)
  have f: "free_dir_from 0 (\<lambda>_. 0) = 0" by (subst free_dir_from.simps) simp
  have r: "for_loop 0 10 (\<lambda>i r. r(i := 0 :: int)) ((\<lambda>_. 0)(0 := 1)) = (\<lambda>_. 0)"
    unfolding for_loop_store by auto
  have al: "allocate_DIR 0 (?s\<lparr>pagusr_table := ?t, phys_mem := pm, dir_pages := ?d\<rparr>)
    = Some (1, (upd_task 0 (\<lambda>x. x\<lparr>dir_pages_baseAddr := dir_addr y 0\<rparr>)
        (?s\<lparr>pagusr_table := ?t, phys_mem := pm, dir_pages := ?d\<rparr>))
      \<lparr>dir_references := (\<lambda>_. 0)(0 := 1)\<rparr>)" for pm
    using s0 by (subst allocate_DIR_spec) (simp_all add: f fresh_def)
  have z: "phys_mem ?s = (\<lambda>_. 0)" "syms ?s = y" "tasks ?s = (\<lambda>_. zero_task)" "cr0 ?s = 0"
    using s0 by (simp_all add: fresh_def)
  then show ?thesis
    unfolding init_mm_def Let_def t
    by (simp add: d al set_cr3_def set_pe_flag_def read_cr0_def write_cr0_def init_dir_references_def get_DIR_def r tables_ready_def z)
       (simp add: z zero_task_def task_of_def upd_task_def space_def)
qed

section \<open>The queues\<close>

definition boot_queues :: queue_map where
  "boot_queues = Map.empty(Freequeue \<mapsto> [9, 8, 7, 6, 5, 4, 3, 2, 1, 0], Readyqueue \<mapsto> [],
     Blockedqueue \<mapsto> [], Keyboardqueue \<mapsto> [])"

lemma add_tasks_spec:
  assumes "dll (lists s) Freequeue (map TaskNode xs)" and "distinct (ids @ xs)"
  shows "\<exists>h. add_tasks ids s = Some (s\<lparr>lists := h\<rparr>) \<and>
    dll h Freequeue (map TaskNode (rev ids @ xs))"
  using assms
proof (induction ids arbitrary: s xs)
  case Nil
  then show ?case by (intro exI [of _ "lists s"]) simp
next
  case (Cons i ids)
  have "TaskNode i \<notin> insert Freequeue (set (map TaskNode xs))" using Cons.prems(2) by auto
  then obtain h where h: "list_add (Some (TaskNode i)) (Some Freequeue) (lists s) = Some h"
    "dll h Freequeue (TaskNode i # map TaskNode xs)" by (rule dll_add [OF Cons.prems(1)])
  obtain h' where "add_tasks ids (s\<lparr>lists := h\<rparr>) = Some (s\<lparr>lists := h'\<rparr>)"
    "dll h' Freequeue (map TaskNode (rev ids @ i # xs))"
    using Cons.IH [of "s\<lparr>lists := h\<rparr>" "i # xs"] h(2) Cons.prems(2) by auto
  with h(1) show ?case by (intro exI [of _ h']) simp
qed

text \<open>The heads of the semaphores' queues are untouched.\<close>

lemma add_tasks_unlinked:
  "add_tasks ids s = Some s' \<Longrightarrow> unlinked (lists s) (SemQueue i) \<Longrightarrow> unlinked (lists s') (SemQueue i)"
proof (induction ids arbitrary: s)
  case (Cons t ids)
  then obtain h where h: "list_add (Some (TaskNode t)) (Some Freequeue) (lists s) = Some h"
    "add_tasks ids (s\<lparr>lists := h\<rparr>) = Some s'" by (auto elim!: bind_eq_SomeE)
  have "unlinked h (SemQueue i)" by (rule unlinked_add(1) [OF h(1) Cons.prems(2)]) simp_all
  with Cons.IH [OF h(2)] show ?case by simp
qed simp

lemma unlinked_upd_head:
  "unlinked h p \<Longrightarrow> q \<noteq> p \<Longrightarrow> unlinked (h(q := \<lparr>lnext = Some q, lprev = Some q\<rparr>)) p"
  by (rule unlinked_init [OF dll_init])

lemma init_head_eq:
  "init_head q s = Some (s\<lparr>lists := (lists s)(q := \<lparr>lnext = Some q, lprev = Some q\<rparr>)\<rparr>)"
  by (simp add: init_head_def dll_init)

lemma boot_lists:
  assumes "dll h Freequeue (map TaskNode [9, 8, 7, 6, 5, 4, 3, 2, 1, 0])"
  shows "queues (h(Readyqueue := \<lparr>lnext = Some Readyqueue, lprev = Some Readyqueue\<rparr>,
      Blockedqueue := \<lparr>lnext = Some Blockedqueue, lprev = Some Blockedqueue\<rparr>,
      Keyboardqueue := \<lparr>lnext = Some Keyboardqueue, lprev = Some Keyboardqueue\<rparr>)) boot_queues"
    (is "queues ?h _")
proof -
  have "dll ?h Freequeue (map TaskNode [9, 8, 7, 6, 5, 4, 3, 2, 1, 0])"
    using assms by (subst dll_frame) auto
  moreover have "dll ?h q []" if "q \<in> {Readyqueue, Blockedqueue, Keyboardqueue}" for q
    using that dll_singleton_head [of ?h q] by (auto simp: fun_upd_idem)
  ultimately show ?thesis
    unfolding queues_def boot_queues_def by (auto split: if_splits)
qed

lemma init_sched_spec:
  assumes "length buff = 4096"
  shows "\<exists>h b. init_sched buff s = Some (s\<lparr>lists := h, cb := b,
      semaphores := \<lambda>i. if i < 20 then (semaphores s i)\<lparr>owner := -1\<rparr> else semaphores s i\<rparr>) \<and>
    queues h boot_queues \<and> cb_ok b \<and> contents b = [] \<and> capacity b = 4095 \<and>
    (\<forall>i. unlinked (lists s) (SemQueue i) \<longrightarrow> unlinked h (SemQueue i))"
proof -
  let ?s = "s\<lparr>lists := (lists s)(Freequeue := \<lparr>lnext = Some Freequeue, lprev = Some Freequeue\<rparr>)\<rparr>"
  have "dll (lists ?s) Freequeue (map TaskNode [])" by (simp add: dll_singleton_head)
  then obtain h where h: "add_tasks [0..<10] ?s = Some (s\<lparr>lists := h\<rparr>)"
    "dll h Freequeue (map TaskNode (rev [0..<10] @ []))"
    using add_tasks_spec [of ?s "[]" "[0..<10]"] by auto
  have "rev [0..<10] @ [] = [9, 8, 7, 6, 5, 4, 3, 2, 1, 0 :: nat]" by code_simp
  with h(2) have q: "dll h Freequeue (map TaskNode [9, 8, 7, 6, 5, 4, 3, 2, 1, 0])" by simp
  obtain b where b: "circular_buffer_init buff 4096 = Some b" "cb_ok b" "contents b = []" "capacity b = 4095"
    using init_ok [of 4096 buff] assms by auto
  have sems: "for_loop 0 20 (\<lambda>i f. f(i := (f i)\<lparr>owner := -1\<rparr>)) (semaphores s) =
      (\<lambda>i. if i < 20 then (semaphores s i)\<lparr>owner := -1\<rparr> else semaphores s i)"
    using for_loop_update [of 0 20 "\<lambda>i e. e\<lparr>owner := -1\<rparr>" "semaphores s"] by simp
  let ?h = "h(Readyqueue := \<lparr>lnext = Some Readyqueue, lprev = Some Readyqueue\<rparr>,
      Blockedqueue := \<lparr>lnext = Some Blockedqueue, lprev = Some Blockedqueue\<rparr>,
      Keyboardqueue := \<lparr>lnext = Some Keyboardqueue, lprev = Some Keyboardqueue\<rparr>)"
  have "init_sched buff s = Some (s\<lparr>lists := ?h, cb := b,
      semaphores := \<lambda>i. if i < 20 then (semaphores s i)\<lparr>owner := -1\<rparr> else semaphores s i\<rparr>)"
    using b(1) h(1) unfolding init_sched_def init_head_eq Let_def sched_values
    by (simp add: sems del: upt_rec_numeral)
  moreover have "unlinked ?h (SemQueue i)" if "unlinked (lists s) (SemQueue i)" for i
  proof -
    have "unlinked (lists ?s) (SemQueue i)" using that by (simp add: unlinked_upd_head)
    from add_tasks_unlinked [OF h(1) this] show ?thesis by (simp add: unlinked_upd_head)
  qed
  ultimately show ?thesis using b(2-4) boot_lists [OF q] by blast
qed

section \<open>The first two tasks\<close>

lemma take_free_spec:
  assumes "queues (lists s) qs" and "qs Freequeue = Some (c # fs)"
  shows "\<exists>h. take_free s = Some (c, s\<lparr>lists := h\<rparr>) \<and> queues h (qs(Freequeue \<mapsto> fs)) \<and>
    (\<forall>i. unlinked (lists s) (SemQueue i) \<longrightarrow> unlinked h (SemQueue i))"
proof -
  have "qs Freequeue = Some ([] @ c # fs)" using assms(2) by simp
  from queues_remove [OF assms(1) this] obtain h where "list_del (Some (TaskNode c)) (lists s) = Some h"
    "queues h (qs(Freequeue \<mapsto> fs))" by auto
  moreover from this(1) have "take_free s = Some (c, s\<lparr>lists := h\<rparr>)"
    using queues_first [OF assms] by (simp add: take_free_def)
  ultimately show ?thesis using unlinked_del by fastforce
qed

text \<open>The state while the first tasks are made: directories from \<open>d\<close> on are free.\<close>

definition booting :: "kstate \<Rightarrow> symbols \<Rightarrow> nat \<Rightarrow> nat list \<Rightarrow> bool" where
  "booting s y d fs \<longleftrightarrow> syms s = y \<and> queues (lists s) (boot_queues(Freequeue \<mapsto> fs)) \<and>
     (\<forall>t. state (task_of s t) = ST_RUN) \<and>
     dir_references s = (\<lambda>i. if i < d then 1 else 0) \<and> (\<forall>i. unlinked (lists s) (SemQueue i))"

lemma free_dir_boot: "d < 10 \<Longrightarrow> free_dir_from 0 (\<lambda>i. if i < d then 1 else 0) = d"
proof -
  assume d: "d < 10"
  let ?p = "free_dir_from 0 (\<lambda>i. if i < d then 1 else 0)"
  have iff: "(if i < d then 1 else (0 :: int)) = 0 \<longleftrightarrow> \<not> i < d" for i by simp
  note p = free_dir_bounds [of "\<lambda>i. if i < d then 1 else (0 :: int)", unfolded iff not_not]
  show "?p = d"
  proof (rule linorder_cases [of ?p d])
    assume "?p < d"
    with p d show ?thesis by linarith
  next
    assume "d < ?p"
    with p show ?thesis by blast
  qed
qed

lemma booting_take:
  assumes "booting s y d (c # fs)"
  shows "\<exists>h. take_free s = Some (c, s\<lparr>lists := h\<rparr>) \<and> booting (s\<lparr>lists := h\<rparr>) y d fs"
  using take_free_spec [of s "boot_queues(Freequeue \<mapsto> c # fs)" c fs] assms
  by (auto simp: booting_def)

lemma booting_allocate:
  assumes "booting s y d fs" and "d < 10"
  shows "allocate_DIR t s = Some (1, (upd_task t (\<lambda>x. x\<lparr>dir_pages_baseAddr := dir_addr y d\<rparr>) s)
      \<lparr>dir_references := \<lambda>i. if i < Suc d then 1 else 0\<rparr>)"
proof -
  have "(\<lambda>i. if i < d then 1 else 0)(d := 1) = (\<lambda>i. if i < Suc d then 1 else (0 :: int))"
    by (auto simp: fun_eq_iff)
  then show ?thesis using allocate_DIR_spec [of s d t] assms free_dir_boot [of d] by (simp add: booting_def)
qed

lemma init_idle_spec:
  assumes "booting s y d (c # fs)" and "d < 10"
  shows "\<exists>s'. init_idle s = Some s' \<and> booting s' y (Suc d) fs \<and> idle_task s' = Some c \<and>
    PID (task_of s' c) = 0 \<and> space s' c d \<and> quantum (task_of s' c) = quantum (task_of s c) \<and>
    kernel_esp (task_of s' c) = Esp (stack_addr y c 1022) \<and> stack (tasks s' c) 1023 = cpu_idle_at y \<and>
    pagusr_table s' = pagusr_table s \<and> dir_pages s' = dir_pages s \<and> phys_mem s' = phys_mem s \<and>
    cb s' = cb s \<and> semaphores s' = semaphores s"
proof -
  obtain h where h: "take_free s = Some (c, s\<lparr>lists := h\<rparr>)" "booting (s\<lparr>lists := h\<rparr>) y d fs"
    using booting_take [OF assms(1)] by blast
  define s1 where "s1 = upd_task c (\<lambda>x. x\<lparr>PID := 0\<rparr>) (s\<lparr>lists := h\<rparr>)"
  have b1: "booting s1 y d fs" using h(2) by (simp add: booting_def s1_def)
  define s2 where "s2 = (upd_task c (\<lambda>x. x\<lparr>dir_pages_baseAddr := dir_addr y d\<rparr>) s1)
      \<lparr>dir_references := \<lambda>i. if i < Suc d then 1 else 0\<rparr>"
  define s3 where "s3 = (upd_task c (\<lambda>x. x\<lparr>kernel_esp := Esp (stack_addr y c 1022)\<rparr>)
      (upd_stack c 1022 0 (upd_stack c 1023 (cpu_idle_at y) s2)))\<lparr>idle_task := Some c\<rparr>"
  have y: "syms s2 = y" using b1 by (simp add: booting_def s2_def)
  obtain st where st: "init_task_stats c s3
      = Some ((upd_task c (\<lambda>x. x\<lparr>task_stats := st\<rparr>) s3)\<lparr>tsc_pos := tsc_pos s3 + 2\<rparr>)"
    using init_task_stats_spec [of c s3] by blast
  have "init_idle s = Some ((upd_task c (\<lambda>x. x\<lparr>task_stats := st\<rparr>) s3)\<lparr>tsc_pos := tsc_pos s3 + 2\<rparr>)"
    using h(1) booting_allocate [OF b1 assms(2), of c] st y
    by (simp add: init_idle_def s1_def [symmetric] s2_def [symmetric] s3_def)
  moreover have "\<forall>t. state (task_of s t) = ST_RUN" using assms(1) by (simp add: booting_def)
  ultimately show ?thesis
    using h(2) assms(2) by (simp add: booting_def s3_def s2_def s1_def space_def)
qed

section \<open>The user pages of the first task\<close>

text \<open>The frame map after \<open>n\<close> allocations from the initial one.\<close>

definition taken :: "nat \<Rightarrow> frame_map" where
  "taken n = (\<lambda>f. if f < 256 \<or> even f \<and> f < 256 + 2 * n then 1 else 0)"

lemma taken_init: "init_frames (\<lambda>_. 0) = taken 0"
  by (auto simp: init_frames_eq taken_def fun_eq_iff)

lemma avail_taken: "avail (taken n) = {f. 256 + 2 * n \<le> f \<and> f < 1024 \<and> even f}"
  by (auto simp: avail_def taken_def split: if_splits)

lemma alloc_taken:
  assumes "n < 384"
  shows "alloc_frame (taken n) = (int (256 + 2 * n), taken (Suc n))"
proof -
  have mem: "256 + 2 * n \<in> avail (taken n)" using assms by (simp add: avail_taken)
  moreover have "Min (avail (taken n)) = 256 + 2 * n"
    using mem by (intro Min_eqI) (auto simp: avail_taken)
  moreover have "(taken n)(256 + 2 * n := 1) = taken (Suc n)"
    by (auto simp: taken_def fun_eq_iff elim!: evenE) presburger
  ultimately show ?thesis by (auto simp: alloc_frame_spec Let_def)
qed

definition user_entry :: "bool \<Rightarrow> nat \<Rightarrow> page_table_entry" where
  "user_entry writable f =
     (let e = set_user 1 (set_pbase_addr (of_nat f) 0)
      in set_present 1 (if writable then set_rw 1 e else e))"

lemma user_page_taken:
  "n < 384 \<Longrightarrow> phys_mem s = taken n \<Longrightarrow>
    user_page w r p s = upd_pte r p (user_entry w (256 + 2 * n)) (s\<lparr>phys_mem := taken (Suc n)\<rparr>)"
  by (simp add: user_page_def alloc_taken user_entry_def to_u32_def Let_def)

text \<open>A loop of \<open>set_user_pages\<close> that starts at page \<open>b\<close> with \<open>n\<close> frames taken.\<close>

lemma user_pages_loop:
  assumes "n + k \<le> 384" and "phys_mem s = taken n"
  shows "for_loop 0 k (\<lambda>pag. user_page w r (b + pag)) s = s\<lparr>phys_mem := taken (n + k),
    pagusr_table := (pagusr_table s)(r := \<lambda>p. if b \<le> p \<and> p < b + k
      then user_entry w (256 + 2 * (n + (p - b))) else pagusr_table s r p)\<rparr>"
  using assms(1)
proof (induction k)
  case 0
  have "(\<lambda>p. if b \<le> p \<and> p < b then user_entry w (256 + 2 * (n + (p - b))) else pagusr_table s r p)
      = pagusr_table s r" by (auto simp: fun_eq_iff)
  then show ?case using assms(2) by (simp add: for_loop_empty)
next
  case (Suc k)
  let ?t = "\<lambda>k p. if b \<le> p \<and> p < b + k then user_entry w (256 + 2 * (n + (p - b))) else pagusr_table s r p"
  have "(?t k)(b + k := user_entry w (256 + 2 * (n + k))) = ?t (Suc k)"
    by (auto simp: fun_eq_iff)
  moreover have "for_loop 0 (Suc k) (\<lambda>pag. user_page w r (b + pag)) s =
      user_page w r (b + k) (s\<lparr>phys_mem := taken (n + k), pagusr_table := (pagusr_table s)(r := ?t k)\<rparr>)"
    unfolding for_loop_last [OF le0] by (rule arg_cong [OF Suc.IH]) (use Suc.prems in simp)
  ultimately have "for_loop 0 (Suc k) (\<lambda>pag. user_page w r (b + pag)) s =
      s\<lparr>phys_mem := taken (n + Suc k), pagusr_table := (pagusr_table s)(r := ?t (Suc k))\<rparr>"
    using Suc.prems user_page_taken [of "n + k" "s\<lparr>phys_mem := taken (n + k),
      pagusr_table := (pagusr_table s)(r := ?t k)\<rparr>" w r "b + k"]
    by (simp add: upd_pte_def)
  then show ?case .
qed

text \<open>
  The page table with user pages that were mapped after \<open>k\<close> allocations: 8 code pages and 20 data
  pages, on every other frame.
\<close>

definition user_row :: "nat \<Rightarrow> symbols \<Rightarrow> nat \<Rightarrow> page_table_entry" where
  "user_row k y p =
     (if 256 \<le> p \<and> p < 264 then user_entry False (256 + 2 * (k + (p - 256)))
      else if 264 \<le> p \<and> p < 284 then user_entry True (256 + 2 * (k + (p - 256)))
      else kernel_row y p)"

lemma set_user_pages_spec:
  assumes "get_PT t s = Some (pt_addr (syms s) r)" and "r < 10"
    and "phys_mem s = taken k" and "k + 28 \<le> 384" and "pagusr_table s r = kernel_row (syms s)"
  shows "set_user_pages t s = Some (s\<lparr>phys_mem := taken (k + 28),
    pagusr_table := (pagusr_table s)(r := user_row k (syms s))\<rparr>)"
proof -
  have code: "for_loop 0 8 (\<lambda>pag. user_page False r (256 + pag)) s = s\<lparr>phys_mem := taken (k + 8),
    pagusr_table := (pagusr_table s)(r := \<lambda>p. if 256 \<le> p \<and> p < 264
      then user_entry False (256 + 2 * (k + (p - 256))) else kernel_row (syms s) p)\<rparr>" (is "_ = ?s1")
    using user_pages_loop [of k 8 s False r 256] assms(3,4) unfolding assms(5) by simp
  have "for_loop 0 20 (\<lambda>pag. user_page True r (264 + pag)) ?s1 = s\<lparr>phys_mem := taken (k + 28),
    pagusr_table := (pagusr_table s)(r := \<lambda>p. if 264 \<le> p \<and> p < 284
      then user_entry True (256 + 2 * ((k + 8) + (p - 264))) else pagusr_table ?s1 r p)\<rparr>"
    using user_pages_loop [of "k + 8" 20 ?s1 True r 264] assms(4) by (simp add: add.assoc)
  moreover have "(\<lambda>p. if 264 \<le> p \<and> p < 284 then user_entry True (256 + 2 * ((k + 8) + (p - 264)))
      else pagusr_table ?s1 r p) = user_row k (syms s)"
  proof
    fix p :: nat
    have "(k + 8) + (p - 264) = k + (p - 256)" if "264 \<le> p" using that by simp
    then show "(if 264 \<le> p \<and> p < 284 then user_entry True (256 + 2 * ((k + 8) + (p - 264)))
      else pagusr_table ?s1 r p) = user_row k (syms s) p" by (simp add: user_row_def)
  qed
  ultimately show ?thesis
    using assms(1,2) code by (simp add: set_user_pages_def)
qed

text \<open>What \<open>monoprocess_init_addr_space\<close> leaves: the first directory with user pages.\<close>

definition with_user_pages :: "kstate \<Rightarrow> kstate" where
  "with_user_pages s = s\<lparr>phys_mem := taken 28,
     pagusr_table := (pagusr_table s)(0 := user_row 0 (syms s)), cr3 := dir_addr (syms s) 0\<rparr>"

lemma monoprocess_init_spec:
  assumes "tables_ready s" and "symbols_ok (syms s)" and "space s 0 0"
  shows "monoprocess_init_addr_space s = Some (with_user_pages s)"
proof -
  have "get_PT 0 s = Some (pt_addr (syms s) 0)"
    by (rule get_PT_space [OF tables_ready_paging [OF assms(1,2)] assms(3)])
  moreover have "phys_mem s = taken 0" "pagusr_table s 0 = kernel_row (syms s)"
    using assms(1) by (simp_all add: tables_ready_def taken_init)
  ultimately have "set_user_pages 0 s = Some (s\<lparr>phys_mem := taken (0 + 28),
      pagusr_table := (pagusr_table s)(0 := user_row 0 (syms s))\<rparr>)"
    by (intro set_user_pages_spec) simp_all
  with assms(3) show ?thesis
    by (simp add: monoprocess_init_addr_space_def set_cr3_def get_DIR_def with_user_pages_def space_def)
qed

lemma init_task1_spec:
  assumes bt: "booting s y d (c # fs)" and d: "d < 10" and pok: "paging_ok s"
    and mem: "phys_mem s = taken 28" and row: "pagusr_table s d = kernel_row y"
  shows "\<exists>s'. init_task1 s = Some s' \<and> booting s' y (Suc d) fs \<and> idle_task s' = idle_task s \<and>
    PID (task_of s' c) = 1 \<and> space s' c d \<and> quantum (task_of s' c) = 300 \<and>
    unat (program_break (task_of s' c)) = 1163264 \<and> nextPid s' = 13 \<and> remaining_ticks s' = 300 \<and>
    tss_esp0 s' = KERNEL_ESP y c \<and> cr3 s' = dir_addr y d \<and> paging_ok s' \<and>
    phys_mem s' = taken 56 \<and> pagusr_table s' = (pagusr_table s)(d := user_row 28 y) \<and>
    cb s' = cb s \<and> semaphores s' = semaphores s \<and> (\<forall>t. t \<noteq> c \<longrightarrow> tasks s' t = tasks s t)"
proof -
  have y: "syms s = y" using bt by (simp add: booting_def)
  obtain h where h: "take_free s = Some (c, s\<lparr>lists := h\<rparr>)" "booting (s\<lparr>lists := h\<rparr>) y d fs"
    using booting_take [OF bt] by blast
  define s1 where "s1 = upd_task c (\<lambda>x. x\<lparr>quantum := 300, state := ST_RUN\<rparr>)
    ((upd_task c (\<lambda>x. x\<lparr>PID := 1\<rparr>) (s\<lparr>lists := h\<rparr>))\<lparr>nextPid := 13\<rparr>)"
  have b1: "booting s1 y d fs" using h(2) by (simp add: booting_def s1_def)
  define s2 where "s2 = (upd_task c (\<lambda>x. x\<lparr>dir_pages_baseAddr := dir_addr y d\<rparr>) s1)
      \<lparr>dir_references := \<lambda>i. if i < Suc d then 1 else 0\<rparr>"
  have s2: "syms s2 = y" "paging_ok s2" "phys_mem s2 = taken 28" "pagusr_table s2 d = kernel_row y"
    using y pok mem row by (simp_all add: s2_def s1_def paging_ok_def)
  have "get_PT c s2 = Some (pt_addr (syms s2) d)"
    by (rule get_PT_dir [OF s2(2) _ d]) (simp add: s2_def s1_def y)
  from set_user_pages_spec [OF this d s2(3) _ s2(4) [folded s2(1)]]
  have up: "set_user_pages c s2 = Some (s2\<lparr>phys_mem := taken 56, pagusr_table := (pagusr_table s2)(d := user_row 28 y)\<rparr>)"
    by (simp add: s2(1))
  define s3 where "s3 = s2\<lparr>phys_mem := taken 56, pagusr_table := (pagusr_table s2)(d := user_row 28 y)\<rparr>"
  define s4 where "s4 = s3\<lparr>tss_esp0 := KERNEL_ESP y c, cr3 := dir_addr y d, task1_task := Some c,
    remaining_ticks := 300\<rparr>"
  obtain st where st: "init_task_stats c s4
      = Some ((upd_task c (\<lambda>x. x\<lparr>task_stats := st\<rparr>) s4)\<lparr>tsc_pos := tsc_pos s4 + 2\<rparr>)"
    using init_task_stats_spec [of c s4] by blast
  define s' where "s' = upd_task c (\<lambda>x. x\<lparr>program_break := 1163264\<rparr>)
    ((upd_task c (\<lambda>x. x\<lparr>task_stats := st\<rparr>) s4)\<lparr>tsc_pos := tsc_pos s4 + 2\<rparr>)"
  have t3: "task_of s3 c = task_of s2 c" by (simp add: s3_def task_of_def)
  have run: "init_task1 s = Some s'"
    using h(1) booting_allocate [OF b1 d, of c] up st y
    by (simp add: init_task1_def s1_def [symmetric] s2_def [symmetric] s3_def [symmetric] set_cr3_def
        get_DIR_def t3 s4_def s'_def s2(1) Let_def)
       (simp add: s3_def s2_def s1_def task_of_def int_ok_def upd_task_def)
  moreover have "tasks s' t = tasks s t" if "t \<noteq> c" for t
    using that by (simp add: s'_def s4_def s3_def s2_def s1_def upd_task_def)
  moreover have "\<forall>t. state (task_of s t) = ST_RUN" using bt by (simp add: booting_def)
  ultimately show ?thesis
    using h(2) d pok y
    by (simp add: booting_def s'_def s4_def s3_def s2_def s1_def space_def paging_ok_def)
qed

section \<open>The first user process\<close>

definition first_queues :: queue_map where
  "first_queues = boot_queues(Freequeue \<mapsto> [7, 6, 5, 4, 3, 2, 1, 0])"

lemma first_queues_iff:
  "first_queues q = Some xs \<longleftrightarrow> q = Freequeue \<and> xs = [7, 6, 5, 4, 3, 2, 1, 0] \<or>
    (q = Readyqueue \<or> q = Blockedqueue \<or> q = Keyboardqueue) \<and> xs = []"
  by (auto simp: first_queues_def boot_queues_def)

lemma first_queues_queued: "queued first_queues = {0, 1, 2, 3, 4, 5, 6, 7}"
proof -
  have "ran first_queues = {[7, 6, 5, 4, 3, 2, 1, 0], []}"
    unfolding ran_def first_queues_iff by blast
  then show ?thesis unfolding queued_def by auto
qed

definition first_process :: "kstate \<Rightarrow> bool" where
  "first_process s \<longleftrightarrow> sched_ok s first_queues \<and> cur s = 8 \<and> idle_task s = Some 9 \<and>
     in_space s 1 \<and> space s 8 1 \<and> space s 9 0 \<and>
     PID (task_of s 8) = 1 \<and> PID (task_of s 9) = 0 \<and> quantum (task_of s 8) = 300 \<and>
     quantum (task_of s 9) = 0 \<and> remaining_ticks s = 300 \<and> nextPid s = 13 \<and>
     unat (program_break (task_of s 8)) = 1163264 \<and> phys_mem s = taken 56 \<and>
     (\<forall>j < 10. pagusr_table s j = (if j < 2 then user_row (28 * j) (syms s) else kernel_row (syms s))) \<and>
     dir_references s = (\<lambda>i. if i < 2 then 1 else 0) \<and>
     cb_ok (cb s) \<and> contents (cb s) = [] \<and> capacity (cb s) = 4095 \<and>
     (\<forall>i < 20. owner (semaphores s i) = -1 \<and> counter (semaphores s i) = 0) \<and>
     (\<forall>i. unlinked (lists s) (SemQueue i)) \<and>
     kernel_esp (task_of s 9) = Esp (stack_addr (syms s) 9 1022) \<and>
     stack (tasks s 9) 1023 = cpu_idle_at (syms s) \<and> tss_esp0 s = KERNEL_ESP (syms s) 8"

text \<open>The page tables when the idle task is made; it gets the directory that has the user pages.\<close>

lemma boot_to_idle:
  assumes y: "symbols_ok y" and s0: "fresh y s0" and buff: "length buff = 4096"
  shows "\<exists>s. init_kernel buff s0 = init_task1 s \<and>
    booting s y 1 [8, 7, 6, 5, 4, 3, 2, 1, 0] \<and> paging_ok s \<and> phys_mem s = taken 28 \<and>
    (\<forall>j < 10. pagusr_table s j = (if j = 0 then user_row 0 y else kernel_row y)) \<and>
    idle_task s = Some 9 \<and> PID (task_of s 9) = 0 \<and> space s 9 0 \<and>
    kernel_esp (task_of s 9) = Esp (stack_addr y 9 1022) \<and> stack (tasks s 9) 1023 = cpu_idle_at y \<and>
    quantum (task_of s 9) = 0 \<and>
    cb_ok (cb s) \<and> contents (cb s) = [] \<and> capacity (cb s) = 4095 \<and>
    (\<forall>i < 20. owner (semaphores s i) = -1 \<and> counter (semaphores s i) = 0)"
proof -
  obtain s1 where s1: "init_mm s0 = Some s1" "tables_ready s1" "syms s1 = y"
    "\<forall>t. state (task_of s1 t) = ST_RUN" "\<forall>t. quantum (task_of s1 t) = 0" "space s1 0 0"
    "lists s1 = lists s0" "semaphores s1 = semaphores s0"
    using init_mm_fresh [OF y s0] by blast
  let ?s1 = "with_user_pages s1"
  have mono: "monoprocess_init_addr_space s1 = Some ?s1"
    by (rule monoprocess_init_spec [OF s1(2) _ s1(6)]) (simp add: s1(3) y)
  have f1: "syms ?s1 = y" "task_of ?s1 t = task_of s1 t" "dir_references ?s1 = dir_references s1"
    "dir_pages ?s1 = dir_pages s1" "phys_mem ?s1 = taken 28" "lists ?s1 = lists s0" "semaphores ?s1 = semaphores s0"
    "pagusr_table ?s1 = (pagusr_table s1)(0 := user_row 0 y)" for t
    by (simp_all add: with_user_pages_def s1 task_of_def)
  have un: "unlinked (lists ?s1) (SemQueue i)" for i
    using s0 by (simp add: f1 fresh_def unlinked_def)
  obtain h b where sched: "init_sched buff ?s1 = Some (?s1\<lparr>lists := h, cb := b, semaphores :=
      \<lambda>i. if i < 20 then (semaphores ?s1 i)\<lparr>owner := -1\<rparr> else semaphores ?s1 i\<rparr>)"
    "queues h boot_queues" "cb_ok b" "contents b = []" "capacity b = 4095"
    "\<forall>i. unlinked (lists ?s1) (SemQueue i) \<longrightarrow> unlinked h (SemQueue i)"
    using init_sched_spec [OF buff, of ?s1] by blast
  define s2 where "s2 = ?s1\<lparr>lists := h, cb := b, semaphores :=
      \<lambda>i. if i < 20 then (semaphores ?s1 i)\<lparr>owner := -1\<rparr> else semaphores ?s1 i\<rparr>"
  have f2: "syms s2 = y" "task_of s2 t = task_of s1 t" "dir_references s2 = (\<lambda>_. 0)" "dir_pages s2 = dir_pages s1"
    "phys_mem s2 = taken 28" "pagusr_table s2 = (pagusr_table s1)(0 := user_row 0 y)" "lists s2 = h" "cb s2 = b"
    "\<forall>i < 20. owner (semaphores s2 i) = -1 \<and> counter (semaphores s2 i) = 0" for t
    using s0 s1(2) f1 by (simp_all add: s2_def task_of_def tables_ready_def fresh_def)
  have "boot_queues(Freequeue \<mapsto> [9, 8, 7, 6, 5, 4, 3, 2, 1, 0]) = boot_queues"
    by (simp add: boot_queues_def fun_eq_iff)
  then have b2: "booting s2 y 0 (9 # [8, 7, 6, 5, 4, 3, 2, 1, 0])"
    using s1(4) sched(2,6) un by (simp add: booting_def f2)
  obtain s3 where s3: "init_idle s2 = Some s3" "booting s3 y (Suc 0) [8, 7, 6, 5, 4, 3, 2, 1, 0]"
    "idle_task s3 = Some 9" "PID (task_of s3 9) = 0" "space s3 9 0"
    "quantum (task_of s3 9) = quantum (task_of s2 9)"
    "kernel_esp (task_of s3 9) = Esp (stack_addr y 9 1022)" "stack (tasks s3 9) 1023 = cpu_idle_at y"
    "pagusr_table s3 = pagusr_table s2" "dir_pages s3 = dir_pages s2" "phys_mem s3 = phys_mem s2"
    "cb s3 = cb s2" "semaphores s3 = semaphores s2"
    using init_idle_spec [OF b2] by auto
  have run: "init_kernel buff s0 = init_task1 s3"
    using s1(1) mono sched(1) s3(1) by (simp add: init_kernel_def s2_def)
  have "syms s3 = y" using s3(2) by (simp add: booting_def)
  moreover have "paging_ok s1" by (rule tables_ready_paging [OF s1(2)]) (simp add: s1(3) y)
  ultimately have pok: "paging_ok s3" by (simp add: paging_ok_def s3(10) f2 s1(3))
  have rows: "\<forall>j < 10. pagusr_table s3 j = (if j = 0 then user_row 0 y else kernel_row y)"
    using s1(2,3) by (simp add: s3(9) f2 tables_ready_def)
  have "quantum (task_of s3 9) = 0" using s1(5) s3(6) by (simp add: f2)
  with run pok rows s3(2-8) sched(3-5) f2(9) show ?thesis
    by (intro exI [of _ s3]) (simp add: s3(11-13) f2(5,8))
qed

lemma kernel_boots_lemma:
  assumes y: "symbols_ok y" and s0: "fresh y s0" and buff: "length buff = 4096"
  shows "\<exists>s. init_kernel buff s0 = Some s \<and> first_process (enter_user s) \<and>
    syms s = y"
proof -
  obtain s where s: "init_kernel buff s0 = init_task1 s"
    "booting s y 1 (8 # [7, 6, 5, 4, 3, 2, 1, 0])"
    "idle_task s = Some 9" "PID (task_of s 9) = 0" "space s 9 0"
    "kernel_esp (task_of s 9) = Esp (stack_addr y 9 1022)" "stack (tasks s 9) 1023 = cpu_idle_at y"
    "quantum (task_of s 9) = 0"
    "cb_ok (cb s)" "contents (cb s) = []" "capacity (cb s) = 4095"
    "\<forall>i < 20. owner (semaphores s i) = -1 \<and> counter (semaphores s i) = 0"
    and pok: "paging_ok s" and mem: "phys_mem s = taken 28"
    and rows: "\<forall>j < 10. pagusr_table s j = (if j = 0 then user_row 0 y else kernel_row y)"
    using boot_to_idle [OF assms] by blast
  have sy: "syms s = y" using s(2) by (simp add: booting_def)
  obtain s' where s': "init_task1 s = Some s'" "booting s' y (Suc 1) [7, 6, 5, 4, 3, 2, 1, 0]"
    "idle_task s' = idle_task s" "PID (task_of s' 8) = 1" "space s' 8 1" "quantum (task_of s' 8) = 300"
    "unat (program_break (task_of s' 8)) = 1163264" "nextPid s' = 13" "remaining_ticks s' = 300"
    "tss_esp0 s' = KERNEL_ESP y 8" "cr3 s' = dir_addr y 1" "paging_ok s'" "phys_mem s' = taken 56"
    "pagusr_table s' = (pagusr_table s)(1 := user_row 28 y)" "cb s' = cb s" "semaphores s' = semaphores s"
    "\<And>t. t \<noteq> 8 \<Longrightarrow> tasks s' t = tasks s t"
    using init_task1_spec [OF s(2) _ pok mem] rows by auto
  have sy': "syms s' = y" using s'(2) by (simp add: booting_def)
  have "unat (KERNEL_ESP y 8 - 1 - task_addr y 0) = 36863"
    by (simp add: KERNEL_ESP_def stack_addr_def task_addr_def)
  then have cur: "enter_user s' = s'\<lparr>cur := 8\<rparr>"
    by (simp add: enter_user_def s'(10) sy')
  have t9: "task_of s' 9 = task_of s 9" "tasks s' 9 = tasks s 9"
    using s'(17) [of 9] by (simp_all add: task_of_def)
  have tabs: "pagusr_table s' j = (if j < 2 then user_row (28 * j) y else kernel_row y)" if "j < 10" for j
    using rows that by (auto simp: s'(14) less_2_cases_iff)
  have q: "queues (lists s') first_queues" "\<forall>i. unlinked (lists s') (SemQueue i)" and st: "\<forall>t. state (task_of s' t) = ST_RUN"
    and refs: "dir_references s' = (\<lambda>i. if i < 2 then 1 else 0)"
    using s'(2) by (simp_all add: booting_def first_queues_def numeral_2_eq_2)
  have "sched_ok (s'\<lparr>cur := 8\<rparr>) first_queues"
    unfolding sched_ok_def sched_values
  proof (intro conjI allI impI)
    show "queues (lists (s'\<lparr>cur := 8\<rparr>)) first_queues" using q(1) by simp
    show "state (task_of (s'\<lparr>cur := 8\<rparr>) t) = ST_BLOCKED"
      if "first_queues q = Some xs" "t \<in> set xs" "q \<noteq> Readyqueue" "q \<noteq> Freequeue" for q xs t
      using that by (auto simp: first_queues_iff)
    show "\<exists>i<10. idle_task (s'\<lparr>cur := 8\<rparr>) = Some i \<and>
      (\<forall>q xs. first_queues q = Some xs \<longrightarrow> i \<in> set xs \<longrightarrow> q = Readyqueue)"
      using s'(3) s(3) by (intro exI [of _ 9]) (auto simp: first_queues_iff)
    show "{Freequeue, Readyqueue, Keyboardqueue} \<subseteq> dom first_queues"
      by (auto simp: dom_def first_queues_iff)
  qed (use st first_queues_queued in auto)
  moreover have "in_space (s'\<lparr>cur := 8\<rparr>) 1"
    using s'(11,12) by (simp add: in_space_def paging_ok_def sy')
  moreover have "space s' 9 0" using s(5) by (simp add: space_def t9 sy sy')
  ultimately have "first_process (enter_user s')"
    using s'(1-13,15,16) s refs tabs q(2) unfolding cur first_process_def by (simp add: t9 sy' space_def)
  with s(1) s'(1) sy' show ?thesis by auto
qed

section \<open>The first process can fork\<close>

lemma frame_of_user_entry:
  "f < 1024 \<Longrightarrow> unat (get_pbase_addr (user_entry w f)) = f"
  by (simp add: user_entry_def Let_def unsigned_take_bit_eq take_bit_nat_eq_self)

lemma enough_frames: "20 \<le> card (avail (taken 56))"
proof -
  have "(\<lambda>i. 368 + 2 * i) ` {..<20} \<subseteq> avail (taken 56)" by (auto simp: avail_taken)
  then have "card ((\<lambda>i. 368 + 2 * i :: nat) ` {..<20}) \<le> card (avail (taken 56))"
    by (rule card_mono [OF finite_avail])
  moreover have "card ((\<lambda>i. 368 + 2 * i :: nat) ` {..<20}) = 20"
    by (subst card_image) (auto simp: inj_on_def)
  ultimately show ?thesis by simp
qed

lemma first_fork_ready:
  assumes "first_process s"
  shows "fork_ready s first_queues 1 2 7 [6, 5, 4, 3, 2, 1, 0] [] 284"
proof -
  have row: "pagusr_table s 1 = user_row 28 (syms s)" using assms by (simp add: first_process_def)
  have fr: "frame_of s 1 p = 256 + 2 * (28 + (p - 256))" if "264 \<le> p" "p < 284" for p
    using that unfolding frame_of_def row by (simp add: user_row_def frame_of_user_entry)
  have dp: "data_pages_ok s 1"
    unfolding data_pages_ok_def row
    by (auto simp: fr [unfolded One_nat_def] user_row_def user_entry_def Let_def)
  have used: "phys_mem s (frame_of s 1 p) \<noteq> 0" if "264 \<le> p" "p < 284" for p
    using that assms unfolding fr [OF that] by (simp add: first_process_def taken_def)
  have free: "pagusr_table s 1 284 = 0" unfolding row by (simp add: user_row_def kernel_row_def)
  have dir: "free_dir_from 0 (dir_references s) = 2"
    using assms free_dir_boot [of 2] by (simp add: first_process_def)
  show ?thesis
    unfolding fork_ready_def
    using assms dp used free dir enough_frames
    by (auto simp: first_process_def first_queues_def boot_queues_def)
qed

end
