(* ===== verification/SchedTicks.thy ===== *)
theory SchedTicks
  imports SchedProps
begin

text \<open>
  The round-robin policy over time: what one timer tick does, that a task keeps the processor for
  its whole quantum and no longer, and that the ready tasks take turns in the order of the queue.
\<close>

section \<open>One tick\<close>

lemma tick_running:
  assumes "1 < remaining_ticks s" and "int_ok (remaining_ticks s)"
  shows "update_sched_data_rr s =
    Some (Return (), s\<lparr>remaining_ticks := remaining_ticks s - 1\<rparr>)"
  using assms by (simp add: update_sched_data_rr_def needs_sched_rr_def c_int_def int_ok_def)

text \<open>With no ready task the quantum starts again when it is used up.\<close>

lemma tick_alone:
  assumes "queues (lists s) qs" and "qs Readyqueue = Some []" and "int_ok (remaining_ticks s - 1)"
  shows "update_sched_data_rr s =
    Some (Return (), s\<lparr>remaining_ticks := (if remaining_ticks s = 1 then get_quantum (cur s) s
                                          else remaining_ticks s - 1)\<rparr>)"
  using assms queues_empty [OF assms(1,2)]
  by (simp add: update_sched_data_rr_def needs_sched_rr_def c_int_def get_quantum_def)

lemma tick_yields:
  assumes "queues (lists s) qs" and "qs Readyqueue = Some (t # ts)"
    and "remaining_ticks s \<le> 1" and "int_ok (remaining_ticks s - 1)"
  shows "update_sched_data_rr s =
    do { s \<leftarrow> yield_to Readyqueue In_clock (s\<lparr>remaining_ticks := remaining_ticks s - 1\<rparr>);
         Some (Switched, s) }"
  using assms queues_empty [OF assms(1,2)]
  by (simp add: update_sched_data_rr_def needs_sched_rr_def c_int_def yield_to_def)

lemma sched_ok_remaining: "sched_ok (s\<lparr>remaining_ticks := r\<rparr>) qs = sched_ok s qs"
  by (simp add: sched_ok_def)

lemma tick_rotates:
  assumes ok: "sched_ok s qs" and q: "qs Readyqueue = Some (t # ts)"
    and r: "remaining_ticks s \<le> 1" "int_ok (remaining_ticks s - 1)"
  shows "\<exists>s'. update_sched_data_rr s = Some (Switched, s') \<and>
    sched_ok s' (qs(Readyqueue \<mapsto> ts @ [cur s])) \<and> sched_frame s s' \<and> cur s' = t \<and>
    remaining_ticks s' = get_quantum t s \<and> tss_esp0 s' = KERNEL_ESP (syms s) t \<and>
    kernel_esp (task_of s' (cur s)) = Frames In_clock \<and>
    (\<forall>r. r \<noteq> cur s \<longrightarrow> kernel_esp (task_of s' r) = kernel_esp (task_of s r))"
proof -
  let ?s = "s\<lparr>remaining_ticks := remaining_ticks s - 1\<rparr>"
  have ok': "sched_ok ?s qs" using ok by (simp add: sched_ok_remaining)
  have nx: "next_of ?s (qs(Readyqueue \<mapsto> (t # ts) @ [cur ?s])) = t"
    "after_next (qs(Readyqueue \<mapsto> (t # ts) @ [cur ?s])) = qs(Readyqueue \<mapsto> ts @ [cur s])"
    by (simp_all add: next_of_def after_next_def)
  obtain s' where s': "yield_to Readyqueue In_clock ?s = Some s'"
    "sched_ok s' (qs(Readyqueue \<mapsto> ts @ [cur s]))" "sched_frame ?s s'" "cur s' = t"
    "remaining_ticks s' = get_quantum t ?s" "tss_esp0 s' = KERNEL_ESP (syms s) t"
    "\<forall>r. kernel_esp (task_of s' r) = (if r = cur ?s then Frames In_clock else kernel_esp (task_of ?s r))"
    using yield_to_spec [OF ok' q, of In_clock, unfolded nx] by (auto simp del: fun_upd_apply)
  have "sched_frame s s'" using sched_frame_trans [OF sched_frame_remaining s'(3)] .
  with s' show ?thesis using tick_yields [OF sched_okD(1) [OF ok] q r]
    by (simp add: get_quantum_def task_of_def)
qed

section \<open>Many ticks\<close>

text \<open>The timer interrupts arriving while the tasks only compute in user mode.\<close>

primrec ticks :: "nat \<Rightarrow> kstate \<Rightarrow> kstate option" where
  "ticks 0 s = Some s"
| "ticks (Suc n) s = do { (_, s) \<leftarrow> update_sched_data_rr s; ticks n s }"

lemma ticks_add: "ticks (m + n) s = do { s \<leftarrow> ticks m s; ticks n s }"
  by (induction m arbitrary: s) (auto split: bind_splits prod.splits)

lemma ticks_within:
  assumes "int_ok (remaining_ticks s)" and "int n < remaining_ticks s"
  shows "ticks n s = Some (s\<lparr>remaining_ticks := remaining_ticks s - int n\<rparr>)"
  using assms
proof (induction n arbitrary: s)
  case (Suc n)
  let ?s = "s\<lparr>remaining_ticks := remaining_ticks s - 1\<rparr>"
  have "ticks n ?s = Some (?s\<lparr>remaining_ticks := remaining_ticks ?s - int n\<rparr>)"
    by (rule Suc.IH) (use Suc.prems in \<open>auto simp: int_ok_def\<close>)
  then show ?case using tick_running [of s] Suc.prems by (simp add: algebra_simps)
qed simp

lemma time_slice_step:
  assumes ok: "sched_ok s qs" and q: "qs Readyqueue = Some (t # ts)"
    and r: "remaining_ticks s = int (Suc n)" "int_ok (int (Suc n))"
  shows "\<exists>s'. ticks (Suc n) s = Some s' \<and> sched_ok s' (qs(Readyqueue \<mapsto> ts @ [cur s])) \<and>
    sched_frame s s' \<and> cur s' = t \<and> remaining_ticks s' = get_quantum t s \<and>
    (\<forall>r. r \<noteq> cur s \<longrightarrow> kernel_esp (task_of s' r) = kernel_esp (task_of s r))"
proof -
  let ?s = "s\<lparr>remaining_ticks := 1\<rparr>"
  have n: "ticks n s = Some ?s" using ticks_within [of s n] r by (simp add: algebra_simps)
  have ok': "sched_ok ?s qs" using ok by (simp add: sched_ok_remaining)
  obtain s' where s': "update_sched_data_rr ?s = Some (Switched, s')"
    "sched_ok s' (qs(Readyqueue \<mapsto> ts @ [cur s]))" "sched_frame ?s s'" "cur s' = t"
    "remaining_ticks s' = get_quantum t ?s"
    "\<forall>r. r \<noteq> cur s \<longrightarrow> kernel_esp (task_of s' r) = kernel_esp (task_of s r)"
    using tick_rotates [OF ok' q] by (auto simp: int_ok_def task_of_def)
  have "sched_frame s s'" using sched_frame_trans [OF sched_frame_remaining s'(3)] .
  then show ?thesis
    using s' n ticks_add [of n 1 s] by (auto simp: get_quantum_def)
qed

lemma get_quantum_frame: "sched_frame s s' \<Longrightarrow> get_quantum t s' = get_quantum t s"
  by (simp add: get_quantum_def sched_frame_def)

lemma int_ok_quantum [simp]: "int_ok (get_quantum t s)"
  using sint_range_size [of "quantum (task_of s t)"]
  by (simp add: get_quantum_def to_s32_def int_ok_def word_size)

text \<open>The number of ticks that the tasks \<open>ts\<close> may use in one turn each.\<close>

definition slices :: "kstate \<Rightarrow> nat list \<Rightarrow> nat" where
  "slices s ts = (\<Sum>t\<leftarrow>ts. nat (get_quantum t s))"

lemma slices_frame: "sched_frame s s' \<Longrightarrow> slices s' ts = slices s ts"
  by (simp add: slices_def get_quantum_frame)

lemma turns:
  assumes "sched_ok s qs" and "qs Readyqueue = Some (us @ t # ts)"
    and "\<And>u. u \<in> set us \<Longrightarrow> 0 < get_quantum u s"
    and "remaining_ticks s = int r" and "0 < r" and "int_ok (int r)"
  shows "\<exists>s'. ticks (r + slices s us) s = Some s' \<and>
    sched_ok s' (qs(Readyqueue \<mapsto> ts @ cur s # us)) \<and> sched_frame s s' \<and> cur s' = t \<and>
    remaining_ticks s' = get_quantum t s \<and>
    kernel_esp (task_of s' t) = kernel_esp (task_of s t)"
  using assms
proof (induction us arbitrary: s qs r ts)
  case Nil
  then have "Suc (r - 1) = r" by simp
  moreover have "r + slices s [] = r" by (simp add: slices_def)
  moreover have "t \<noteq> cur s"
    using sched_okD(7) [OF Nil(1)] queued_member [of qs Readyqueue "[] @ t # ts" t] Nil(2) by auto
  ultimately show ?case
    using time_slice_step [of s qs t ts "r - 1"] Nil by (simp only: append_Nil) blast
next
  case (Cons u us)
  obtain s1 where s1: "ticks r s = Some s1"
    "sched_ok s1 (qs(Readyqueue \<mapsto> us @ t # ts @ [cur s]))" "sched_frame s s1" "cur s1 = u"
    "remaining_ticks s1 = get_quantum u s"
    "\<forall>r. r \<noteq> cur s \<longrightarrow> kernel_esp (task_of s1 r) = kernel_esp (task_of s r)"
    using time_slice_step [of s qs u "us @ t # ts" "r - 1"] Cons.prems by auto
  have "t \<noteq> cur s"
    using sched_okD(7) [OF Cons.prems(1)] Cons.prems(2)
      queued_member [of qs Readyqueue "(u # us) @ t # ts" t] by auto
  then have esp: "kernel_esp (task_of s1 t) = kernel_esp (task_of s t)" using s1(6) by blast
  have pos: "0 < get_quantum u s" using Cons.prems(3) by simp
  define q where "q = nat (get_quantum u s)"
  have q: "remaining_ticks s1 = int q" "0 < q" "int_ok (int q)"
    using pos s1(5) by (simp_all add: q_def)
  have us: "0 < get_quantum v s1" if "v \<in> set us" for v
    using that Cons.prems(3) get_quantum_frame [OF s1(3)] by simp
  have "(qs(Readyqueue \<mapsto> us @ t # ts @ [cur s])) Readyqueue = Some (us @ t # ts @ [cur s])"
    by (rule fun_upd_same)
  from Cons.IH [OF s1(2) this us q] obtain s2 where s2: "ticks (q + slices s us) s1 = Some s2"
    "sched_ok s2 (qs(Readyqueue \<mapsto> ts @ cur s # u # us))" "sched_frame s1 s2" "cur s2 = t"
    "remaining_ticks s2 = get_quantum t s" "kernel_esp (task_of s2 t) = kernel_esp (task_of s1 t)"
    unfolding fun_upd_upd s1(4) slices_frame [OF s1(3)] get_quantum_frame [OF s1(3)]
      append_assoc append_Cons append_Nil by blast
  have "r + slices s (u # us) = r + (q + slices s us)" by (simp add: slices_def q_def)
  then have "ticks (r + slices s (u # us)) s = Some s2"
    using ticks_add [of r "q + slices s us" s] s1(1) s2(1) by simp
  then show ?case using s2(2,4-6) esp sched_frame_trans [OF s1(3) s2(3)]
    by (intro exI [of _ s2]) (simp del: fun_upd_apply)
qed

end
