(* ===== verification/SysSem.thy ===== *)
theory SysSem
  imports SchedTicks
begin

text \<open>
  The semaphores of \<open>sys.c\<close>. Each has a counter, an owner (\<open>-1\<close> when it is free) and a queue
  whose links are set up by \<open>sys_sem_init\<close>. The functional specifications are over the queues as
  sequences; they include the paths on which the code goes wrong: signalling or destroying a
  semaphore while a process waits for it.
\<close>

section \<open>The system calls\<close>

text \<open>Semaphore \<open>n\<close>, if it is in the array.\<close>

definition sem_in :: "int \<Rightarrow> nat option" where
  "sem_in n = (if 0 \<le> n \<and> n < int NR_SEMAPHORES then Some (nat n) else None)"

definition upd_sem :: "nat \<Rightarrow> (semaphore \<Rightarrow> semaphore) \<Rightarrow> kstate \<Rightarrow> kstate" where
  "upd_sem i f s = s\<lparr>semaphores := (semaphores s)(i := f (semaphores s i))\<rparr>"

definition sys_sem_init :: "int \<Rightarrow> DWord \<Rightarrow> kstate \<Rightarrow> (int \<times> kstate) option" where
  "sys_sem_init n_sem value s =
     (if n_sem < 0 \<or> int NR_SEMAPHORES \<le> n_sem then Some (- ENAVAIL, s)
      else let i = nat n_sem
           in if owner (semaphores s i) \<noteq> -1 then Some (- ENAVAIL, s)
              else let s = upd_sem i (\<lambda>x. x\<lparr>owner := PID (task_of s (cur s)), counter := to_s32 value\<rparr>) s
                   in do { h \<leftarrow> INIT_LIST_HEAD (Some (SemQueue i)) (lists s);
                           Some (0, s\<lparr>lists := h\<rparr>) })"

definition sys_sem_wait :: "int \<Rightarrow> kstate \<Rightarrow> (int outcome \<times> kstate) option" where
  "sys_sem_wait n_sem s =
     (if n_sem < 0 \<or> int NR_SEMAPHORES < n_sem then Some (Return (- ENAVAIL), s)
      else do { i \<leftarrow> sem_in n_sem;
                if 0 < counter (semaphores s i) then
                  Some (Return 0, upd_sem i (\<lambda>x. x\<lparr>counter := counter x - 1\<rparr>) s)
                else do { s \<leftarrow> update_process_state_rr (cur s) (Some (SemQueue i)) s;
                          s \<leftarrow> sched_next_rr (In_sem_wait n_sem) s;
                          Some (Switched, s) } })"

text \<open>The rest of \<open>sys_sem_wait\<close>, when the process runs again.\<close>

definition sem_wait_resumed :: "int \<Rightarrow> kstate \<Rightarrow> (int \<times> kstate) option" where
  "sem_wait_resumed n_sem s =
     do { i \<leftarrow> sem_in n_sem;
          if owner (semaphores s i) \<noteq> -1 then Some (0, s) else Some (- ENAVAIL, s) }"

definition sys_sem_signal :: "int \<Rightarrow> kstate \<Rightarrow> (int \<times> kstate) option" where
  "sys_sem_signal n_sem s =
     (if n_sem < 0 \<or> int NR_SEMAPHORES < n_sem then Some (- ENAVAIL, s)
      else do { i \<leftarrow> sem_in n_sem;
                e \<leftarrow> list_empty (Some (SemQueue i)) (lists s);
                if e then do { c \<leftarrow> c_int (counter (semaphores s i) + 1);
                               Some (0, upd_sem i (\<lambda>x. x\<lparr>counter := c\<rparr>) s) }
                else do { sem_list \<leftarrow> list_first (Some (SemQueue i)) (lists s);
                          h \<leftarrow> list_del sem_list (lists s);
                          let s = s\<lparr>lists := h\<rparr>;
                          nx \<leftarrow> list_first sem_list (lists s);
                          process_to_unlock \<leftarrow> list_head_to_task_struct nx;
                          s \<leftarrow> update_process_state_rr process_to_unlock (Some Readyqueue) s;
                          Some (0, s) } })"

text \<open>The loop of \<open>sys_sem_destroy\<close>; None also covers a run that does not end.\<close>

partial_function (option) release_all :: "lnode option \<Rightarrow> kstate \<Rightarrow> kstate option" where
  "release_all q s =
     do { e \<leftarrow> list_empty q (lists s);
          if e then Some s
          else do { process_blocked \<leftarrow> list_first q (lists s);
                    h \<leftarrow> list_del process_blocked (lists s);
                    t \<leftarrow> list_head_to_task_struct process_blocked;
                    s \<leftarrow> update_process_state_rr t (Some Readyqueue) (s\<lparr>lists := h\<rparr>);
                    release_all q s } }"

definition sys_sem_destroy :: "int \<Rightarrow> kstate \<Rightarrow> (int \<times> kstate) option" where
  "sys_sem_destroy n_sem s =
     (if n_sem < 0 \<or> int NR_SEMAPHORES < n_sem then Some (- ENAVAIL, s)
      else do { i \<leftarrow> sem_in n_sem;
                if PID (task_of s (cur s)) \<noteq> owner (semaphores s i) then Some (- ENAVAIL, s)
                else do { let s = upd_sem i (\<lambda>x. x\<lparr>owner := -1\<rparr>) s;
                          s \<leftarrow> release_all (Some (SemQueue i)) s;
                          Some (0, s) } })"

section \<open>What they do\<close>

lemma sem_in_nat [simp]: "i < 20 \<Longrightarrow> sem_in (int i) = Some i"
  by (simp add: sem_in_def)

lemma sem_in_out: "sem_in 20 = None"
  by (simp add: sem_in_def)

lemma upd_sem_frame [simp]:
  "lists (upd_sem i f s) = lists s" "cur (upd_sem i f s) = cur s"
  "task_of (upd_sem i f s) t = task_of s t" "idle_task (upd_sem i f s) = idle_task s"
  "semaphores (upd_sem i f s) j = (if j = i then f (semaphores s i) else semaphores s j)"
  by (simp_all add: upd_sem_def)

lemma sched_ok_upd_sem [simp]: "sched_ok (upd_sem i f s) qs = sched_ok s qs"
  by (simp add: sched_ok_def)

text \<open>The bounds checks let the number 20 through, which is not in the array.\<close>

lemma sem_bound_off_by_one:
  "sys_sem_wait 20 s = None" "sys_sem_signal 20 s = None" "sys_sem_destroy 20 s = None"
  by (simp_all add: sys_sem_wait_def sys_sem_signal_def sys_sem_destroy_def sem_in_out)

lemma sem_out_of_range:
  assumes "n < 0 \<or> 20 < n"
  shows "sys_sem_wait n s = Some (Return (-119), s)" "sys_sem_signal n s = Some (-119, s)"
    "sys_sem_destroy n s = Some (-119, s)" "sys_sem_init n v s = Some (-119, s)"
  using assms by (auto simp: sys_sem_wait_def sys_sem_signal_def sys_sem_destroy_def sys_sem_init_def)

text \<open>
  Initialising a free semaphore makes its queue empty, whatever was in it: a process that waits in the
  queue of a destroyed semaphore is in no queue any more.
\<close>

lemma sem_init_spec:
  assumes "i < 20" and "owner (semaphores s i) = -1" and ok: "sched_ok s qs"
  shows "\<exists>s'. sys_sem_init (int i) v s = Some (0, s') \<and> sched_ok s' (qs(SemQueue i \<mapsto> [])) \<and>
    s' = s\<lparr>semaphores := (semaphores s)(i := \<lparr>counter = to_s32 v, owner = PID (task_of s (cur s))\<rparr>),
      lists := lists s'\<rparr>"
proof -
  obtain h where h: "INIT_LIST_HEAD (Some (SemQueue i)) (lists s) = Some h"
    "dll h (SemQueue i) []" "\<And>p. p \<noteq> SemQueue i \<Longrightarrow> h p = lists s p"
    using dll_init [of "SemQueue i" "lists s"] dll_singleton_head [of "lists s" "SemQueue i"] by auto
  let ?s = "(upd_sem i (\<lambda>x. x\<lparr>owner := PID (task_of s (cur s)), counter := to_s32 v\<rparr>) s)\<lparr>lists := h\<rparr>"
  have q: "queues h (qs(SemQueue i \<mapsto> []))"
  proof (cases "qs (SemQueue i)")
    case None
    show ?thesis
      unfolding queues_def
    proof (intro conjI allI impI)
      fix q xs assume qx: "(qs(SemQueue i \<mapsto> [])) q = Some xs"
      show "is_head q" using qx sched_okD(1) [OF ok] by (auto simp: queues_def split: if_splits)
      show "dll h q (map TaskNode xs)"
      proof (cases "q = SemQueue i")
        case False
        with qx queues_dll [OF sched_okD(1) [OF ok], of q xs] h(3) show ?thesis
          by (subst dll_frame [of _ _ h "lists s"]) auto
      qed (use qx h(2) in simp)
    next
      fix q r xs ys
      assume "(qs(SemQueue i \<mapsto> [])) q = Some xs" "(qs(SemQueue i \<mapsto> [])) r = Some ys" "q \<noteq> r"
      then show "set xs \<inter> set ys = {}"
        using queues_disjoint [OF sched_okD(1) [OF ok]]
        by (cases "q = SemQueue i"; cases "r = SemQueue i") (simp_all, blast)
    qed
  next
    case (Some ws)
    then show ?thesis
      by (rule queues_update [OF sched_okD(1) [OF ok]]) (use h in auto)
  qed
  have sub: "queued (qs(SemQueue i \<mapsto> [])) \<subseteq> queued qs"
    by (auto simp: queued_def ran_def split: if_splits)
  have "sched_ok ?s (qs(SemQueue i \<mapsto> []))"
    using ok q sub unfolding sched_ok_def by (auto split: if_splits)
  moreover have "sys_sem_init (int i) v s = Some (0, ?s)"
    using assms(1,2) h(1) by (simp add: sys_sem_init_def Let_def)
  moreover have "?s = s\<lparr>semaphores := (semaphores s)
      (i := \<lparr>counter = to_s32 v, owner = PID (task_of s (cur s))\<rparr>), lists := lists ?s\<rparr>"
    by (cases "semaphores s i") (simp add: upd_sem_def)
  ultimately show ?thesis by blast
qed

lemma sem_wait_decrements:
  assumes "i < 20" and "0 < counter (semaphores s i)"
  shows "sys_sem_wait (int i) s =
    Some (Return 0, upd_sem i (\<lambda>x. x\<lparr>counter := counter x - 1\<rparr>) s)"
  using assms by (simp add: sys_sem_wait_def)

text \<open>A process that finds the counter at zero goes to the end of the queue, blocked.\<close>

lemma sem_wait_blocks:
  assumes "i < 20" and "counter (semaphores s i) \<le> 0" and ok: "sched_ok s qs"
    and q: "qs (SemQueue i) = Some ws" and busy: "idle_task s \<noteq> Some (cur s)"
  shows "\<exists>s'. sys_sem_wait (int i) s = Some (Switched, s') \<and>
    sched_ok s' (after_next (qs(SemQueue i \<mapsto> ws @ [cur s]))) \<and> sched_frame s s' \<and>
    cur s' = next_of s qs \<and> kernel_esp (task_of s' (cur s)) = Frames (In_sem_wait (int i))"
proof -
  obtain s' where s': "yield_to (SemQueue i) (In_sem_wait (int i)) s = Some s'"
    "sched_ok s' (after_next (qs(SemQueue i \<mapsto> ws @ [cur s])))" "sched_frame s s'"
    "cur s' = next_of s (qs(SemQueue i \<mapsto> ws @ [cur s]))"
    "kernel_esp (task_of s' (cur s)) = Frames (In_sem_wait (int i))"
    using yield_to_spec [OF ok q, of "In_sem_wait (int i)"] busy by auto
  moreover have "next_of s (qs(SemQueue i \<mapsto> ws @ [cur s])) = next_of s qs"
    by (simp add: next_of_def)
  moreover have "sys_sem_wait (int i) s = Some (Switched, s')"
    using s'(1) assms(1,2) by (auto simp: sys_sem_wait_def yield_to_def split: bind_splits)
  ultimately show ?thesis by metis
qed

lemma sem_signal_increments:
  assumes "i < 20" and "sched_ok s qs" and "qs (SemQueue i) = Some []"
    and "int_ok (counter (semaphores s i) + 1)"
  shows "sys_sem_signal (int i) s =
    Some (0, upd_sem i (\<lambda>x. x\<lparr>counter := counter (semaphores s i) + 1\<rparr>) s)"
  using assms queues_empty [OF sched_okD(1) [OF assms(2)] assms(3)]
  by (simp add: sys_sem_signal_def)

text \<open>
  With a process waiting, \<open>sys_sem_signal\<close> takes the first one out of the queue and then follows
  the link that taking it out has cleared.
\<close>

lemma list_del_head:
  assumes "sched_ok s qs" and "qs q = Some (w # ws)"
  obtains h where "list_empty (Some q) (lists s) = Some False"
    "list_first (Some q) (lists s) = Some (Some (TaskNode w))"
    "list_del (Some (TaskNode w)) (lists s) = Some h" "lnext (h (TaskNode w)) = None"
proof -
  note qs = sched_okD(1) [OF assms(1)]
  have "dll (lists s) q ([] @ TaskNode w # map TaskNode ws)"
    using queues_dll [OF qs assms(2)] by simp
  then obtain h where "list_del (Some (TaskNode w)) (lists s) = Some h"
    "lnext (h (TaskNode w)) = None" by (rule dll_del) simp
  with that queues_empty [OF qs assms(2)] queues_first [OF qs assms(2)] show ?thesis by simp
qed

lemma sem_signal_waiting:
  assumes "i < 20" and "sched_ok s qs" and "qs (SemQueue i) = Some (w # ws)"
  shows "sys_sem_signal (int i) s = None"
proof -
  obtain h where "list_empty (Some (SemQueue i)) (lists s) = Some False"
    "list_first (Some (SemQueue i)) (lists s) = Some (Some (TaskNode w))"
    "list_del (Some (TaskNode w)) (lists s) = Some h" "lnext (h (TaskNode w)) = None"
    by (rule list_del_head [OF assms(2,3)])
  with assms(1) show ?thesis by (simp add: sys_sem_signal_def list_first_def get_next_def)
qed

lemma sem_destroy_idle:
  assumes "i < 20" and "sched_ok s qs" and "qs (SemQueue i) = Some []"
    and "owner (semaphores s i) = PID (task_of s (cur s))"
  shows "sys_sem_destroy (int i) s = Some (0, upd_sem i (\<lambda>x. x\<lparr>owner := -1\<rparr>) s)"
  using assms queues_empty [OF sched_okD(1) [OF assms(2)] assms(3)]
  by (simp add: sys_sem_destroy_def release_all.simps)

text \<open>
  \<open>sys_sem_destroy\<close> unlinks the first waiting process, and \<open>update_process_state_rr\<close> unlinks it
  again because its state is not \<open>ST_RUN\<close>.
\<close>

lemma sem_destroy_waiting:
  assumes "i < 20" and "sched_ok s qs" and "qs (SemQueue i) = Some (w # ws)"
    and "owner (semaphores s i) = PID (task_of s (cur s))"
  shows "sys_sem_destroy (int i) s = None"
proof -
  obtain h where h: "list_empty (Some (SemQueue i)) (lists s) = Some False"
    "list_first (Some (SemQueue i)) (lists s) = Some (Some (TaskNode w))"
    "list_del (Some (TaskNode w)) (lists s) = Some h" "lnext (h (TaskNode w)) = None"
    by (rule list_del_head [OF assms(2,3)])
  have "state (task_of s w) = ST_BLOCKED"
    by (rule sched_ok_blocked [OF assms(2,3)]) simp_all
  then have "update_process_state_rr w d ((upd_sem i f s)\<lparr>lists := h\<rparr>) = None" for d f
    by (intro update_process_unlinked) (simp_all add: h(4))
  with assms(1,4) h show ?thesis by (simp add: sys_sem_destroy_def release_all.simps)
qed

section \<open>A semaphore nobody waits for\<close>

text \<open>
  The counter as the contract of the semaphore: waiting takes one, signalling gives one. The calls
  of the processes on one semaphore follow it as long as no wait finds it at zero.
\<close>

datatype sem_op = Wait | Signal

fun sem_spec :: "sem_op list \<Rightarrow> int \<Rightarrow> int option" where
  "sem_spec [] c = Some c"
| "sem_spec (Wait # ops) c = (if 0 < c then sem_spec ops (c - 1) else None)"
| "sem_spec (Signal # ops) c = (if c < 2147483647 then sem_spec ops (c + 1) else None)"

fun sem_run :: "int \<Rightarrow> sem_op list \<Rightarrow> kstate \<Rightarrow> kstate option" where
  "sem_run n [] s = Some s"
| "sem_run n (Wait # ops) s =
     do { (r, s) \<leftarrow> sys_sem_wait n s; if r = Return 0 then sem_run n ops s else None }"
| "sem_run n (Signal # ops) s =
     do { (r, s) \<leftarrow> sys_sem_signal n s; if r = 0 then sem_run n ops s else None }"

lemma sem_spec_nonneg: "sem_spec ops c = Some d \<Longrightarrow> 0 \<le> c \<Longrightarrow> 0 \<le> d"
  by (induction ops c rule: sem_spec.induct) (auto split: if_splits)

lemma upd_sem_twice: "upd_sem i g (upd_sem i f s) = upd_sem i (\<lambda>x. g (f x)) s"
  by (simp add: upd_sem_def)

lemma sem_run_counts:
  assumes "i < 20" and "sched_ok s qs" and "qs (SemQueue i) = Some []"
    and "0 \<le> counter (semaphores s i)" and "sem_spec ops (counter (semaphores s i)) = Some c"
  shows "sem_run (int i) ops s = Some (upd_sem i (\<lambda>x. x\<lparr>counter := c\<rparr>) s)"
  using assms(2-)
proof (induction ops arbitrary: s)
  case Nil
  have "(semaphores s i)\<lparr>counter := counter (semaphores s i)\<rparr> = semaphores s i" by simp
  with Nil show ?case by (simp add: upd_sem_def fun_upd_idem)
next
  case (Cons op ops)
  show ?case
  proof (cases op)
    case Wait
    let ?s = "upd_sem i (\<lambda>x. x\<lparr>counter := counter x - 1\<rparr>) s"
    have pos: "0 < counter (semaphores s i)" using Cons.prems(4) Wait by (simp split: if_splits)
    have "sem_run (int i) ops ?s = Some (upd_sem i (\<lambda>x. x\<lparr>counter := c\<rparr>) ?s)"
      by (rule Cons.IH) (use Cons.prems pos Wait in simp_all)
    then show ?thesis using sem_wait_decrements [OF assms(1) pos] Wait by (simp add: upd_sem_twice)
  next
    case Signal
    let ?s = "upd_sem i (\<lambda>x. x\<lparr>counter := counter (semaphores s i) + 1\<rparr>) s"
    have low: "counter (semaphores s i) < 2147483647" using Cons.prems(4) Signal by (simp split: if_splits)
    then have ok: "int_ok (counter (semaphores s i) + 1)" using Cons.prems(3) by (simp add: int_ok_def)
    have "sem_run (int i) ops ?s = Some (upd_sem i (\<lambda>x. x\<lparr>counter := c\<rparr>) ?s)"
      by (rule Cons.IH) (use Cons.prems low Signal in simp_all)
    then show ?thesis using sem_signal_increments [OF assms(1) Cons.prems(1,2) ok] Signal
      by (simp add: upd_sem_twice)
  qed
qed

end
