(* ===== verification/Samples.thy ===== *)
theory Samples
  imports BootProps SysSem
begin

text \<open>
  Concrete states on which the properties are instantiated: the state in which the first user
  process starts, for a fixed placement of the kernel's objects, and the states reached from it by
  system calls.
\<close>

definition sample_syms :: symbols where
  "sample_syms = \<lparr>protected_tasks_at = 0x20000, dir_pages_at = 0x40000, pagusr_table_at = 0x60000,
     ret_from_fork_at = 0x11000, cpu_idle_at = 0x12000,
     syscall_ret_at = 0x13000\<rparr>"

lemma sample_syms_ok: "symbols_ok sample_syms"
  by (simp add: sample_syms_def symbols_ok_def)

definition sample_loaded :: kstate where
  "sample_loaded = loaded sample_syms (\<lambda>_. 0) (\<lambda>_ _. 0)"

definition sample :: kstate where
  "sample = enter_user (the (init_kernel (replicate 4096 0) sample_loaded))"

lemma sample_first: "first_process sample"
  and sample_y: "syms sample = sample_syms"
proof -
  obtain s where "init_kernel (replicate 4096 0) sample_loaded = Some s"
    "first_process (enter_user s)" "syms s = sample_syms"
    using kernel_boots_lemma [OF sample_syms_ok fresh_loaded, of "replicate 4096 0" "\<lambda>_. 0" "\<lambda>_ _. 0"]
    unfolding sample_loaded_def by auto
  then show "first_process sample" "syms sample = sample_syms"
    by (simp_all add: sample_def enter_user_def)
qed

lemma sample_loaded_screen: "on_screen sample_loaded"
  by (simp add: on_screen_def sample_loaded_def loaded_def)

lemma sample_loaded_syms: "syms sample_loaded = sample_syms"
  by (simp add: sample_loaded_def loaded_def)

text \<open>After the first process forked: process 14 is ready in task 7.\<close>

definition forked_queues :: queue_map where
  "forked_queues = first_queues(Freequeue \<mapsto> [6, 5, 4, 3, 2, 1, 0], Readyqueue \<mapsto> [7])"

definition sample_forked :: kstate where
  "sample_forked = snd (the (sys_fork sample))"

lemma sample_fork: "sys_fork sample = Some (14, sample_forked)"
  and sample_forked_ok: "sched_ok sample_forked forked_queues"
  and sample_forked_tasks: "\<And>t. t \<noteq> 7 \<Longrightarrow> tasks sample_forked t = tasks sample t"
  and sample_forked_quantum: "quantum (task_of sample_forked 7) = 300"
  and sample_forked_frame: "call_frame sample sample_forked"
  and sample_forked_pid: "PID (task_of sample_forked 7) = 14"
proof -
  have f: "fork_ready sample first_queues 1 2 7 [6, 5, 4, 3, 2, 1, 0] [] 284"
    by (rule first_fork_ready [OF sample_first])
  have "to_s32 (nextPid sample + 1) = 14" "cur sample = 8" "quantum (task_of sample 8) = 300"
    using sample_first by (simp_all add: first_process_def to_s32_small)
  then obtain s' where "sys_fork sample = Some (14, s')"
    "sched_ok s' (first_queues(Freequeue \<mapsto> [6, 5, 4, 3, 2, 1, 0], Readyqueue \<mapsto> [] @ [7]))"
    "\<And>t. t \<noteq> 7 \<Longrightarrow> tasks s' t = tasks sample t" "quantum (task_of s' 7) = 300"
    "call_frame sample s'" "PID (task_of s' 7) = 14"
    using fork_works [OF f] by fastforce
  then show "sys_fork sample = Some (14, sample_forked)" "sched_ok sample_forked forked_queues"
    "\<And>t. t \<noteq> 7 \<Longrightarrow> tasks sample_forked t = tasks sample t" "quantum (task_of sample_forked 7) = 300"
    "call_frame sample sample_forked" "PID (task_of sample_forked 7) = 14"
    by (simp_all add: sample_forked_def forked_queues_def)
qed

text \<open>The first data page of the first process is mapped.\<close>

lemma user_region_less: "user_region s va n \<Longrightarrow> m \<le> n \<Longrightarrow> user_region s va m"
  by (auto simp: user_region_def inj_on_def)

lemma sample_region: "n \<le> 4096 \<Longrightarrow> user_region sample 0x108000 n"
proof (rule user_region_less)
  have f: "frame_of sample 1 264 = 328"
    using sample_first by (simp add: first_process_def frame_of_def user_row_def frame_of_user_entry)
  have "in_space sample 1" "pagusr_table sample 1 264 = user_entry True 328"
    using sample_first by (simp_all add: first_process_def user_row_def)
  moreover from this have "get_present (pagusr_table sample 1 264) = 1"
    by (simp add: user_entry_def Let_def)
  ultimately have "user_region sample (of_nat (264 * 4096)) 4096"
    using page_region [of sample 1 264] f by simp
  then show "user_region sample 0x108000 4096" by simp
qed

text \<open>
  A semaphore with a process waiting: after the fork the father initialises semaphore 3 with 0, the
  child gets the processor and waits for it, and the father runs again.
\<close>

definition sem_queues :: queue_map where
  "sem_queues = forked_queues(SemQueue 3 \<mapsto> [])"

definition child_queues :: queue_map where
  "child_queues = sem_queues(Readyqueue \<mapsto> [8])"

definition waiting_queues :: queue_map where
  "waiting_queues = sem_queues(Readyqueue \<mapsto> [], SemQueue 3 \<mapsto> [7])"

lemma sample_owner: "i < 20 \<Longrightarrow> owner (semaphores sample_forked i) = -1"
  using sample_forked_frame sample_first by (simp add: call_frame_def first_process_def)

lemma sample_cur: "cur sample_forked = 8" "remaining_ticks sample_forked = 300"
    "idle_task sample_forked = Some 9"
  using sample_forked_frame sample_first by (simp_all add: call_frame_def first_process_def)

lemma sample_pids: "PID (task_of sample_forked 8) = 1" "PID (task_of sample_forked 9) = 0"
  using sample_forked_tasks [of 8] sample_forked_tasks [of 9] sample_first
  by (simp_all add: first_process_def task_of_def)

definition sample_sem :: kstate where
  "sample_sem = snd (the (sys_sem_init 3 0 sample_forked))"

lemma sample_sem_ok: "sched_ok sample_sem sem_queues"
  and sample_sem_init: "sys_sem_init 3 0 sample_forked = Some (0, sample_sem)"
  and sample_sem_eq: "sample_sem = sample_forked
    \<lparr>semaphores := (semaphores sample_forked)(3 := \<lparr>counter = 0, owner = 1\<rparr>), lists := lists sample_sem\<rparr>"
proof -
  have "forked_queues (SemQueue 3) = None"
    by (simp add: forked_queues_def first_queues_def boot_queues_def)
  then obtain s' where "sys_sem_init 3 0 sample_forked = Some (0, s')"
    "sched_ok s' sem_queues"
    "s' = sample_forked\<lparr>semaphores := (semaphores sample_forked)(3 := \<lparr>counter = 0, owner = 1\<rparr>),
      lists := lists s'\<rparr>"
    using sem_init_spec [of 3 sample_forked forked_queues 0] sample_owner [of 3] sample_forked_ok
    by (auto simp: sem_queues_def [symmetric] sample_cur sample_pids to_s32_small)
  then show "sched_ok sample_sem sem_queues"
    "sys_sem_init 3 0 sample_forked = Some (0, sample_sem)"
    "sample_sem = sample_forked\<lparr>semaphores := (semaphores sample_forked)(3 := \<lparr>counter = 0, owner = 1\<rparr>),
      lists := lists sample_sem\<rparr>"
    by (simp_all add: sample_sem_def)
qed

lemma sample_sem_frame: "cur sample_sem = 8" "remaining_ticks sample_sem = 300"
    "idle_task sample_sem = Some 9" "task_of sample_sem t = task_of sample_forked t"
    "semaphores sample_sem 3 = \<lparr>counter = 0, owner = 1\<rparr>"
  by (subst sample_sem_eq; simp add: sample_cur task_of_def)+

definition sample_child :: kstate where
  "sample_child = the (ticks 300 sample_sem)"

lemma sample_child: "ticks 300 sample_sem = Some sample_child"
    "sched_ok sample_child child_queues"
    "sched_frame sample_sem sample_child" "cur sample_child = 7"
proof -
  have "sem_queues Readyqueue = Some [7]" by (simp add: sem_queues_def forked_queues_def)
  from time_slice_step [OF sample_sem_ok this, of 299] obtain s' where "ticks 300 sample_sem = Some s'"
    "sched_ok s' child_queues"
    "sched_frame sample_sem s'" "cur s' = 7"
    by (auto simp: child_queues_def [symmetric] sample_sem_frame int_ok_def)
  then show "ticks 300 sample_sem = Some sample_child"
    "sched_ok sample_child child_queues"
    "sched_frame sample_sem sample_child" "cur sample_child = 7"
    by (simp_all add: sample_child_def)
qed

definition sample_waiting :: kstate where
  "sample_waiting = snd (the (sys_sem_wait 3 sample_child))"

lemma sample_waiting: "sys_sem_wait 3 sample_child = Some (Switched, sample_waiting)"
    "sched_ok sample_waiting waiting_queues" "sched_frame sample_child sample_waiting"
    "cur sample_waiting = 8"
proof -
  let ?qs = child_queues
  have fr: "semaphores sample_child = semaphores sample_sem" "idle_task sample_child = Some 9"
    using sample_child(3) by (simp_all add: sched_frame_def sample_sem_frame)
  have qs: "after_next (?qs(SemQueue 3 \<mapsto> [7])) = waiting_queues" "next_of s ?qs = 8" for s
    by (simp_all add: after_next_def next_of_def child_queues_def waiting_queues_def fun_upd_twist)
  have "\<exists>s'. sys_sem_wait (int 3) sample_child = Some (Switched, s') \<and>
      sched_ok s' (after_next (?qs(SemQueue 3 \<mapsto> [] @ [cur sample_child]))) \<and>
      sched_frame sample_child s' \<and> cur s' = next_of sample_child ?qs \<and>
      kernel_esp (task_of s' (cur sample_child)) = Frames (In_sem_wait (int 3))"
    by (rule sem_wait_blocks [OF _ _ sample_child(2)])
      (simp_all add: fr sample_sem_frame sample_child(4) child_queues_def sem_queues_def)
  then obtain s' where "sys_sem_wait 3 sample_child = Some (Switched, s')"
    "sched_ok s' waiting_queues" "sched_frame sample_child s'" "cur s' = 8"
    unfolding sample_child(4) append_Nil qs by auto
  then show "sys_sem_wait 3 sample_child = Some (Switched, sample_waiting)"
    "sched_ok sample_waiting waiting_queues" "sched_frame sample_child sample_waiting"
    "cur sample_waiting = 8"
    by (simp_all add: sample_waiting_def)
qed

lemma sample_waiting_owner: "owner (semaphores sample_waiting 3) = PID (task_of sample_waiting 8)"
  using sample_waiting(3) sample_child(3) by (simp add: sched_frame_def sample_sem_frame sample_pids)

end
