(* ===== verification/BaseTheorems.thy ===== *)
theory BaseTheorems
  imports Samples
begin

text \<open>
  The properties of the components that do not depend on the tasks: the lists, the ring buffer,
  the frames, the division, the user pointer check, the page table entries and the screen.
\<close>

section \<open>Lists\<close>

text \<open>
  C30: A list that was initialised with \<open>INIT_LIST_HEAD\<close> and filled with \<open>list_add_tail\<close> gives its
  nodes back, through \<open>list_first\<close> and \<open>list_del\<close>, in the order they were added, and is empty then.
\<close>

theorem list_is_fifo:
  assumes "distinct ys" and "q \<notin> set ys"
  shows "\<exists>h0 h1 h2. INIT_LIST_HEAD (Some q) h = Some h0 \<and> enqueue_all ys (Some q) h0 = Some h1 \<and>
    dequeue_n (length ys) (Some q) h1 = Some (ys, h2) \<and> list_empty (Some q) h2 = Some True"
proof -
  obtain h0 where h0: "INIT_LIST_HEAD (Some q) h = Some h0" "dll h0 q []"
    using dll_init [of q h] dll_singleton_head [of h q] by metis
  obtain h1 where h1: "enqueue_all ys (Some q) h0 = Some h1" "dll h1 q (ys @ [])"
    using enqueue_all_dll [OF h0(2) assms(1)] assms(2) by auto
  obtain h2 where h2: "dequeue_n (length ys) (Some q) h1 = Some (ys, h2)" "dll h2 q []"
    using dequeue_n_dll [OF h1(2)] by blast
  have "list_empty (Some q) h2 = Some True" using klist.isempty_spec [OF h2(2)] by simp
  with h0(1) h1(1) h2(1) show ?thesis by blast
qed

theorem list_is_fifo_witness:
  "\<exists>h0 h1 h2. INIT_LIST_HEAD (Some 0) (\<lambda>_. \<lparr>lnext = None, lprev = None\<rparr>) = Some h0 \<and>
    enqueue_all [3, 1, 2 :: nat] (Some 0) h0 = Some h1 \<and>
    dequeue_n (length [3, 1, 2 :: nat]) (Some 0) h1 = Some ([3, 1, 2], h2) \<and>
    list_empty (Some 0) h2 = Some True"
  by (rule list_is_fifo) simp_all

text \<open>
  \<open>list_del\<close> takes any node out of a well-formed list, keeps the order of the others, clears
  the links of the node, and touches no node outside the list.
\<close>

theorem list_del_removes:
  assumes "dll h q (xs @ x # ys)"
  shows "\<exists>h'. list_del (Some x) h = Some h' \<and> dll h' q (xs @ ys) \<and>
    h' x = \<lparr>lnext = None, lprev = None\<rparr> \<and> (\<forall>p. p \<notin> insert q (set (xs @ x # ys)) \<longrightarrow> h' p = h p)"
  by (rule dll_del [OF assms]) blast

theorem list_del_removes_witness:
  "\<exists>h h'. list_del (Some 1) h = Some h' \<and> dll h' (0 :: nat) [] \<and> lnext (h' 1) = None"
proof -
  obtain h where "dll h (0 :: nat) ([] @ [1])"
    by (rule dll_add_tail [OF dll_singleton_head [of "\<lambda>_. \<lparr>lnext = None, lprev = None\<rparr>" "0 :: nat"], of 1]) auto
  then have "dll h (0 :: nat) ([] @ 1 # [])" by simp
  from list_del_removes [OF this] obtain h' where "list_del (Some 1) h = Some h'"
    "dll h' (0 :: nat) ([] @ [])" "h' 1 = \<lparr>lnext = None, lprev = None\<rparr>" by blast
  then show ?thesis by (intro exI [of _ h] exI [of _ h']) simp
qed

section \<open>The ring buffer\<close>

text \<open>
  C26: Every sequence of \<open>circular_buf_put\<close> and \<open>circular_buf_read\<close> on a well-formed ring answers
  like a bounded FIFO of capacity \<open>size - 1\<close>: the same return codes, the same characters in the
  same order, and the same contents afterwards.
\<close>

theorem ring_refines_fifo:
  assumes "cb_ok b"
  shows "\<exists>b'. fifo_run circular_buf_put circular_buf_read ops b
      = Some (fst (fifo_spec (capacity b) ops (contents b)), b') \<and>
    cb_ok b' \<and> contents b' = snd (fifo_spec (capacity b) ops (contents b)) \<and>
    capacity b' = capacity b"
  by (rule ring.run_refines [OF assms])

theorem ring_refines_fifo_witness:
  "\<exists>b b'. circular_buffer_init [0, 0, 0, 0] 4 = Some b \<and>
    fifo_run circular_buf_put circular_buf_read [Put 7, Put 8, Put 9, Put 10, Get, Get] b
      = Some ([PutRet 0, PutRet 0, PutRet 0, PutRet (-1), GetRet 0 (Some 7), GetRet 0 (Some 8)], b') \<and>
    contents b' = [9]"
proof -
  obtain b where b: "circular_buffer_init [0, 0, 0, 0] 4 = Some b" "cb_ok b" "contents b = []"
    "capacity b = 3"
    using init_ok [of 4 "[0, 0, 0, 0]"] by auto
  from ring_refines_fifo [OF b(2), of "[Put 7, Put 8, Put 9, Put 10, Get, Get]"] b show ?thesis
    by (auto simp: eval_nat_numeral)
qed

section \<open>Frames\<close>

text \<open>
  C31: The allocation loop of \<open>sys_fork\<close> and \<open>sys_sbrk\<close>, with enough available frames, returns
  distinct available frames, marks exactly these as used and leaves every other mark.
\<close>

theorem alloc_frames_enough:
  assumes "n \<le> card (avail pm)"
  shows "\<exists>gs. alloc_frames n pm = (Some (map int gs), \<lambda>f. if f \<in> set gs then USED_FRAME else pm f) \<and>
    length gs = n \<and> distinct gs \<and> set gs \<subseteq> avail pm"
  by (rule alloc_frames_succeeds [OF assms])

theorem alloc_frames_enough_witness:
  "\<exists>gs. alloc_frames 1 (init_frames (\<lambda>_. 0))
      = (Some (map int gs), \<lambda>f. if f \<in> set gs then USED_FRAME else init_frames (\<lambda>_. 0) f) \<and>
    length gs = 1 \<and> distinct gs \<and> set gs \<subseteq> avail (init_frames (\<lambda>_. 0))"
proof (rule alloc_frames_enough)
  have "{256} \<subseteq> avail (init_frames (\<lambda>_. 0))" by (simp add: avail_init)
  from card_mono [OF finite_avail this] show "1 \<le> card (avail (init_frames (\<lambda>_. 0)))" by simp
qed

text \<open>
  C32: Without enough frames, and with frame 256 not available, the loop gives back what it took: it
  reports the failure and every mark is as before. The condition on frame 256 is needed, because
  \<open>free_frame\<close> refuses this frame: taken in vain, it would stay marked.
\<close>

theorem alloc_frames_rollback:
  assumes "card (avail pm) < n" and "256 \<notin> avail pm"
  shows "alloc_frames n pm = (None, pm)"
  by (rule alloc_frames_fails [OF assms])

theorem alloc_frames_rollback_witness: "alloc_frames 2 (\<lambda>f. if f = 300 then 0 else 1)
    = (None, \<lambda>f. if f = 300 then 0 else 1)"
proof (rule alloc_frames_rollback)
  have "avail (\<lambda>f. if f = 300 then 0 else 1) = {300}" by (auto simp: avail_def split: if_splits)
  then show "card (avail (\<lambda>f. if f = 300 then 0 else 1)) < 2" by simp
qed (simp add: avail_def)

lemma free_frame_refuses_256: "free_frame 256 pm = pm"
  by (simp add: free_frame_def)

section \<open>Ticks\<close>

text \<open>
  C33: The macro \<open>do_div\<close>, with its 32-bit divisions, computes quotient and remainder of the 64-bit
  dividend for every nonzero divisor; the \<open>divl\<close> instruction in it never traps.
\<close>

theorem do_div_is_division:
  assumes "base \<noteq> 0"
  shows "\<exists>md q. do_div n base = Some (md, q) \<and> unat q = unat n div unat base \<and>
    unat md = unat n mod unat base"
  by (rule do_div_spec [OF assms])

theorem do_div_is_division_witness:
  "\<exists>md q. do_div 0x123456789ABC 109000 = Some (md, q) \<and>
    unat q = 0x123456789ABC div 109000 \<and> unat md = 0x123456789ABC mod 109000"
  using do_div_is_division [of 109000 "0x123456789ABC"] by simp

text \<open>
  \<open>get_ticks\<close> returns the low 32 bits of the time stamp counter divided by 109000, for every
  value of the counter.
\<close>

theorem get_ticks_divides:
  "get_ticks eax edx = Some (of_nat ((unat edx * 4294967296 + unat eax) div 109000))"
  by (rule get_ticks_spec)

section \<open>User pointers\<close>

text \<open>
  C36: For sizes up to \<open>2 ^ 31 - 1\<close>, \<open>access_ok\<close> accepts a block exactly when it starts at or above
  0x100000 and ends below 0x11D000. That window is the code and data pages, which end at 0x11C000, and
  one page more behind them; the type of access makes no difference, and the code pages are accepted
  for writing.
\<close>

theorem access_ok_window:
  assumes "unat sz \<le> 2147483647"
  shows "access_ok type addr sz = 1 \<longleftrightarrow> 1048576 \<le> unat addr \<and> unat addr + unat sz < 1167360"
  by (rule access_ok_range [OF assms])

theorem access_ok_window_witness:
  "access_ok VERIFY_WRITE 0x100000 4 = 1 \<and> access_ok VERIFY_READ 0x11CFFF 0 = 1 \<and>
    access_ok VERIFY_READ 0xFFFFF 1 \<noteq> 1"
  using access_ok_window [of 4 VERIFY_WRITE "0x100000"] access_ok_window [of 0 VERIFY_READ "0x11CFFF"]
    access_ok_window [of 1 VERIFY_READ "0xFFFFF"] by simp

section \<open>Page table entries\<close>

text \<open>
  C37: A table row keeps what \<open>set_ss_pag\<close> stores: reading the frame back gives the low 20 bits of
  what was stored, the page is present, writable and accessible to the user, no other entry of any
  table changes, and \<open>del_ss_pag\<close> restores an entry that was empty before.
\<close>

theorem set_ss_pag_roundtrip:
  assumes "i < 10" and "unat p < 1024"
  shows "\<exists>s'. set_ss_pag (pt_addr (syms s) i) p f s = Some s' \<and>
    get_frame (pt_addr (syms s) i) p s' = Some (take_bit 20 f) \<and>
    get_present (pagusr_table s' i (unat p)) = 1 \<and> get_rw (pagusr_table s' i (unat p)) = 1 \<and>
    get_user (pagusr_table s' i (unat p)) = 1 \<and>
    (\<forall>q k. (q, k) \<noteq> (i, unat p) \<longrightarrow> pagusr_table s' q k = pagusr_table s q k) \<and>
    (pagusr_table s i (unat p) = 0 \<longrightarrow> del_ss_pag (pt_addr (syms s) i) p s' = Some s)"
proof -
  have "upd_pte i (unat p) 0 (upd_pte i (unat p) e s) = s" if "pagusr_table s i (unat p) = 0" for e
    using that by (simp add: upd_pte_def fun_upd_idem)
  then show ?thesis
    using assms by (auto simp: set_ss_pag_def del_ss_pag_def get_frame_def get_entry_def)
qed

theorem set_ss_pag_roundtrip_witness:
  "\<exists>s'. set_ss_pag (pt_addr sample_syms 3) 300 512 sample_loaded = Some s' \<and>
    get_frame (pt_addr sample_syms 3) 300 s' = Some 512"
  using set_ss_pag_roundtrip [of 3 300 sample_loaded 512] by (auto simp: sample_loaded_syms)

section \<open>The screen\<close>

text \<open>
  C38: With the cursor on the screen, \<open>printc\<close> keeps it there: a newline moves to the start of the
  next row, any other character goes into the cell under the cursor, in green, and the cursor
  advances one cell, from the last cell of the screen to the first; no other cell changes.
\<close>

theorem printc_on_screen:
  assumes "on_screen s"
  shows "on_screen (printc c s) \<and> port_e9 (printc c s) = port_e9 s @ [c] \<and>
    unat (scr_y (printc c s)) * 80 + unat (scr_x (printc c s)) =
      (if c = 10 then (unat (scr_y s) + 1) * 80
       else unat (scr_y s) * 80 + unat (scr_x s) + 1) mod 2000 \<and>
    (\<forall>col < 80. \<forall>row < 25. cell_at (printc c s) col row =
      (if c \<noteq> 10 \<and> col = unat (scr_x s) \<and> row = unat (scr_y s)
       then screen_cell c else cell_at s col row))"
  using printc_spec [OF assms] by simp

theorem printc_on_screen_witness:
  "on_screen (printc 65 sample_loaded) \<and> port_e9 (printc 65 sample_loaded) = [65] \<and>
    cell_at (printc 65 sample_loaded) 0 19 = 0x241"
  using printc_on_screen [OF sample_loaded_screen, of 65]
  by (simp add: sample_loaded_def loaded_def screen_cell_def)

text \<open>
  \<open>printc_xy\<close> writes its character at the given cell and leaves the cursor and every other cell.
\<close>

theorem printc_xy_keeps_cursor:
  assumes "unat mx < 80" and "unat my < 25"
  shows "scr_x (printc_xy mx my c s) = scr_x s \<and> scr_y (printc_xy mx my c s) = scr_y s \<and>
    (\<forall>col < 80. \<forall>row < 25. cell_at (printc_xy mx my c s) col row =
      (if c \<noteq> 10 \<and> col = unat mx \<and> row = unat my then screen_cell c else cell_at s col row))"
  using printc_xy_spec [OF assms, of c s] by blast

theorem printc_xy_keeps_cursor_witness:
  "scr_y (printc_xy 0 0 67 sample_loaded) = 19 \<and> cell_at (printc_xy 0 0 67 sample_loaded) 0 0 = 0x243"
  using printc_xy_keeps_cursor [of 0 0 67 sample_loaded]
  by (simp add: sample_loaded_def loaded_def screen_cell_def)

end
