(* ===== verification/KernelTheorems.thy ===== *)
theory KernelTheorems
  imports Samples
begin

text \<open>
  The properties of the task-related components: initialisation, process creation and termination,
  the scheduler, the semaphores, the heap and the console. Every property with a hypothesis is
  applied to the sample states.
\<close>

section \<open>Initialisation\<close>

text \<open>
  From a state with zeroed variables, as the loader leaves it, the initialisation of memory and scheduling succeeds and
  establishes the invariants of the kernel: the queues are well formed, task 8 runs as process 1 in
  its own address space with 28 mapped pages, task 9 is the idle task, in the directory that
  \<open>monoprocess_init_addr_space\<close> gave 28 pages, all other tasks are free.
\<close>

theorem kernel_boots:
  assumes "symbols_ok y" and "fresh y s0" and "length buff = 4096"
  shows "\<exists>s. init_kernel buff s0 = Some s \<and> first_process (enter_user s)"
  using kernel_boots_lemma [OF assms] by blast

theorem kernel_boots_witness:
  "\<exists>s. init_kernel (replicate 4096 0) sample_loaded = Some s \<and> first_process (enter_user s)"
  unfolding sample_loaded_def
  by (rule kernel_boots [OF sample_syms_ok fresh_loaded]) simp

section \<open>Processes\<close>

text \<open>
  C10: \<open>sys_fork\<close>, when it has a free task, 20 available frames, a free directory and a free entry in
  the father's page table, returns the new process number; the child is the last ready task, a copy
  of the father but for number, directory, statistics and the dynamic link; its kernel and code pages
  map the father's frames, its 20 data pages map fresh frames that hold the bytes of the father's;
  every other task, every other page table and every frame in use before are unchanged.
\<close>

theorem fork_copies_father:
  assumes "fork_ready s qs i j c fs rs k"
  shows "\<exists>s' gs. sys_fork s = Some (to_s32 (nextPid s + 1), s') \<and>
    sched_ok s' (qs(Freequeue \<mapsto> fs, Readyqueue \<mapsto> rs @ [c])) \<and>
    PID (task_of s' c) = to_s32 (nextPid s + 1) \<and> space s' c j \<and>
    quantum (task_of s' c) = quantum (task_of s (cur s)) \<and>
    stack (tasks s' c) = (stack (tasks s (cur s)))(1005 := 0, 1006 := ret_from_fork_at (syms s)) \<and>
    (\<forall>t. t \<noteq> c \<longrightarrow> tasks s' t = tasks s t) \<and>
    length gs = 20 \<and> distinct gs \<and> set gs \<subseteq> avail (phys_mem s) \<and>
    phys_mem s' = (\<lambda>f. if f \<in> set gs then 1 else phys_mem s f) \<and>
    child_table s i gs (pagusr_table s j) (pagusr_table s' j) \<and>
    (\<forall>q. q \<noteq> j \<longrightarrow> pagusr_table s' q = pagusr_table s q) \<and>
    pages_copied s i gs (ram s') \<and> call_frame s s'"
  using fork_works [OF assms] by blast

theorem fork_copies_father_witness:
  "\<exists>s' gs. sys_fork sample = Some (14, s') \<and> sched_ok s' forked_queues \<and> space s' 7 2 \<and>
    length gs = 20 \<and> pages_copied sample 1 gs (ram s')"
proof -
  have "to_s32 (nextPid sample + 1) = 14"
    using sample_first by (simp add: first_process_def to_s32_small)
  with fork_copies_father [OF first_fork_ready [OF sample_first]] show ?thesis
    by (auto simp: forked_queues_def)
qed

text \<open>
  When fewer than 20 frames are available (frame 256 not among them), \<open>sys_fork\<close> returns
  \<open>-ENOMEM\<close> and leaves the state as it was; with no free task it does so without trying.
\<close>

theorem fork_without_memory:
  assumes "sched_ok s qs" and "qs Freequeue = Some fs"
    and "fs = [] \<or> card (avail (phys_mem s)) < 20 \<and> 256 \<notin> avail (phys_mem s)"
  shows "sys_fork s = Some (-12, s)"
  by (rule fork_fails [OF assms])

theorem fork_without_memory_witness:
  "sys_fork (sample\<lparr>phys_mem := \<lambda>_. 1\<rparr>) = Some (-12, sample\<lparr>phys_mem := \<lambda>_. 1\<rparr>)"
proof (rule fork_without_memory)
  have "sched_ok sample first_queues" using sample_first by (simp only: first_process_def)
  then show "sched_ok (sample\<lparr>phys_mem := \<lambda>_. 1\<rparr>) first_queues" by (simp add: sched_ok_def)
  show "first_queues Freequeue = Some [7, 6, 5, 4, 3, 2, 1, 0]" by (simp add: first_queues_def)
  have "avail (\<lambda>_. 1) = {}" by (auto simp: avail_def)
  then show "[7, 6, 5, 4, 3, 2, 1, 0] = [] \<or>
    card (avail (phys_mem (sample\<lparr>phys_mem := \<lambda>_. 1\<rparr>))) < 20 \<and>
    256 \<notin> avail (phys_mem (sample\<lparr>phys_mem := \<lambda>_. 1\<rparr>))" by simp
qed

text \<open>
  C13: \<open>sys_clone\<close> makes a ready task in the same address space, whose saved user context is the
  caller's with the program counter replaced by the function and the stack pointer by the given
  stack; the directory has one reference more, and memory is untouched.
\<close>

theorem clone_shares_space:
  assumes "clone_ready s qs i c fs rs" and "access_ok VERIFY_WRITE st 4 = 1"
    and "access_ok VERIFY_READ fn 4 = 1"
  shows "\<exists>s'. sys_clone fn st s = Some (to_s32 (nextPid s + 1), s') \<and>
    sched_ok s' (qs(Freequeue \<mapsto> fs, Readyqueue \<mapsto> rs @ [c])) \<and> space s' c i \<and>
    dir_references s' = (dir_references s)(i := dir_references s i + 1) \<and>
    stack (tasks s' c) = (stack (tasks s (cur s)))
      (1005 := 0, 1006 := ret_from_fork_at (syms s), SLOT_eip := fn, SLOT_esp := st) \<and>
    (\<forall>t. t \<noteq> c \<longrightarrow> tasks s' t = tasks s t) \<and>
    pagusr_table s' = pagusr_table s \<and> ram s' = ram s \<and> phys_mem s' = phys_mem s"
  using clone_works [OF assms] by auto

theorem clone_shares_space_witness:
  "\<exists>s'. sys_clone 0x100000 0x110000 sample = Some (14, s') \<and> sched_ok s' forked_queues \<and>
    space s' 7 1 \<and> stack (tasks s' 7) SLOT_eip = 0x100000"
proof -
  have "clone_ready sample first_queues 1 7 [6, 5, 4, 3, 2, 1, 0] []"
    using sample_first by (simp add: clone_ready_def first_process_def first_queues_def
        boot_queues_def int_ok_def)
  moreover have "access_ok VERIFY_WRITE 0x110000 4 = 1" "access_ok VERIFY_READ 0x100000 4 = 1"
    by (simp_all add: access_ok_range)
  moreover have "to_s32 (nextPid sample + 1) = 14"
    using sample_first by (simp add: first_process_def to_s32_small)
  ultimately show ?thesis
    using clone_shares_space [of sample first_queues 1 7 "[6, 5, 4, 3, 2, 1, 0]" "[]" "0x110000" "0x100000"]
    by (auto simp: forked_queues_def)
qed

text \<open>
  C27: \<open>sys_exit\<close> puts the task at the end of the free queue, clears its process number, drops a
  reference of its directory and gives the processor to the next ready task; but the frames of the
  process and its page table stay as they are, even when the last reference is gone.
\<close>

theorem exit_frees_task_not_frames:
  assumes "sched_ok s qs" and "space s (cur s) i" and "qs Freequeue = Some fs"
    and "idle_task s \<noteq> Some (cur s)" and "int_ok (dir_references s i - 1)"
  shows "\<exists>s'. sys_exit s = Some (Switched, s') \<and>
    sched_ok s' (after_next (qs(Freequeue \<mapsto> fs @ [cur s]))) \<and> cur s' = next_of s qs \<and>
    PID (task_of s' (cur s)) = -1 \<and>
    dir_references s' = (dir_references s)(i := dir_references s i - 1) \<and>
    phys_mem s' = phys_mem s \<and> pagusr_table s' = pagusr_table s"
  using exit_works [OF assms] by blast

theorem exit_frees_task_not_frames_witness:
  "\<exists>s'. sys_exit sample = Some (Switched, s') \<and> cur s' = 9 \<and> dir_references s' 1 = 0 \<and>
    phys_mem s' = taken 56"
proof -
  have "\<exists>s'. sys_exit sample = Some (Switched, s') \<and>
    sched_ok s' (after_next (first_queues(Freequeue \<mapsto> [7, 6, 5, 4, 3, 2, 1, 0] @ [cur sample]))) \<and>
    cur s' = next_of sample first_queues \<and> PID (task_of s' (cur sample)) = -1 \<and>
    dir_references s' = (dir_references sample)(1 := dir_references sample 1 - 1) \<and>
    phys_mem s' = phys_mem sample \<and> pagusr_table s' = pagusr_table sample"
    by (rule exit_frees_task_not_frames)
      (use sample_first in \<open>auto simp: first_process_def first_queues_def int_ok_def\<close>)
  then show ?thesis
    using sample_first by (auto simp: first_process_def next_of_def first_queues_def boot_queues_def)
qed

section \<open>Scheduling\<close>

text \<open>
  A new task that is switched to for the first time goes on in \<open>ret_from_fork\<close>, with the stack
  pointer at the saved user context.
\<close>

theorem new_task_starts_in_ret_from_fork:
  assumes "kernel_esp (task_of s (cur s)) = Esp (stack_addr (syms s) (cur s) SLOT_ebp)"
    and "stack (tasks s (cur s)) SLOT_ret = ret_from_fork_at (syms s)"
  shows "switch_target s = Some (At_ret_from_fork 1007)"
  using dynamic_link_target [OF assms(1)] assms(2) by simp

theorem new_task_starts_in_ret_from_fork_witness:
  "switch_target (dynamic_link 8 sample) = Some (At_ret_from_fork 1007)"
  by (rule new_task_starts_in_ret_from_fork)
    (use sample_first in \<open>simp_all add: first_process_def\<close>)

text \<open>
  A running task keeps the processor for exactly the ticks it has left: before, every tick just
  counts down; with the last one the first ready task runs, with its full quantum, and the task that
  ran is the last ready one.
\<close>

theorem time_slice:
  assumes "sched_ok s qs" and "qs Readyqueue = Some (t # ts)" and "remaining_ticks s = int (Suc n)"
    and "int_ok (int (Suc n))"
  shows "(\<forall>k \<le> n. ticks k s = Some (s\<lparr>remaining_ticks := remaining_ticks s - int k\<rparr>)) \<and>
    (\<exists>s'. ticks (Suc n) s = Some s' \<and> sched_ok s' (qs(Readyqueue \<mapsto> ts @ [cur s])) \<and>
      sched_frame s s' \<and> cur s' = t \<and> remaining_ticks s' = get_quantum t s)"
proof (intro conjI allI impI)
  show "ticks k s = Some (s\<lparr>remaining_ticks := remaining_ticks s - int k\<rparr>)" if "k \<le> n" for k
    by (rule ticks_within) (use that assms(3,4) in simp_all)
qed (use time_slice_step [OF assms] in blast)

theorem time_slice_witness:
  "\<exists>s'. ticks 300 sample_forked = Some s' \<and> cur s' = 7 \<and> remaining_ticks s' = 300 \<and>
    (\<forall>k \<le> 299. \<exists>s'. ticks k sample_forked = Some s' \<and> cur s' = 8)"
proof -
  have f: "remaining_ticks sample_forked = 300" "cur sample_forked = 8"
    using sample_forked_frame sample_first by (simp_all add: call_frame_def first_process_def)
  have "get_quantum 7 sample_forked = 300"
    by (simp add: get_quantum_def sample_forked_quantum to_s32_small)
  then show ?thesis
    using time_slice [OF sample_forked_ok, of 7 "[]" 299] f
    by (auto simp: forked_queues_def int_ok_def)
qed

end
