(* ===== verification/CallTheorems.thy ===== *)
theory CallTheorems
  imports Samples
begin

text \<open>
  The properties of the round-robin policy over many ticks and of the system calls on semaphores,
  the heap, the console and the statistics, each applied to the sample states.
\<close>

section \<open>The policy over time\<close>

text \<open>
  C11: The ready tasks take turns in the order of the queue: when the running task has used its
  remaining ticks and each of the first ready tasks \<open>us\<close> its quantum, the next one, \<open>t\<close>, runs with
  its full quantum, and the others wait behind in the order in which they ran.
\<close>

theorem round_robin:
  assumes "sched_ok s qs" and "qs Readyqueue = Some (us @ t # ts)"
    and "\<And>u. u \<in> set us \<Longrightarrow> 0 < get_quantum u s"
    and "remaining_ticks s = int r" and "0 < r" and "int_ok (int r)"
  shows "\<exists>s'. ticks (r + slices s us) s = Some s' \<and>
    sched_ok s' (qs(Readyqueue \<mapsto> ts @ cur s # us)) \<and> sched_frame s s' \<and> cur s' = t \<and>
    remaining_ticks s' = get_quantum t s"
  using turns [OF assms] by blast

theorem round_robin_witness:
  "\<exists>s'. ticks 300 sample_sem = Some s' \<and> cur s' = 7 \<and> sched_ok s' (sem_queues(Readyqueue \<mapsto> [8]))"
proof -
  have "sem_queues Readyqueue = Some ([] @ 7 # [])" by (simp add: sem_queues_def forked_queues_def)
  from round_robin [OF sample_sem_ok this, of 300] show ?thesis
    by (auto simp: sample_sem_frame int_ok_def slices_def simp del: fun_upd_apply)
qed

text \<open>
  With no other ready task the running one goes on: a tick counts its quantum down and starts it
  again at the end, and nothing else changes.
\<close>

theorem tick_keeps_only_task:
  assumes "sched_ok s qs" and "qs Readyqueue = Some []" and "int_ok (remaining_ticks s - 1)"
  shows "update_sched_data_rr s =
    Some (Return (), s\<lparr>remaining_ticks := (if remaining_ticks s = 1 then get_quantum (cur s) s
                                          else remaining_ticks s - 1)\<rparr>)"
  by (rule tick_alone [OF sched_okD(1) [OF assms(1)] assms(2,3)])

theorem tick_keeps_only_task_witness:
  "update_sched_data_rr sample = Some (Return (), sample\<lparr>remaining_ticks := 299\<rparr>)"
proof -
  have "sched_ok sample first_queues" "remaining_ticks sample = 300"
    using sample_first by (simp_all only: first_process_def)
  with tick_keeps_only_task [of sample first_queues] show ?thesis
    by (simp add: int_ok_def first_queues_def boot_queues_def)
qed

section \<open>Semaphores\<close>

text \<open>
  \<open>sys_sem_init\<close> on a free semaphore gives it an empty queue, the counter and the caller as
  owner, and keeps the other queues. It does so whatever was in the queue: a process that waits for a
  destroyed semaphore is in no queue afterwards, and no operation can make it ready again.
\<close>

theorem sem_init_opens:
  assumes "i < 20" and "owner (semaphores s i) = -1" and "sched_ok s qs"
  shows "\<exists>s'. sys_sem_init (int i) v s = Some (0, s') \<and> sched_ok s' (qs(SemQueue i \<mapsto> [])) \<and>
    s' = s\<lparr>semaphores := (semaphores s)(i := \<lparr>counter = to_s32 v, owner = PID (task_of s (cur s))\<rparr>),
      lists := lists s'\<rparr>"
  by (rule sem_init_spec [OF assms])

theorem sem_init_opens_witness:
  "\<exists>s'. sys_sem_init 5 2 sample_waiting = Some (0, s') \<and> counter (semaphores s' 5) = 2 \<and>
    sched_ok s' (waiting_queues(SemQueue 5 \<mapsto> []))"
proof -
  have "owner (semaphores sample_waiting 5) = -1"
    using sample_waiting(3) sample_child(3) sample_owner [of 5]
    by (simp add: sched_frame_def) (subst sample_sem_eq, simp)
  then obtain s' where s': "sys_sem_init 5 2 sample_waiting = Some (0, s')"
    "sched_ok s' (waiting_queues(SemQueue 5 \<mapsto> []))"
    "s' = sample_waiting\<lparr>semaphores := (semaphores sample_waiting)
      (5 := \<lparr>counter = to_s32 2, owner = PID (task_of sample_waiting (cur sample_waiting))\<rparr>),
      lists := lists s'\<rparr>"
    using sem_init_opens [of 5 sample_waiting waiting_queues 2] sample_waiting(2)
    by (auto simp del: fun_upd_apply)
  have "semaphores s' = (semaphores sample_waiting)
      (5 := \<lparr>counter = 2, owner = PID (task_of sample_waiting (cur sample_waiting))\<rparr>)"
    by (subst (1) s'(3)) (simp add: to_s32_small)
  with s'(1,2) show ?thesis by auto
qed

text \<open>
  C29: As long as no wait finds the counter at zero, any sequence of waits and signals on a
  semaphore keeps the books: every call returns 0, and afterwards the counter is the initial one
  plus the signals minus the waits; nothing else changes.
\<close>

theorem sem_counts:
  assumes "i < 20" and "sched_ok s qs" and "qs (SemQueue i) = Some []"
    and "0 \<le> counter (semaphores s i)" and "sem_spec ops (counter (semaphores s i)) = Some c"
  shows "sem_run (int i) ops s = Some (upd_sem i (\<lambda>x. x\<lparr>counter := c\<rparr>) s)"
  by (rule sem_run_counts [OF assms])

theorem sem_counts_witness:
  "sem_run 3 [Signal, Wait, Signal, Signal] sample_sem
    = Some (upd_sem 3 (\<lambda>x. x\<lparr>counter := 2\<rparr>) sample_sem)"
proof -
  have "sem_queues (SemQueue 3) = Some []" by (simp add: sem_queues_def)
  from sem_counts [OF _ sample_sem_ok this, of "[Signal, Wait, Signal, Signal]" 2] show ?thesis
    by (simp add: sample_sem_frame)
qed

text \<open>
  C28: A process that waits for a semaphore at zero is blocked at the end of its queue, with its place
  in \<open>sys_sem_wait\<close> saved, and the next ready task, or the idle one, runs.
\<close>

theorem sem_wait_blocks_caller:
  assumes "i < 20" and "counter (semaphores s i) \<le> 0" and "sched_ok s qs"
    and "qs (SemQueue i) = Some ws" and "idle_task s \<noteq> Some (cur s)"
  shows "\<exists>s'. sys_sem_wait (int i) s = Some (Switched, s') \<and>
    sched_ok s' (after_next (qs(SemQueue i \<mapsto> ws @ [cur s]))) \<and> sched_frame s s' \<and>
    cur s' = next_of s qs \<and> kernel_esp (task_of s' (cur s)) = Frames (In_sem_wait (int i))"
  by (rule sem_wait_blocks [OF assms])

theorem sem_wait_blocks_caller_witness:
  "\<exists>s'. sys_sem_wait 3 sample_sem = Some (Switched, s') \<and> cur s' = 7 \<and>
    kernel_esp (task_of s' 8) = Frames (In_sem_wait 3)"
proof -
  have "sem_queues (SemQueue 3) = Some []" "next_of sample_sem sem_queues = 7"
    by (simp_all add: sem_queues_def forked_queues_def next_of_def)
  with sem_wait_blocks_caller [of 3 sample_sem sem_queues "[]"] sample_sem_ok show ?thesis
    by (auto simp: sample_sem_frame simp del: fun_upd_apply)
qed

text \<open>
  C35: Signalling a semaphore that a process waits for does not wake the process: the code takes the
  first one out of the queue and then follows the link that this has cleared, a null pointer.
\<close>

theorem sem_signal_faults:
  assumes "i < 20" and "sched_ok s qs" and "qs (SemQueue i) = Some (w # ws)"
  shows "sys_sem_signal (int i) s = None"
  by (rule sem_signal_waiting [OF assms])

theorem sem_signal_faults_witness: "sys_sem_signal 3 sample_waiting = None"
  using sem_signal_faults [of 3 sample_waiting waiting_queues 7 "[]"] sample_waiting(2)
  by (simp add: waiting_queues_def)

text \<open>
  Destroying a semaphore that a process waits for follows a null pointer too: the process is
  unlinked from the queue twice.
\<close>

theorem sem_destroy_faults:
  assumes "i < 20" and "sched_ok s qs" and "qs (SemQueue i) = Some (w # ws)"
    and "owner (semaphores s i) = PID (task_of s (cur s))"
  shows "sys_sem_destroy (int i) s = None"
  by (rule sem_destroy_waiting [OF assms])

theorem sem_destroy_faults_witness: "sys_sem_destroy 3 sample_waiting = None"
  using sem_destroy_faults [of 3 sample_waiting waiting_queues 7 "[]"] sample_waiting sample_waiting_owner
  by (simp add: waiting_queues_def)

text \<open>
  The semaphore numbers below 0 and above 20 are refused with \<open>-ENAVAIL\<close> and no change, but the
  number 20, one behind the array, passes the checks of all calls but \<open>sys_sem_init\<close>.
\<close>

theorem sem_numbers:
  "(n < 0 \<or> 20 < n \<longrightarrow> sys_sem_wait n s = Some (Return (-119), s) \<and>
     sys_sem_signal n s = Some (-119, s) \<and> sys_sem_destroy n s = Some (-119, s) \<and>
     sys_sem_init n v s = Some (-119, s)) \<and>
   sys_sem_wait 20 s = None \<and> sys_sem_signal 20 s = None \<and> sys_sem_destroy 20 s = None \<and>
   sys_sem_init 20 v s = Some (-119, s)"
  using sem_out_of_range(1-3) [of n s] sem_out_of_range(4) [of n v s] sem_bound_off_by_one [of s]
  by (simp add: sys_sem_init_def)

theorem sem_numbers_witness:
  "sys_sem_signal 21 sample = Some (-119, sample) \<and> sys_sem_signal 20 sample = None"
  using sem_numbers [of 21 sample 0] by simp

section \<open>The heap\<close>

text \<open>
  C12: A growing \<open>sys_sbrk\<close> that needs \<open>n\<close> more pages, with so many available frames and free
  entries, returns the old break, moves it by the increment and maps the next \<open>n\<close> pages of the
  heap, writable by the user, each to a frame of its own that was available; no other entry of any
  page table changes.
\<close>

theorem sbrk_maps_pages:
  assumes "paging_ok s" "space s (cur s) r" and "heap_to s r k"
    and "unat (program_break (task_of s (cur s))) = pb"
    and "0 < inc" "int pb + inc < 4194304"
    and "n = (pb + nat inc) div 4096 - (pb - 1) div 4096" "0 < n" "k + n \<le> 1024"
    and "n \<le> card (avail (phys_mem s))"
  shows "\<exists>s'. sys_sbrk inc s = Some (of_nat pb, s') \<and> heap_to s' r (k + n) \<and>
    program_break (task_of s' (cur s')) = of_nat (pb + nat inc) \<and>
    (\<forall>p. k \<le> p \<longrightarrow> p < k + n \<longrightarrow> (\<exists>f \<in> avail (phys_mem s).
        pagusr_table s' r p = set_ss_pag_entry (of_nat f) \<and> phys_mem s' f = 1)) \<and>
    inj_on (\<lambda>p. get_pbase_addr (pagusr_table s' r p)) {k..<k + n} \<and>
    (\<forall>q p. q = r \<and> k \<le> p \<and> p < k + n \<or> pagusr_table s' q p = pagusr_table s q p)"
  by (rule sbrk_grows [OF assms])

theorem sbrk_maps_pages_witness:
  "\<exists>s'. sys_sbrk 5000 sample = Some (1163264, s') \<and> heap_to s' 1 286 \<and>
    program_break (task_of s' (cur s')) = 1168264"
proof -
  have f: "cur sample = 8" "unat (program_break (task_of sample 8)) = 1163264"
    "paging_ok sample" "space sample 8 1" "phys_mem sample = taken 56"
    "pagusr_table sample 1 = user_row 28 (syms sample)"
    using sample_first by (simp_all add: first_process_def in_space_def)
  then have "heap_to sample 1 284"
    by (simp add: heap_to_def user_row_def kernel_row_def)
  moreover have "2 \<le> card (avail (taken 56))" using enough_frames by simp
  ultimately show ?thesis
    using sbrk_maps_pages [of sample 1 284 1163264 5000 2] f by auto
qed

text \<open>
  Without enough available frames (frame 256 not among them) \<open>sys_sbrk\<close> returns \<open>-ENOMEM\<close>, as
  the pointer it returns, and leaves the state as it was.
\<close>

theorem sbrk_without_memory:
  assumes "inc \<noteq> 0" and "card (avail (phys_mem s)) < nat n" and "256 \<notin> avail (phys_mem s)"
    and "n = PH_PAGE_int (to_s32 (program_break (task_of s (cur s)) + to_u32 inc))
      - PH_PAGE_int (to_s32 (program_break (task_of s (cur s)) - 1))" and "n \<le> int FREE_STACK"
  shows "sys_sbrk inc s = Some (to_u32 (-12), s)"
  by (rule sbrk_no_memory [OF assms])

theorem sbrk_without_memory_witness:
  "sys_sbrk 100 (sample\<lparr>phys_mem := \<lambda>_. 1\<rparr>) = Some (0xFFFFFFF4, sample\<lparr>phys_mem := \<lambda>_. 1\<rparr>)"
proof -
  let ?s = "sample\<lparr>phys_mem := \<lambda>_. 1\<rparr>"
  have none: "avail (\<lambda>_. 1) = {}" by (auto simp: avail_def)
  have "unat (program_break (task_of sample (cur sample))) = 1163264"
    using sample_first by (simp add: first_process_def)
  then have pb: "program_break (task_of sample (cur sample)) = 1163264"
    by (simp add: word_unat_eq_iff)
  have "sys_sbrk 100 ?s = Some (to_u32 (-12), ?s)"
    by (rule sbrk_without_memory [of _ _ 1])
      (simp_all add: none pb [unfolded task_of_def] task_of_def PH_PAGE_int_to_s32 to_u32_def)
  then show ?thesis by (simp add: to_u32_def)
qed

section \<open>The console and the statistics\<close>

text \<open>
  \<open>sys_write\<close> of at most 256 readable bytes prints them, in order, on the screen and the debug
  port, returns their number and changes nothing but the screen and its cursor.
\<close>

theorem write_prints:
  assumes "on_screen s" and "user_mapped s buf n" and "n \<le> 256"
    and "buf \<noteq> 0" and "access_ok VERIFY_READ buf (of_nat n) \<noteq> 0"
  shows "\<exists>s'. sys_write 1 buf (int n) s = Some (int n, s') \<and>
    port_e9 s' = port_e9 s @ user_bytes s buf n \<and> on_screen s' \<and> screen_frame s s'"
  by (rule write_fits [OF assms])

theorem write_prints_witness:
  "\<exists>s'. sys_write 1 0x108000 7 (sample\<lparr>scr_x := 0, scr_y := 0\<rparr>) = Some (7, s')"
proof -
  let ?s = "sample\<lparr>scr_x := 0, scr_y := 0\<rparr>"
  have "translate va ?s = translate va sample" for va
    by (rule translate_same) simp_all
  then have "user_region ?s 0x108000 7" using sample_region [of 7] by (simp add: user_region_def)
  then have "user_mapped ?s 0x108000 7" by (rule region_mapped)
  moreover have "access_ok VERIFY_READ 0x108000 7 = 1" by (simp add: access_ok_range)
  ultimately show ?thesis
    using write_prints [of ?s "0x108000" 7] by (auto simp: on_screen_def)
qed

text \<open>
  C34: A write of more than 256 bytes to an accepted address runs over the end of the kernel's
  256-byte array, because the loop over the chunks is never entered.
\<close>

theorem write_overflows:
  assumes "256 < sz" and "buf \<noteq> 0" and "access_ok VERIFY_READ buf (to_u32 sz) \<noteq> 0"
  shows "sys_write 1 buf sz s = None"
  by (rule write_overruns [OF assms])

theorem write_overflows_witness: "sys_write 1 0x108000 257 sample = None"
proof -
  have "access_ok VERIFY_READ 0x108000 257 = 1" by (simp add: access_ok_range)
  then show ?thesis by (intro write_overflows) (simp_all add: to_u32_def)
qed

text \<open>
  \<open>sys_get_stats\<close> of a process number that exactly one task has writes the 28 bytes of the
  statistics of that task at the given place, returns 0, and changes only memory.
\<close>

theorem get_stats_copies:
  assumes "i < 10" and "PID (task_of s i) = pid"
    and "\<And>j. j < 10 \<Longrightarrow> PID (task_of s j) = pid \<Longrightarrow> j = i" and "cur s < 10"
    and "user_region s st 28"
  shows "\<exists>s'. sys_get_stats pid st s = Some (0, s') \<and>
    user_bytes s' st 28 = stats_bytes (task_stats (task_of s i)) \<and> (\<exists>r. s' = s\<lparr>ram := r\<rparr>)"
  by (rule get_stats_found [OF assms])

theorem get_stats_copies_witness:
  "\<exists>s s'. sys_get_stats 8 0x108000 s = Some (0, s') \<and>
    user_bytes s' 0x108000 28 = stats_bytes (task_stats (task_of s 8))"
proof -
  let ?s = "sample\<lparr>tasks := \<lambda>t. (tasks sample t)\<lparr>task := (task (tasks sample t))\<lparr>PID := int t\<rparr>\<rparr>\<rparr>"
  have "translate va ?s = translate va sample" for va
    by (rule translate_same) simp_all
  then have "user_region ?s 0x108000 28" using sample_region [of 28] by (simp add: user_region_def)
  moreover have "cur ?s < 10" using sample_first by (simp add: first_process_def)
  ultimately have r: "user_region ?s 0x108000 28" "cur ?s < 10" by simp_all
  have pid: "PID (task_of ?s t) = int t" for t by (simp add: task_of_def)
  have "\<exists>s'. sys_get_stats 8 0x108000 ?s = Some (0, s') \<and>
    user_bytes s' 0x108000 28 = stats_bytes (task_stats (task_of ?s 8)) \<and> (\<exists>r. s' = ?s\<lparr>ram := r\<rparr>)"
  proof (rule get_stats_copies [OF _ _ _ r(2,1)])
    show "j = 8" if "PID (task_of ?s j) = 8" for j using that unfolding pid by simp
  qed (simp, simp only: pid of_nat_numeral)
  then show ?thesis by blast
qed

end
