(* ===== verification/Devices.thy ===== *)
theory Devices
  imports SysBasic SchedProps
begin

text \<open>
  The keyboard: \<open>sys_read_keyboard\<close> of \<open>devices.c\<close> with \<open>sys_read\<close>, and \<open>keyboard_interrupt\<close>
  of \<open>interrupt.c\<close>. A reader that finds too few characters goes to \<open>keyboardqueue\<close> inside the
  loop; its place is \<open>In_read\<close>, with the arguments of the call, and \<open>read_resumed\<close> is what it
  does when it runs again. The interrupt moves the first reader to the ready queue.
\<close>

section \<open>Reading\<close>

definition upd_kb :: "(kbdata \<Rightarrow> kbdata) \<Rightarrow> kstate \<Rightarrow> kstate" where
  "upd_kb f s = upd_task (cur s) (\<lambda>x. x\<lparr>kb_data := f (kb_data x)\<rparr>) s"

abbreviation my_kb :: "kstate \<Rightarrow> kbdata" where
  "my_kb s \<equiv> kb_data (task_of s (cur s))"

text \<open>\<open>already_read += n; to_read -= n\<close>.\<close>

definition count_read :: "int \<Rightarrow> kstate \<Rightarrow> kstate option" where
  "count_read n s =
     do { a \<leftarrow> c_int (already_read (my_kb s) + n);
          r \<leftarrow> c_int (to_read (my_kb s) - n);
          Some (upd_kb (\<lambda>_. \<lparr>to_read = r, already_read = a\<rparr>) s) }"

text \<open>
  The loop over \<open>i < size\<close>, with \<open>n\<close> turns to go. \<open>key\<close> is None until it is first assigned; a
  copy of the unassigned variable is undefined.
\<close>

fun read_keys :: "nat \<Rightarrow> DWord \<Rightarrow> nat \<Rightarrow> Byte option \<Rightarrow> kstate \<Rightarrow> kstate option" where
  "read_keys 0 buf i key s = Some s"
| "read_keys (Suc n) buf i key s =
     do { (_, k, b) \<leftarrow> circular_buf_read (cb s);
          c \<leftarrow> (case k of Some c \<Rightarrow> Some c | None \<Rightarrow> key);
          (_, s) \<leftarrow> write_user [c] (buf + of_nat i) 1 (s\<lparr>cb := b\<rparr>);
          read_keys n buf (Suc i) (Some c) s }"

text \<open>The loop that empties the ring.\<close>

partial_function (option) drain_keys :: "DWord \<Rightarrow> nat \<Rightarrow> Byte option \<Rightarrow> kstate \<Rightarrow> kstate option" where
  "drain_keys buf i key s =
     (if circular_buf_empty (cb s) then Some s
      else do { (_, k, b) \<leftarrow> circular_buf_read (cb s);
                c \<leftarrow> (case k of Some c \<Rightarrow> Some c | None \<Rightarrow> key);
                (_, s) \<leftarrow> write_user [c] (buf + of_nat i) 1 (s\<lparr>cb := b\<rparr>);
                drain_keys buf (Suc i) (Some c) s })"

text \<open>One turn of the outer loop: it reads, or the reader gives up the processor (Inr).\<close>

definition read_turn :: "DWord \<Rightarrow> int \<Rightarrow> kstate \<Rightarrow> (kstate + kstate) option" where
  "read_turn buf sz s =
     do { e \<leftarrow> list_empty (Some Keyboardqueue) (lists s);
          if e \<and> sz \<le> circular_buf_num_elems (cb s)
          then do { s \<leftarrow> count_read sz s;
                    s \<leftarrow> read_keys (nat sz) buf 0 None s;
                    Some (Inl s) }
          else do { s \<leftarrow> (if e
                         then do { full \<leftarrow> circular_buf_full (cb s);
                                   if full
                                   then do { s \<leftarrow> count_read (circular_buf_num_elems (cb s)) s;
                                             drain_keys buf 0 None s }
                                   else Some s }
                         else Some s);
                    s \<leftarrow> yield_to Keyboardqueue (In_read buf sz) s;
                    Some (Inr s) } }"

partial_function (option) read_resumed :: "DWord \<Rightarrow> int \<Rightarrow> kstate \<Rightarrow> (int outcome \<times> kstate) option" where
  "read_resumed buf sz s =
     (if 0 < to_read (my_kb s)
      then do { r \<leftarrow> read_turn buf sz s;
                case r of Inl s \<Rightarrow> read_resumed buf sz s | Inr s \<Rightarrow> Some (Switched, s) }
      else Some (Return (already_read (my_kb s)), s))"

definition sys_read_keyboard :: "DWord \<Rightarrow> int \<Rightarrow> kstate \<Rightarrow> (int outcome \<times> kstate) option" where
  "sys_read_keyboard buf sz s =
     read_resumed buf sz (upd_kb (\<lambda>_. \<lparr>to_read = sz, already_read = 0\<rparr>) s)"

definition sys_read :: "int \<Rightarrow> DWord \<Rightarrow> int \<Rightarrow> kstate \<Rightarrow> (int outcome \<times> kstate) option" where
  "sys_read fd buf count s =
     (let ret = check_fd_read fd LECTURA
      in if ret < 0 then Some (Return ret, s)
         else if buf = 0 then Some (Return (- EFAULT), s)
         else if count < 0 then Some (Return (- EINVAL), s)
         else if access_ok VERIFY_WRITE buf (to_u32 count) = 0 then Some (Return (- EFAULT), s)
         else sys_read_keyboard buf count s)"

section \<open>The interrupt\<close>

text \<open>
  \<open>char_map\<close>: the four entries outside ASCII are three-byte literals in the source file, of
  which a char keeps the last byte, \<open>0xBD\<close>.
\<close>

definition char_map :: "Byte list" where
  "char_map =
    [0, 0, 0x31, 0x32, 0x33, 0x34, 0x35, 0x36,
     0x37, 0x38, 0x39, 0x30, 0x27, 0xBD, 0, 0,
     0x71, 0x77, 0x65, 0x72, 0x74, 0x79, 0x75, 0x69,
     0x6F, 0x70, 0x60, 0x2B, 0, 0, 0x61, 0x73,
     0x64, 0x66, 0x67, 0x68, 0x6A, 0x6B, 0x6C, 0xBD,
     0, 0xBD, 0, 0xBD, 0x7A, 0x78, 0x63, 0x76,
     0x62, 0x6E, 0x6D, 0x2C, 0x2E, 0x2D, 0, 0x2A,
     0, 0, 0, 0, 0, 0, 0, 0,
     0, 0, 0, 0, 0, 0, 0, 0x37,
     0x38, 0x39, 0x2D, 0x34, 0x35, 0x36, 0x2B, 0x31,
     0x32, 0x33, 0x30, 0, 0, 0, 0x3C, 0,
     0, 0, 0, 0, 0, 0, 0, 0,
     0, 0]"

text \<open>\<open>key\<close> is the scan code that \<open>inb(0x60)\<close> reads; bit 7 is set when a key is released.\<close>

definition keyboard_interrupt :: "Byte \<Rightarrow> kstate \<Rightarrow> kstate option" where
  "keyboard_interrupt key s =
     (if key AND 0x80 \<noteq> 0 then Some s
      else if unat (key AND 0x7F) < length char_map
      then do { let c = char_map ! unat (key AND 0x7F);
                let keyValue = (if c = 0 then 0x43 else c);
                let s = printc_xy 0 0 keyValue s;
                (ret, b) \<leftarrow> circular_buf_put keyValue (cb s);
                let s = s\<lparr>cb := b\<rparr>;
                e \<leftarrow> list_empty (Some Keyboardqueue) (lists s);
                if e then Some s
                else do { nx \<leftarrow> list_first (Some Keyboardqueue) (lists s);
                          t \<leftarrow> list_head_to_task_struct nx;
                          if to_read (kb_data (task_of s t)) \<le> circular_buf_num_elems (cb s) \<or> ret < 0
                          then update_process_state_rr t (Some Readyqueue) s
                          else Some s } }
      else None)"

section \<open>The clock\<close>

definition init_ticks :: "kstate \<Rightarrow> kstate" where
  "init_ticks s = s\<lparr>zeos_ticks := 0\<rparr>"

text \<open>\<open>show_clock\<close> is the library routine \<open>zeos_show_clock\<close>; after a switch it runs later.\<close>

definition clock_interrupt :: "(kstate \<Rightarrow> kstate) \<Rightarrow> kstate \<Rightarrow> (unit outcome \<times> kstate) option" where
  "clock_interrupt show_clock s =
     do { n \<leftarrow> c_int (zeos_ticks s + 1);
          (r, s) \<leftarrow> update_sched_data_rr (s\<lparr>zeos_ticks := n\<rparr>);
          case r of Switched \<Rightarrow> Some (Switched, s) | Return _ \<Rightarrow> Some (Return (), show_clock s) }"

section \<open>Errors of the call\<close>

lemma read_errors:
  "fd \<noteq> 0 \<Longrightarrow> sys_read fd buf n s = Some (Return (- 9), s)"
  "sys_read 0 0 n s = Some (Return (- 14), s)"
  "buf \<noteq> 0 \<Longrightarrow> n < 0 \<Longrightarrow> sys_read 0 buf n s = Some (Return (- 22), s)"
  "buf \<noteq> 0 \<Longrightarrow> 0 \<le> n \<Longrightarrow> access_ok VERIFY_WRITE buf (to_u32 n) = 0 \<Longrightarrow>
    sys_read 0 buf n s = Some (Return (- 14), s)"
  by (simp_all add: sys_read_def check_fd_read_def)

lemma upd_kb_simps [simp]:
  "kb_data (task_of (upd_kb f s) t) = (if t = cur s then f (my_kb s) else kb_data (task_of s t))"
  "cb (upd_kb f s) = cb s" "lists (upd_kb f s) = lists s"
  "cur (upd_kb f s) = cur s" "ram (upd_kb f s) = ram s" "idle_task (upd_kb f s) = idle_task s"
  "state (task_of (upd_kb f s) t) = state (task_of s t)"
  "syms (upd_kb f s) = syms s" "cr3 (upd_kb f s) = cr3 s" "dir_pages (upd_kb f s) = dir_pages s"
  "pagusr_table (upd_kb f s) = pagusr_table s"
  by (simp_all add: upd_kb_def)

lemma upd_kb_twice [simp]: "upd_kb f (upd_kb g s) = upd_kb (\<lambda>x. f (g x)) s"
  by (simp add: upd_kb_def upd_task_def)

lemma sched_ok_upd_kb [simp]: "sched_ok (upd_kb f s) qs = sched_ok s qs"
  by (simp add: sched_ok_def)

lemma sched_ok_cb [simp]: "sched_ok (s\<lparr>cb := b\<rparr>) qs = sched_ok s qs"
  and sched_ok_ram [simp]: "sched_ok (s\<lparr>ram := m\<rparr>) qs = sched_ok s qs"
  by (simp_all add: sched_ok_def)

text \<open>A read of no characters returns at once.\<close>

lemma read_nothing:
  "n \<le> 0 \<Longrightarrow> sys_read_keyboard buf n s
    = Some (Return 0, upd_kb (\<lambda>_. \<lparr>to_read = n, already_read = 0\<rparr>) s)"
  by (simp add: sys_read_keyboard_def read_resumed.simps)

end
