(* ===== verification/DeviceProps.thy ===== *)
theory DeviceProps
  imports Devices
begin

text \<open>
  What the keyboard driver does: a reader that finds its characters takes them, in order, from the
  ring; one that does not is blocked in \<open>keyboardqueue\<close>; every key press puts one character into
  the ring and wakes the first reader when its characters are there.
\<close>

declare length_contents [simp del]

section \<open>One character to user memory\<close>

lemma load_at_same:
  assumes "syms s' = syms s" and "cr3 s' = cr3 s" and "dir_pages s' = dir_pages s"
    and "pagusr_table s' = pagusr_table s" and "ram s' = ram s"
  shows "load_at va s' = load_at va s"
  unfolding load_at_def load_byte_def translate_same [OF assms(1-4)] assms(5) ..

lemma translate_frame [simp]:
  "translate va (s\<lparr>cb := b\<rparr>) = translate va s" "translate va (upd_kb f s) = translate va s"
  by (rule translate_same; simp)+

lemma load_at_cb [simp]: "load_at va (s\<lparr>cb := b\<rparr>) = load_at va s"
  by (rule load_at_same) simp_all

lemma user_region_frame [simp]:
  "user_region (s\<lparr>cb := b\<rparr>) va n = user_region s va n"
  "user_region (upd_kb f s) va n = user_region s va n"
  "cells (s\<lparr>cb := b\<rparr>) va n = cells s va n" "cells (upd_kb f s) va n = cells s va n"
  by (simp_all add: user_region_def cells_def)

lemma ram_rest_iff:
  "ram_rest A (s\<lparr>ram := m\<rparr>) = ram_rest A s \<longleftrightarrow> (\<forall>f k. Some (f, k) \<notin> A \<longrightarrow> m f k = ram s f k)"
  by (auto simp: ram_rest_def fun_eq_iff cong: if_cong)

lemma write_user_one: "write_user [c] va 1 s = do { s \<leftarrow> store_byte va c s; Some (0, s) }"
  by (simp add: write_user_def copy_to_user_def copy_loop4.simps copy_loop1.simps array_get_def
      store_at_def split: bind_splits)

lemma store_byte_cb: "store_byte va c s = Some s' \<Longrightarrow> cb s' = cb s"
  by (auto simp: store_byte_def split: if_splits elim!: bind_eq_SomeE)

section \<open>Taking characters out of the ring\<close>

lemma read_keys_spec:
  assumes "cb_ok (cb s)" and "n \<le> length (contents (cb s))" and "user_region s buf N" and "i + n \<le> N"
  shows "\<exists>b m. read_keys n buf i key s = Some (s\<lparr>cb := b, ram := m\<rparr>) \<and> cb_ok b \<and>
    contents b = drop n (contents (cb s)) \<and> capacity b = capacity (cb s) \<and>
    (\<forall>j < N. load_at buf (s\<lparr>ram := m\<rparr>) j =
      (if i \<le> j \<and> j < i + n then Some (contents (cb s) ! (j - i)) else load_at buf s j)) \<and>
    (\<forall>f k. Some (f, k) \<notin> cells s buf N \<longrightarrow> m f k = ram s f k)"
  using assms
proof (induction n arbitrary: i key s)
  case 0
  then show ?case by (intro exI [of _ "cb s"] exI [of _ "ram s"]) auto
next
  case (Suc n)
  obtain x xs where xs: "contents (cb s) = x # xs" using Suc.prems(2) by (cases "contents (cb s)") auto
  obtain b1 where b1: "circular_buf_read (cb s) = Some (0, Some x, b1)" "cb_ok b1" "contents b1 = xs"
    "capacity b1 = capacity (cb s)"
    using ring.get_first [OF Suc.prems(1) xs] by blast
  obtain m1 where m1: "store_at buf i x (s\<lparr>cb := b1\<rparr>) = Some (s\<lparr>cb := b1, ram := m1\<rparr>)"
    "\<forall>j < N. load_at buf (s\<lparr>cb := b1, ram := m1\<rparr>) j =
      (if j = i then Some x else load_at buf (s\<lparr>cb := b1\<rparr>) j)"
    "\<forall>f k. Some (f, k) \<notin> cells s buf N \<longrightarrow> m1 f k = ram s f k"
  proof -
    obtain s1 where s1: "store_at buf i x (s\<lparr>cb := b1\<rparr>) = Some s1" "\<exists>r. s1 = s\<lparr>cb := b1\<rparr>\<lparr>ram := r\<rparr>"
      "\<forall>j < N. load_at buf s1 j = (if j = i then Some x else load_at buf (s\<lparr>cb := b1\<rparr>) j)"
      "ram_rest (cells (s\<lparr>cb := b1\<rparr>) buf N) s1 = ram_rest (cells (s\<lparr>cb := b1\<rparr>) buf N) (s\<lparr>cb := b1\<rparr>)"
      using store_at_region [of "s\<lparr>cb := b1\<rparr>" buf N i x] Suc.prems by auto
    then obtain r where r: "s1 = s\<lparr>cb := b1\<rparr>\<lparr>ram := r\<rparr>" by blast
    have "\<forall>f k. Some (f, k) \<notin> cells s buf N \<longrightarrow> r f k = ram s f k"
      using s1(4) unfolding r ram_rest_iff by simp
    with s1(1,3) show ?thesis unfolding r by (intro that [of r])
  qed
  let ?s = "s\<lparr>cb := b1, ram := m1\<rparr>"
  obtain b m where bm: "read_keys n buf (Suc i) (Some x) ?s = Some (?s\<lparr>cb := b, ram := m\<rparr>)" "cb_ok b"
    "contents b = drop n xs" "capacity b = capacity b1"
    "\<forall>j < N. load_at buf (?s\<lparr>ram := m\<rparr>) j =
      (if Suc i \<le> j \<and> j < Suc i + n then Some (xs ! (j - Suc i)) else load_at buf ?s j)"
    "\<forall>f k. Some (f, k) \<notin> cells s buf N \<longrightarrow> m f k = m1 f k"
    using Suc.IH [of ?s "Suc i" "Some x"] Suc.prems b1 xs by auto
  have run: "read_keys (Suc n) buf i key s = Some (s\<lparr>cb := b, ram := m\<rparr>)"
    using b1(1) m1(1) bm(1) by (simp add: write_user_one store_at_def)
  have load: "load_at buf (s\<lparr>ram := m\<rparr>) j =
      (if i \<le> j \<and> j < i + Suc n then Some ((x # xs) ! (j - i)) else load_at buf s j)" if "j < N" for j
  proof -
    have "load_at buf (s\<lparr>ram := m\<rparr>) = load_at buf (?s\<lparr>ram := m\<rparr>)" by (rule load_at_same) simp_all
    then show ?thesis using bm(5) m1(2) that by (auto simp: nth_Cons')
  qed
  have "\<forall>f k. Some (f, k) \<notin> cells s buf N \<longrightarrow> m f k = ram s f k"
    using bm(6) m1(3) by simp
  with run bm b1 load xs show ?case by (intro exI [of _ b] exI [of _ m]) simp
qed

lemma drain_keys_eq:
  "cb_ok (cb s) \<Longrightarrow> drain_keys buf i key s = read_keys (length (contents (cb s))) buf i key s"
proof (induction "length (contents (cb s))" arbitrary: s i key)
  case 0
  then have "contents (cb s) = []" by (metis length_0_conv)
  with 0 show ?case using empty_iff_contents [of "cb s"] by (subst drain_keys.simps) simp
next
  case (Suc n)
  obtain x xs where xs: "contents (cb s) = x # xs" using Suc.hyps(2) by (cases "contents (cb s)") auto
  obtain b1 where b1: "circular_buf_read (cb s) = Some (0, Some x, b1)" "cb_ok b1" "contents b1 = xs"
    using ring.get_first [OF Suc.prems xs] by blast
  have ne: "\<not> circular_buf_empty (cb s)" using empty_iff_contents [OF Suc.prems] xs by simp
  have "drain_keys buf (Suc i) (Some x) s' = read_keys n buf (Suc i) (Some x) s'"
    if "store_byte (buf + of_nat i) x (s\<lparr>cb := b1\<rparr>) = Some s'" for s'
    using Suc.hyps(1) [of s' "Suc i" "Some x"] store_byte_cb [OF that] b1 xs Suc.hyps(2) by simp
  moreover have "length (contents (cb s)) = Suc n" using Suc.hyps(2) by simp
  ultimately show ?case
    using ne b1(1) by (subst drain_keys.simps) (auto simp: write_user_one split: bind_splits)
qed

section \<open>A reader that finds its characters\<close>

lemma count_read_ok:
  assumes "int_ok (already_read (my_kb s) + n)" and "int_ok (to_read (my_kb s) - n)"
  shows "count_read n s = Some (upd_kb (\<lambda>k. \<lparr>to_read = to_read k - n, already_read = already_read k + n\<rparr>) s)"
  using assms by (simp add: count_read_def c_int_def upd_kb_def upd_task_def task_of_def)

text \<open>
  \<open>keys_taken\<close>: after the reader took \<open>n\<close> characters: they are in its buffer, the ring keeps
  the rest, no other memory changed.
\<close>

definition keys_taken :: "DWord \<Rightarrow> nat \<Rightarrow> kstate \<Rightarrow> circular_buffer \<Rightarrow> (nat \<Rightarrow> nat \<Rightarrow> Byte) \<Rightarrow> bool" where
  "keys_taken buf n s b m \<longleftrightarrow> cb_ok b \<and> contents b = drop n (contents (cb s)) \<and>
     capacity b = capacity (cb s) \<and> user_bytes (s\<lparr>ram := m\<rparr>) buf n = take n (contents (cb s)) \<and>
     (\<forall>f k. Some (f, k) \<notin> cells s buf n \<longrightarrow> m f k = ram s f k)"

lemma read_keys_taken:
  assumes "cb_ok (cb s)" and "n \<le> length (contents (cb s))" and "user_region s buf n"
  shows "\<exists>b m. read_keys n buf 0 key s = Some (s\<lparr>cb := b, ram := m\<rparr>) \<and> keys_taken buf n s b m"
proof -
  obtain b m where bm: "read_keys n buf 0 key s = Some (s\<lparr>cb := b, ram := m\<rparr>)" "cb_ok b"
    "contents b = drop n (contents (cb s))" "capacity b = capacity (cb s)"
    "\<forall>j < n. load_at buf (s\<lparr>ram := m\<rparr>) j = Some (contents (cb s) ! j)"
    "(\<forall>f k. Some (f, k) \<notin> cells s buf n \<longrightarrow> m f k = ram s f k)"
    using read_keys_spec [OF assms, of 0 key] by auto
  have "user_bytes (s\<lparr>ram := m\<rparr>) buf n = take n (contents (cb s))"
    using bm(5) assms(2) by (intro nth_equalityI) (auto simp: user_bytes_def)
  with bm show ?thesis unfolding keys_taken_def by blast
qed

lemma keys_taken_upd_kb [simp]: "keys_taken buf n (upd_kb f s) b m = keys_taken buf n s b m"
proof -
  have "load_at buf ((upd_kb f s)\<lparr>ram := m\<rparr>) = load_at buf (s\<lparr>ram := m\<rparr>)"
    by (rule load_at_same) simp_all
  then show ?thesis by (simp add: keys_taken_def user_bytes_def)
qed

lemma read_available:
  assumes ok: "sched_ok s qs" and kq: "qs Keyboardqueue = Some []"
    and b: "cb_ok (cb s)" "n \<le> length (contents (cb s))" "0 < n" and u: "user_region s buf n"
    and kb: "0 < to_read (my_kb s)" "to_read (my_kb s) \<le> int n" "0 \<le> already_read (my_kb s)"
      "int_ok (already_read (my_kb s) + int n)"
  shows "\<exists>b m. read_resumed buf (int n) s = Some (Return (already_read (my_kb s) + int n),
      (upd_kb (\<lambda>k. \<lparr>to_read = to_read k - int n, already_read = already_read k + int n\<rparr>) s)
        \<lparr>cb := b, ram := m\<rparr>) \<and> keys_taken buf n s b m"
proof -
  let ?f = "\<lambda>k. \<lparr>to_read = to_read k - int n, already_read = already_read k + int n\<rparr>"
  have e: "list_empty (Some Keyboardqueue) (lists s) = Some True"
    using queues_empty [OF sched_okD(1) [OF ok] kq] by simp
  have "int_ok (to_read (my_kb s) - int n)" using kb by (simp add: int_ok_def)
  then have c: "count_read (int n) s = Some (upd_kb ?f s)" by (rule count_read_ok [OF kb(4)])
  obtain b' m where bm: "read_keys n buf 0 None (upd_kb ?f s) = Some ((upd_kb ?f s)\<lparr>cb := b', ram := m\<rparr>)"
    "keys_taken buf n s b' m"
    using read_keys_taken [of "upd_kb ?f s" n buf None] b u by auto
  let ?s = "(upd_kb ?f s)\<lparr>cb := b', ram := m\<rparr>"
  have turn: "read_turn buf (int n) s = Some (Inl ?s)"
    using e c bm(1) b num_elems_contents [OF b(1)] by (simp add: read_turn_def)
  have "my_kb ?s = ?f (my_kb s)" by (simp add: task_of_def upd_kb_def upd_task_def)
  then have "read_resumed buf (int n) ?s = Some (Return (already_read (my_kb s) + int n), ?s)"
    using kb by (subst read_resumed.simps) simp
  then have "read_resumed buf (int n) s = Some (Return (already_read (my_kb s) + int n), ?s)"
    using turn kb(1) by (subst read_resumed.simps) simp
  with bm(2) show ?thesis by blast
qed

section \<open>A reader that has to wait\<close>

lemma reader_waits:
  assumes ok: "sched_ok s qs" and kq: "qs Keyboardqueue = Some ws"
    and b: "cb_ok (cb s)" "ws \<noteq> [] \<or> length (contents (cb s)) < n \<and> length (contents (cb s)) < capacity (cb s)"
    and kb: "0 < to_read (my_kb s)" and busy: "idle_task s \<noteq> Some (cur s)"
  shows "\<exists>s'. read_resumed buf (int n) s = Some (Switched, s') \<and>
    sched_ok s' (after_next (qs(Keyboardqueue \<mapsto> ws @ [cur s]))) \<and> sched_frame s s' \<and>
    cur s' = next_of s qs \<and> kernel_esp (task_of s' (cur s)) = Frames (In_read buf (int n))"
proof -
  obtain s' where s': "yield_to Keyboardqueue (In_read buf (int n)) s = Some s'"
    "sched_ok s' (after_next (qs(Keyboardqueue \<mapsto> ws @ [cur s])))" "sched_frame s s'"
    "cur s' = next_of s (qs(Keyboardqueue \<mapsto> ws @ [cur s]))"
    "kernel_esp (task_of s' (cur s)) = Frames (In_read buf (int n))"
    using yield_to_spec [OF ok kq, of "In_read buf (int n)"] busy by auto
  have "list_empty (Some Keyboardqueue) (lists s) = Some (ws = [])"
    using queues_empty [OF sched_okD(1) [OF ok] kq] by simp
  then have "read_turn buf (int n) s = Some (Inr s')"
    using b s'(1) num_elems_contents [OF b(1)] full_iff_contents [OF b(1)]
    by (auto simp: read_turn_def)
  then have "read_resumed buf (int n) s = Some (Switched, s')"
    using kb by (subst read_resumed.simps) simp
  moreover have "next_of s (qs(Keyboardqueue \<mapsto> ws @ [cur s])) = next_of s qs" by (simp add: next_of_def)
  ultimately show ?thesis using s' by metis
qed

text \<open>
  A request for more characters than the ring can hold: a full ring is emptied to the start of the
  buffer, whatever was stored there before, and the reader waits again.
\<close>

lemma reader_drains:
  assumes ok: "sched_ok s qs" and kq: "qs Keyboardqueue = Some []"
    and b: "cb_ok (cb s)" "length (contents (cb s)) = capacity (cb s)" "capacity (cb s) < n"
    and u: "user_region s buf (capacity (cb s))"
    and kb: "0 < to_read (my_kb s)" "0 \<le> already_read (my_kb s)"
      "int_ok (to_read (my_kb s))" "int_ok (already_read (my_kb s) + int (capacity (cb s)))"
    and busy: "idle_task s \<noteq> Some (cur s)"
  defines "c \<equiv> capacity (cb s)"
  shows "\<exists>b m s'. read_resumed buf (int n) s = Some (Switched, s') \<and>
    sched_ok s' (after_next (qs(Keyboardqueue \<mapsto> [cur s]))) \<and>
    sched_frame ((upd_kb (\<lambda>k. \<lparr>to_read = to_read k - int c, already_read = already_read k + int c\<rparr>) s)
      \<lparr>cb := b, ram := m\<rparr>) s' \<and> keys_taken buf c s b m \<and> contents b = []"
proof -
  let ?f = "\<lambda>k. \<lparr>to_read = to_read k - int c, already_read = already_read k + int c\<rparr>"
  have e: "list_empty (Some Keyboardqueue) (lists s) = Some True"
    using queues_empty [OF sched_okD(1) [OF ok] kq] by simp
  have cl: "c \<le> 2147483647" using b(1) by (auto simp: c_def capacity_def cb_ok_def)
  have "int_ok (to_read (my_kb s) - int c)" using kb cl by (simp add: int_ok_def)
  then have cnt: "count_read (int c) s = Some (upd_kb ?f s)"
    by (rule count_read_ok [OF kb(4) [folded c_def]])
  obtain b' m where bm: "read_keys c buf 0 None (upd_kb ?f s) = Some ((upd_kb ?f s)\<lparr>cb := b', ram := m\<rparr>)"
    "keys_taken buf c s b' m"
    using read_keys_taken [of "upd_kb ?f s" c buf None] b u by (auto simp: c_def)
  let ?s = "(upd_kb ?f s)\<lparr>cb := b', ram := m\<rparr>"
  have ok': "sched_ok ?s qs" using ok by simp
  obtain s' where s': "yield_to Keyboardqueue (In_read buf (int n)) ?s = Some s'"
    "sched_ok s' (after_next (qs(Keyboardqueue \<mapsto> [] @ [cur ?s])))" "sched_frame ?s s'"
    using yield_to_spec [OF ok' kq, of "In_read buf (int n)"] busy by auto
  have "drain_keys buf 0 None (upd_kb ?f s) = Some ?s"
    using drain_keys_eq [of "upd_kb ?f s" buf 0 None] b bm(1) by (simp add: c_def)
  then have "read_turn buf (int n) s = Some (Inr s')"
    using b e cnt s'(1) num_elems_contents [OF b(1)] full_iff_contents [OF b(1)]
    by (simp add: read_turn_def c_def)
  then have run: "read_resumed buf (int n) s = Some (Switched, s')"
    using kb(1) by (subst read_resumed.simps) simp
  have "contents b' = []" using bm(2) b(2) by (simp add: keys_taken_def c_def)
  moreover have "sched_ok s' (after_next (qs(Keyboardqueue \<mapsto> [cur s])))" using s'(2) by simp
  ultimately show ?thesis using run s'(3) bm(2) by blast
qed

section \<open>Key presses\<close>

lemma wake:
  assumes ok: "sched_ok s qs" and kq: "qs Keyboardqueue = Some (w # ws)" and rq: "qs Readyqueue = Some rs"
  shows "\<exists>s'. update_process_state_rr w (Some Readyqueue) s = Some s' \<and>
    sched_ok s' (qs(Keyboardqueue \<mapsto> ws, Readyqueue \<mapsto> rs @ [w])) \<and> sched_frame s s' \<and>
    cur s' = cur s \<and> remaining_ticks s' = remaining_ticks s \<and> cr3 s' = cr3 s \<and>
    (\<forall>t. kernel_esp (task_of s' t) = kernel_esp (task_of s t))"
proof -
  note okD = sched_okD [OF ok]
  let ?qs = "qs(Keyboardqueue \<mapsto> ws, Readyqueue \<mapsto> rs @ [w])"
  have st: "state (task_of s w) = ST_BLOCKED" by (rule sched_ok_blocked [OF ok kq]) simp_all
  have kq': "qs Keyboardqueue = Some ([] @ w # ws)" using kq by simp
  have ns: "state (task_of s w) \<noteq> ST_RUN" using st by simp
  obtain s' where s': "update_process_state_rr w (Some Readyqueue) s = Some s'" "queues (lists s') ?qs"
    "sched_frame s s'" "cur s' = cur s" "remaining_ticks s' = remaining_ticks s" "cr3 s' = cr3 s"
    "\<And>r. kernel_esp (task_of s' r) = kernel_esp (task_of s r)"
    "\<And>r. r \<noteq> w \<Longrightarrow> task_of s' r = task_of s r"
    using update_process_waiting [OF okD(1) kq' rq _ ns] by auto
  have mem: "w \<in> queued qs" using queued_member [of qs Keyboardqueue "w # ws" w] kq by simp
  then have wc: "w \<noteq> cur s" using okD(7) by auto
  have members: "\<exists>ys. qs q = Some ys \<and> set xs \<subseteq> insert w (set ys) \<and> (q \<noteq> Readyqueue \<longrightarrow> w \<notin> set xs)"
    if q: "?qs q = Some xs" for q xs
  proof (cases "q = Readyqueue \<or> q = Keyboardqueue")
    case True
    then show ?thesis
      using q kq rq queues_distinct [OF okD(1) kq] by (auto split: if_splits)
  next
    case False
    then have qx: "qs q = Some xs" using q by simp
    with queues_disjoint [OF okD(1) qx kq, of w] False show ?thesis by auto
  qed
  have sub: "queued ?qs \<subseteq> queued qs"
  proof
    fix t assume "t \<in> queued ?qs"
    then obtain q xs where qx: "?qs q = Some xs" "t \<in> set xs" by (auto simp: queued_def ran_def)
    from members [OF qx(1)] qx(2) mem show "t \<in> queued qs" using queued_member by blast
  qed
  obtain i where i: "idle_task s = Some i" "i < 10"
    "\<And>q xs. qs q = Some xs \<Longrightarrow> i \<in> set xs \<Longrightarrow> q = Readyqueue" by (rule sched_ok_idle [OF ok]) (rule that; assumption)
  have iw: "i \<noteq> w" using i(3) [OF kq] by auto
  have "sched_ok s' ?qs"
    unfolding sched_ok_def
  proof (intro conjI allI impI)
    show "queues (lists s') ?qs" by (rule s'(2))
    show "{Freequeue, Readyqueue, Keyboardqueue} \<subseteq> dom ?qs" using okD(3) by auto
    show "cur s' < NR_TASKS" "queued ?qs \<subseteq> {..<NR_TASKS}" "cur s' \<notin> queued ?qs"
      "state (task_of s' (cur s')) = ST_RUN"
      using okD(5-8) s'(4) s'(8) [of "cur s"] wc sub by auto
    show "state (task_of s' t) = ST_BLOCKED"
      if q: "?qs q = Some xs" "t \<in> set xs" "q \<noteq> Readyqueue" "q \<noteq> Freequeue" for q xs t
    proof -
      obtain ys where ys: "qs q = Some ys" "t \<in> set ys" "t \<noteq> w" using members [OF q(1)] q(2,3) by blast
      then show ?thesis using sched_ok_blocked [OF ok ys(1,2) q(3,4)] s'(8) by simp
    qed
    have idle: "idle_task s' = Some i" using i(1) s'(3) by (simp add: sched_frame_def)
    have "q = Readyqueue" if q: "?qs q = Some xs" "i \<in> set xs" for q xs
      using members [OF q(1)] q(2) iw i(3) by blast
    then have "\<forall>q xs. ?qs q = Some xs \<longrightarrow> i \<in> set xs \<longrightarrow> q = Readyqueue" by blast
    then show "\<exists>i<NR_TASKS. idle_task s' = Some i \<and>
        (\<forall>q xs. ?qs q = Some xs \<longrightarrow> i \<in> set xs \<longrightarrow> q = Readyqueue)"
      using i(2) idle unfolding sched_values by (intro exI [of _ i] conjI)
  qed
  then show ?thesis
    by (intro exI [of _ s'] conjI allI s'(1,3-6)) (assumption, rule s'(7))
qed

text \<open>What an input interrupt leaves alone: all but the screen, the ring, the queues and their tasks' state.\<close>

definition input_frame :: "kstate \<Rightarrow> kstate \<Rightarrow> bool" where
  "input_frame s s' \<longleftrightarrow>
     syms s' = syms s \<and> cur s' = cur s \<and> idle_task s' = idle_task s \<and> nextPid s' = nextPid s \<and>
     remaining_ticks s' = remaining_ticks s \<and> semaphores s' = semaphores s \<and>
     phys_mem s' = phys_mem s \<and> dir_pages s' = dir_pages s \<and> pagusr_table s' = pagusr_table s \<and>
     dir_references s' = dir_references s \<and> cr3 s' = cr3 s \<and> ram s' = ram s \<and>
     (\<forall>t. PID (task_of s' t) = PID (task_of s t) \<and> kb_data (task_of s' t) = kb_data (task_of s t) \<and>
          kernel_esp (task_of s' t) = kernel_esp (task_of s t) \<and>
          dir_pages_baseAddr (task_of s' t) = dir_pages_baseAddr (task_of s t))"

lemma input_frame_refl [simp, intro]: "input_frame s s"
  by (simp add: input_frame_def)

lemma input_frame_trans: "input_frame s s1 \<Longrightarrow> input_frame s1 s2 \<Longrightarrow> input_frame s s2"
  by (simp add: input_frame_def)

definition pressed :: "Byte \<Rightarrow> bool" where
  "pressed key \<longleftrightarrow> key AND 0x80 = 0 \<and> unat (key AND 0x7F) < 98"

definition key_char :: "Byte \<Rightarrow> Byte" where
  "key_char key = (if char_map ! unat (key AND 0x7F) = 0 then 0x43 else char_map ! unat (key AND 0x7F))"

lemma length_char_map: "length char_map = 98"
  by (simp add: char_map_def)

definition key_stored :: "kstate \<Rightarrow> Byte \<Rightarrow> Byte list" where
  "key_stored s key = (if length (contents (cb s)) = capacity (cb s) then contents (cb s)
                       else contents (cb s) @ [key_char key])"

text \<open>The queues after a key press: the first reader leaves when the ring holds what it still wants.\<close>

definition key_queues :: "kstate \<Rightarrow> Byte \<Rightarrow> queue_map \<Rightarrow> queue_map" where
  "key_queues s key qs =
     (case (qs Keyboardqueue, qs Readyqueue) of
        (Some (w # ws), Some rs) \<Rightarrow>
          if to_read (kb_data (task_of s w)) \<le> int (length (key_stored s key)) \<or>
             length (contents (cb s)) = capacity (cb s)
          then qs(Keyboardqueue \<mapsto> ws, Readyqueue \<mapsto> rs @ [w]) else qs
      | _ \<Rightarrow> qs)"

lemma input_frame_printc_xy: "input_frame s ((printc_xy a b c s)\<lparr>cb := r\<rparr>)"
  and sched_ok_printc_xy: "sched_ok (printc_xy a b c s) qs = sched_ok s qs"
  and cb_printc_xy: "cb (printc_xy a b c s) = cb s"
  and lists_printc_xy: "lists (printc_xy a b c s) = lists s"
  and task_of_printc_xy: "task_of (printc_xy a b c s) t = task_of s t"
  by (simp_all add: input_frame_def sched_ok_def printc_xy_def printc_def Let_def task_of_def)

lemma put_contents:
  assumes "cb_ok (cb s)"
  shows "\<exists>r b. circular_buf_put (key_char key) (cb s) = Some (r, b) \<and> cb_ok b \<and>
    contents b = key_stored s key \<and> capacity b = capacity (cb s) \<and>
    (r < 0 \<longleftrightarrow> length (contents (cb s)) = capacity (cb s))"
proof (cases "length (contents (cb s)) = capacity (cb s)")
  case True
  with ring.put_refuses [OF assms True] assms show ?thesis by (simp add: key_stored_def)
next
  case False
  with contents_le_capacity [OF assms] have "length (contents (cb s)) < capacity (cb s)" by simp
  with ring.put_accepts [OF assms this, of "key_char key"] False show ?thesis
    by (auto simp: key_stored_def)
qed

lemma key_press:
  assumes ok: "sched_ok s qs" and b: "cb_ok (cb s)" and key: "pressed key"
  shows "\<exists>s'. keyboard_interrupt key s = Some s' \<and> sched_ok s' (key_queues s key qs) \<and>
    input_frame s s' \<and> cb_ok (cb s') \<and> contents (cb s') = key_stored s key \<and>
    capacity (cb s') = capacity (cb s)"
proof -
  obtain ws rs where q: "qs Keyboardqueue = Some ws" "qs Readyqueue = Some rs"
    using sched_okD(2,4) [OF ok] by blast
  obtain r b' where put: "circular_buf_put (key_char key) (cb s) = Some (r, b')" "cb_ok b'"
    "contents b' = key_stored s key" "capacity b' = capacity (cb s)"
    "r < 0 \<longleftrightarrow> length (contents (cb s)) = capacity (cb s)"
    using put_contents [OF b] by blast
  let ?s = "(printc_xy 0 0 (key_char key) s)\<lparr>cb := b'\<rparr>"
  have ok': "sched_ok ?s qs" using ok by (simp add: sched_ok_printc_xy)
  have e: "list_empty (Some Keyboardqueue) (lists s) = Some (ws = [])"
    using queues_empty [OF sched_okD(1) [OF ok] q(1)] by simp
  have head: "keyboard_interrupt key s = (if ws = [] then Some ?s
      else do { nx \<leftarrow> list_first (Some Keyboardqueue) (lists s); t \<leftarrow> list_head_to_task_struct nx;
                if to_read (kb_data (task_of s t)) \<le> int (length (key_stored s key)) \<or>
                   length (contents (cb s)) = capacity (cb s)
                then update_process_state_rr t (Some Readyqueue) ?s else Some ?s })"
    using key put e num_elems_contents [OF put(2)]
    by (simp add: keyboard_interrupt_def pressed_def length_char_map Let_def key_char_def [symmetric]
        cb_printc_xy lists_printc_xy task_of_printc_xy cong: if_cong)
  show ?thesis
  proof (cases ws)
    case Nil
    then show ?thesis using head q put ok' input_frame_printc_xy by (simp add: key_queues_def)
  next
    case (Cons w us)
    have first: "list_first (Some Keyboardqueue) (lists s) = Some (Some (TaskNode w))"
      using queues_first [OF sched_okD(1) [OF ok]] q(1) Cons by simp
    show ?thesis
    proof (cases "to_read (kb_data (task_of s w)) \<le> int (length (key_stored s key)) \<or>
        length (contents (cb s)) = capacity (cb s)")
      case False
      then show ?thesis using head first q put ok' Cons input_frame_printc_xy
        by (simp add: key_queues_def)
    next
      case True
      obtain s' where s': "update_process_state_rr w (Some Readyqueue) ?s = Some s'"
        "sched_ok s' (qs(Keyboardqueue \<mapsto> us, Readyqueue \<mapsto> rs @ [w]))" "sched_frame ?s s'"
        "cur s' = cur ?s" "remaining_ticks s' = remaining_ticks ?s" "cr3 s' = cr3 ?s"
        "\<forall>t. kernel_esp (task_of s' t) = kernel_esp (task_of ?s t)"
        using wake [OF ok' _ q(2), of w us] q(1) Cons by blast
      have fr: "input_frame ?s s'" using s'(3-7) by (simp add: input_frame_def sched_frame_def)
      have cb: "cb s' = b'" using s'(3) by (simp add: sched_frame_def)
      have "key_queues s key qs = qs(Keyboardqueue \<mapsto> us, Readyqueue \<mapsto> rs @ [w])"
        using True q Cons by (simp add: key_queues_def)
      moreover have "keyboard_interrupt key s = Some s'" using head first True Cons s'(1) by simp
      moreover have "input_frame s s'" by (rule input_frame_trans [OF input_frame_printc_xy fr])
      ultimately show ?thesis using s'(2) put(2-4) cb by (intro exI [of _ s']) simp
    qed
  qed
qed

section \<open>Typing\<close>

primrec key_presses :: "Byte list \<Rightarrow> kstate \<Rightarrow> kstate option" where
  "key_presses [] s = Some s"
| "key_presses (k # ks) s = do { s \<leftarrow> keyboard_interrupt k s; key_presses ks s }"

text \<open>With no reader waiting the characters are kept, as far as the ring has room.\<close>

lemma typing_ahead:
  assumes "sched_ok s qs" and "qs Keyboardqueue = Some []" and "cb_ok (cb s)"
    and "\<forall>k \<in> set ks. pressed k"
  shows "\<exists>s'. key_presses ks s = Some s' \<and> sched_ok s' qs \<and> input_frame s s' \<and> cb_ok (cb s') \<and>
    contents (cb s') = take (capacity (cb s)) (contents (cb s) @ map key_char ks)"
  using assms
proof (induction ks arbitrary: s)
  case Nil
  then show ?case using contents_le_capacity [of "cb s"] by (intro exI [of _ s]) simp
next
  case (Cons k ks)
  have "key_queues s k qs = qs" using Cons.prems(2) by (simp add: key_queues_def)
  then obtain s1 where s1: "keyboard_interrupt k s = Some s1" "sched_ok s1 qs" "input_frame s s1"
    "cb_ok (cb s1)" "contents (cb s1) = key_stored s k" "capacity (cb s1) = capacity (cb s)"
    using key_press [OF Cons.prems(1,3), of k] Cons.prems(4) by auto
  obtain s2 where s2: "key_presses ks s1 = Some s2" "sched_ok s2 qs" "input_frame s1 s2" "cb_ok (cb s2)"
    "contents (cb s2) = take (capacity (cb s1)) (contents (cb s1) @ map key_char ks)"
    using Cons.IH [OF s1(2) Cons.prems(2) s1(4)] Cons.prems(4) by auto
  have "take (capacity (cb s)) (key_stored s k @ map key_char ks)
      = take (capacity (cb s)) (contents (cb s) @ map key_char (k # ks))"
    using contents_le_capacity [OF Cons.prems(3)] Suc_diff_Suc [of "length (contents (cb s))" "capacity (cb s)"]
    by (cases "capacity (cb s) - length (contents (cb s))") (auto simp: key_stored_def)
  with s1 s2 input_frame_trans [OF s1(3) s2(3)] show ?case by simp
qed

text \<open>A waiting reader leaves the queue with the key press that completes its request, not before.\<close>

lemma typing_wakes:
  assumes "sched_ok s qs" and "qs Keyboardqueue = Some (w # ws)" and "qs Readyqueue = Some rs"
    and "cb_ok (cb s)" and "\<forall>k \<in> set ks. pressed k" and "ks \<noteq> []"
    and "to_read (kb_data (task_of s w)) = int (length (contents (cb s)) + length ks)"
    and "length (contents (cb s)) + length ks \<le> capacity (cb s)"
  shows "\<exists>s'. key_presses ks s = Some s' \<and>
    sched_ok s' (qs(Keyboardqueue \<mapsto> ws, Readyqueue \<mapsto> rs @ [w])) \<and> input_frame s s' \<and> cb_ok (cb s') \<and>
    contents (cb s') = contents (cb s) @ map key_char ks"
  using assms
proof (induction ks arbitrary: s)
  case (Cons k ks)
  have room: "length (contents (cb s)) < capacity (cb s)" using Cons.prems(8) by simp
  then have st: "key_stored s k = contents (cb s) @ [key_char k]" by (simp add: key_stored_def)
  have kq: "key_queues s k qs = (if ks = [] then qs(Keyboardqueue \<mapsto> ws, Readyqueue \<mapsto> rs @ [w]) else qs)"
    using Cons.prems(2,3,7) room st by (auto simp: key_queues_def)
  obtain s1 where s1: "keyboard_interrupt k s = Some s1" "sched_ok s1 (key_queues s k qs)"
    "input_frame s s1" "cb_ok (cb s1)" "contents (cb s1) = contents (cb s) @ [key_char k]"
    "capacity (cb s1) = capacity (cb s)"
    using key_press [OF Cons.prems(1,4), of k] Cons.prems(5) st by auto
  show ?case
  proof (cases "ks = []")
    case True
    have "sched_ok s1 (qs(Keyboardqueue \<mapsto> ws, Readyqueue \<mapsto> rs @ [w]))"
      using s1(2) unfolding kq True by (simp only: simp_thms if_True)
    with True s1 show ?thesis
      by (intro exI [of _ s1] conjI) (simp_all del: fun_upd_apply)
  next
    case False
    have kb: "to_read (kb_data (task_of s1 w)) = int (length (contents (cb s1)) + length ks)"
      using s1(3,5) Cons.prems(7) by (simp add: input_frame_def)
    have ok1: "sched_ok s1 qs" using s1(2) kq False by simp
    have rest: "\<forall>k \<in> set ks. pressed k" "length (contents (cb s1)) + length ks \<le> capacity (cb s1)"
      using Cons.prems(5,8) s1(5,6) by simp_all
    obtain s2 where s2: "key_presses ks s1 = Some s2"
      "sched_ok s2 (qs(Keyboardqueue \<mapsto> ws, Readyqueue \<mapsto> rs @ [w]))" "input_frame s1 s2" "cb_ok (cb s2)"
      "contents (cb s2) = contents (cb s1) @ map key_char ks"
      using Cons.IH [OF ok1 Cons.prems(2,3) s1(4) rest(1) False kb rest(2)] by blast
    with s1(1,5) input_frame_trans [OF s1(3) s2(3)] show ?thesis by (simp del: fun_upd_apply)
  qed
qed simp

end
