(* ===== verification/InputTheorems.thy ===== *)
theory InputTheorems
  imports DeviceProps Samples
begin

text \<open>
  The properties of the keyboard: typing ahead, reading what was typed, waiting for it and being
  woken by it. The sample states are those of the first process reading three characters.
\<close>

section \<open>Sample states\<close>

text \<open>Three key presses, \<open>qwe\<close>.\<close>

definition sample_keys :: "Byte list" where
  "sample_keys = [0x10, 0x11, 0x12]"

lemma sample_keys_pressed: "\<forall>k \<in> set sample_keys. pressed k"
  by (simp add: sample_keys_def pressed_def)

lemma sample_keys_chars: "map key_char sample_keys = [0x71, 0x77, 0x65]"
  by (simp add: sample_keys_def key_char_def char_map_def)

lemma sample_input: "sched_ok sample first_queues" "cb_ok (cb sample)" "contents (cb sample) = []"
    "capacity (cb sample) = 4095" "cur sample = 8" "idle_task sample = Some 9"
  using sample_first unfolding first_process_def by blast+

lemma first_queues_values: "first_queues Keyboardqueue = Some []" "first_queues Readyqueue = Some []"
  by (simp_all add: first_queues_def boot_queues_def)

definition sample_typed :: kstate where
  "sample_typed = the (key_presses sample_keys sample)"

lemma sample_typed: "key_presses sample_keys sample = Some sample_typed"
    "sched_ok sample_typed first_queues" "input_frame sample sample_typed" "cb_ok (cb sample_typed)"
    "contents (cb sample_typed) = [0x71, 0x77, 0x65]"
proof -
  obtain s' where "key_presses sample_keys sample = Some s'" "sched_ok s' first_queues"
    "input_frame sample s'" "cb_ok (cb s')"
    "contents (cb s') = take (capacity (cb sample)) (contents (cb sample) @ map key_char sample_keys)"
    using typing_ahead [OF sample_input(1) first_queues_values(1) sample_input(2) sample_keys_pressed]
    by blast
  then show "key_presses sample_keys sample = Some sample_typed" "sched_ok sample_typed first_queues"
    "input_frame sample sample_typed" "cb_ok (cb sample_typed)"
    "contents (cb sample_typed) = [0x71, 0x77, 0x65]"
    by (simp_all add: sample_typed_def sample_keys_chars sample_input)
qed

definition sample_asked :: kstate where
  "sample_asked = upd_kb (\<lambda>_. \<lparr>to_read = 3, already_read = 0\<rparr>) sample"

lemma sample_asked: "sched_ok sample_asked first_queues" "cb_ok (cb sample_asked)"
    "contents (cb sample_asked) = []" "capacity (cb sample_asked) = 4095"
    "to_read (kb_data (task_of sample_asked 8)) = 3" "cur sample_asked = 8" "idle_task sample_asked = Some 9"
  by (simp_all add: sample_asked_def sample_input)

lemma sys_read_asked: "sys_read_keyboard buf 3 sample = read_resumed buf 3 sample_asked"
  by (simp add: sys_read_keyboard_def sample_asked_def)

definition reading_queues :: queue_map where
  "reading_queues = after_next (first_queues(Keyboardqueue \<mapsto> [8]))"

lemma reading_queues_values: "reading_queues Keyboardqueue = Some [8]" "reading_queues Readyqueue = Some []"
  by (simp_all add: reading_queues_def after_next_def first_queues_values)

definition sample_reading :: kstate where
  "sample_reading = snd (the (sys_read_keyboard 0x108000 3 sample))"

lemma sample_reading: "sys_read_keyboard 0x108000 3 sample = Some (Switched, sample_reading)"
    "sched_ok sample_reading reading_queues" "sched_frame sample_asked sample_reading"
    "cur sample_reading = 9"
proof -
  have ne: "idle_task sample_asked \<noteq> Some (cur sample_asked)" by (simp add: sample_asked)
  have "next_of s first_queues = the (idle_task s)" for s
    by (simp add: next_of_def first_queues_values)
  then obtain s' where "sys_read_keyboard 0x108000 3 sample = Some (Switched, s')"
    "sched_ok s' reading_queues" "sched_frame sample_asked s'" "cur s' = 9"
    using reader_waits [OF sample_asked(1) first_queues_values(1) sample_asked(2), of 3 "0x108000"] ne
    unfolding sys_read_asked reading_queues_def by (auto simp: sample_asked simp del: fun_upd_apply)
  then show "sys_read_keyboard 0x108000 3 sample = Some (Switched, sample_reading)"
    "sched_ok sample_reading reading_queues" "sched_frame sample_asked sample_reading"
    "cur sample_reading = 9"
    by (simp_all add: sample_reading_def)
qed

section \<open>Properties\<close>

text \<open>
  C20: Characters typed while nobody reads are kept in the order of the key presses, until the ring
  is full; what is typed then is lost.
\<close>

theorem keys_are_kept:
  assumes "sched_ok s qs" and "qs Keyboardqueue = Some []" and "cb_ok (cb s)"
    and "\<forall>k \<in> set ks. pressed k"
  shows "\<exists>s'. key_presses ks s = Some s' \<and> sched_ok s' qs \<and> input_frame s s' \<and> cb_ok (cb s') \<and>
    contents (cb s') = take (capacity (cb s)) (contents (cb s) @ map key_char ks)"
  by (rule typing_ahead [OF assms])

theorem keys_are_kept_witness:
  "\<exists>s'. key_presses sample_keys sample_typed = Some s' \<and>
    contents (cb s') = take (capacity (cb sample_typed)) [0x71, 0x77, 0x65, 0x71, 0x77, 0x65]"
  using keys_are_kept [OF sample_typed(2) first_queues_values(1) sample_typed(4) sample_keys_pressed]
  by (auto simp: sample_typed(5) sample_keys_chars)

text \<open>
  C21: A read of \<open>n\<close> characters, when the ring holds that many and no other reader waits, returns
  \<open>n\<close>; its buffer holds the first \<open>n\<close> characters of the ring in order, the ring keeps the rest, and
  no other byte of memory changes.
\<close>

theorem read_takes_typed:
  assumes "sched_ok s qs" and "qs Keyboardqueue = Some []" and "cb_ok (cb s)"
    and "n \<le> length (contents (cb s))" and "0 < n" and "user_region s buf n"
  shows "\<exists>b m. sys_read_keyboard buf (int n) s = Some (Return (int n),
      (upd_kb (\<lambda>k. \<lparr>to_read = 0, already_read = int n\<rparr>) s)\<lparr>cb := b, ram := m\<rparr>) \<and> cb_ok b \<and>
    contents b = drop n (contents (cb s)) \<and> user_bytes (s\<lparr>ram := m\<rparr>) buf n = take n (contents (cb s)) \<and>
    (\<forall>f k. Some (f, k) \<notin> cells s buf n \<longrightarrow> m f k = ram s f k)"
proof -
  let ?s = "upd_kb (\<lambda>_. \<lparr>to_read = int n, already_read = 0\<rparr>) s"
  have "n \<le> 2147483647"
    using assms(4) contents_le_capacity [OF assms(3)] assms(3) by (auto simp: capacity_def cb_ok_def)
  then obtain b m where bm: "read_resumed buf (int n) ?s = Some (Return (int n),
      (upd_kb (\<lambda>k. \<lparr>to_read = to_read k - int n, already_read = already_read k + int n\<rparr>) ?s)
        \<lparr>cb := b, ram := m\<rparr>)" "keys_taken buf n ?s b m"
    using read_available [of ?s qs n buf] assms by (auto simp: int_ok_def)
  from bm(2) have "keys_taken buf n s b m" by simp
  with bm(1) show ?thesis unfolding sys_read_keyboard_def keys_taken_def by auto
qed

theorem read_takes_typed_witness:
  "\<exists>b m s'. sys_read_keyboard 0x108000 2 sample_typed = Some (Return 2, s') \<and>
    contents (cb s') = [0x65] \<and> user_bytes (sample_typed\<lparr>ram := m\<rparr>) 0x108000 2 = [0x71, 0x77]"
proof -
  have "translate va sample_typed = translate va sample" for va
    by (rule translate_same) (use sample_typed(3) in \<open>simp_all add: input_frame_def\<close>)
  then have "user_region sample_typed 0x108000 2" using sample_region [of 2] by (simp add: user_region_def)
  from read_takes_typed [OF sample_typed(2) first_queues_values(1) sample_typed(4) _ _ this]
  show ?thesis by (auto simp: sample_typed(5))
qed

text \<open>
  C23: A reader waits when another one is in the queue, or when the ring holds too few characters and
  is not full: it is blocked at the end of the keyboard queue, it takes nothing, and the next ready
  task runs. So a reader that was woken goes back to waiting, whatever was typed, when another
  process has started to read meanwhile.
\<close>

theorem read_waits:
  assumes "sched_ok s qs" and "qs Keyboardqueue = Some ws" and "cb_ok (cb s)"
    and "ws \<noteq> [] \<or> length (contents (cb s)) < n \<and> length (contents (cb s)) < capacity (cb s)"
    and "0 < to_read (kb_data (task_of s (cur s)))" and "idle_task s \<noteq> Some (cur s)"
  shows "\<exists>s'. read_resumed buf (int n) s = Some (Switched, s') \<and>
    sched_ok s' (after_next (qs(Keyboardqueue \<mapsto> ws @ [cur s]))) \<and> sched_frame s s' \<and>
    cur s' = next_of s qs \<and> kernel_esp (task_of s' (cur s)) = Frames (In_read buf (int n))"
  by (rule reader_waits [OF assms])

theorem read_waits_witness:
  "\<exists>s'. sys_read_keyboard 0x108000 3 sample = Some (Switched, s') \<and>
    kernel_esp (task_of s' 8) = Frames (In_read 0x108000 3)"
  using read_waits [OF sample_asked(1) first_queues_values(1) sample_asked(2), of 3 "0x108000"]
  unfolding sys_read_asked by (auto simp: sample_asked simp del: fun_upd_apply)

text \<open>
  C22: The first waiting reader becomes ready with the key press that completes the number of
  characters it asked for, not before, and all the characters typed are in the ring by then.
\<close>

theorem last_key_wakes:
  assumes "sched_ok s qs" and "qs Keyboardqueue = Some (w # ws)" and "qs Readyqueue = Some rs"
    and "cb_ok (cb s)" and "\<forall>k \<in> set ks. pressed k" and "ks \<noteq> []"
    and "to_read (kb_data (task_of s w)) = int (length (contents (cb s)) + length ks)"
    and "length (contents (cb s)) + length ks \<le> capacity (cb s)"
  shows "\<exists>s'. key_presses ks s = Some s' \<and>
    sched_ok s' (qs(Keyboardqueue \<mapsto> ws, Readyqueue \<mapsto> rs @ [w])) \<and> input_frame s s' \<and> cb_ok (cb s') \<and>
    contents (cb s') = contents (cb s) @ map key_char ks"
  by (rule typing_wakes [OF assms])

theorem last_key_wakes_witness:
  "\<exists>s'. key_presses sample_keys sample_reading = Some s' \<and>
    sched_ok s' (reading_queues(Keyboardqueue \<mapsto> [], Readyqueue \<mapsto> [8])) \<and>
    contents (cb s') = [0x71, 0x77, 0x65]"
proof -
  have f: "cb sample_reading = cb sample_asked" "to_read (kb_data (task_of sample_reading 8)) = 3"
    using sample_reading(3) sample_asked(5,6) by (simp_all add: sched_frame_def)
  have k: "length sample_keys = 3" "sample_keys \<noteq> []" by (simp_all add: sample_keys_def)
  show ?thesis
    using last_key_wakes [OF sample_reading(2) reading_queues_values(1,2) _ sample_keys_pressed k(2)] f k(1)
    by (auto simp: sample_asked sample_keys_chars simp del: fun_upd_apply)
qed

text \<open>
  C24: A request for more characters than the ring can hold does not get them in order: each time the
  ring is full it is emptied to the start of the buffer, over what was stored there before, the
  characters are counted, and the reader waits again.
\<close>

theorem large_read_restarts:
  assumes "sched_ok s qs" and "qs Keyboardqueue = Some []" and "cb_ok (cb s)"
    and "length (contents (cb s)) = capacity (cb s)" and "capacity (cb s) < n"
    and "user_region s buf (capacity (cb s))" and "0 < to_read (kb_data (task_of s (cur s)))"
    and "0 \<le> already_read (kb_data (task_of s (cur s)))"
    and "int_ok (to_read (kb_data (task_of s (cur s))))"
    and "int_ok (already_read (kb_data (task_of s (cur s))) + int (capacity (cb s)))"
    and "idle_task s \<noteq> Some (cur s)"
  shows "\<exists>s'. read_resumed buf (int n) s = Some (Switched, s') \<and>
    sched_ok s' (after_next (qs(Keyboardqueue \<mapsto> [cur s]))) \<and> contents (cb s') = [] \<and>
    already_read (kb_data (task_of s' (cur s)))
      = already_read (kb_data (task_of s (cur s))) + int (capacity (cb s)) \<and>
    user_bytes (s\<lparr>ram := ram s'\<rparr>) buf (capacity (cb s)) = contents (cb s)"
proof -
  let ?c = "capacity (cb s)"
  obtain b m s' where s': "read_resumed buf (int n) s = Some (Switched, s')"
    "sched_ok s' (after_next (qs(Keyboardqueue \<mapsto> [cur s])))"
    "sched_frame ((upd_kb (\<lambda>k. \<lparr>to_read = to_read k - int ?c, already_read = already_read k + int ?c\<rparr>) s)
      \<lparr>cb := b, ram := m\<rparr>) s'" "keys_taken buf ?c s b m" "contents b = []"
    using reader_drains [OF assms] by blast
  then have "cb s' = b" "ram s' = m"
    "already_read (kb_data (task_of s' (cur s))) = already_read (my_kb s) + int ?c"
    by (simp_all add: sched_frame_def task_of_def upd_kb_def upd_task_def)
  with s' assms(4) show ?thesis unfolding keys_taken_def
    by (intro exI [of _ s']) simp
qed

theorem large_read_restarts_witness:
  "\<exists>s s'. read_resumed 0x108000 2 s = Some (Switched, s') \<and> contents (cb s) = [65] \<and>
    contents (cb s') = []"
proof -
  define b where "b = \<lparr>head = 1, tail = 0, cb_size = 2, num_elem = 1, buffer = [65, 0]\<rparr>"
  let ?s = "sample_asked\<lparr>cb := b\<rparr>"
  have b: "cb_ok b" "contents b = [65]" "capacity b = 1"
    by (simp_all add: b_def cb_ok_def contents_def capacity_def)
  have u: "user_region ?s 0x108000 1" using sample_region [of 1] by (simp add: sample_asked_def)
  have ok: "sched_ok ?s first_queues" using sample_asked(1) by simp
  have kb: "kb_data (task_of ?s (cur ?s)) = \<lparr>to_read = 3, already_read = 0\<rparr>"
    by (simp add: sample_asked_def task_of_def upd_kb_def upd_task_def)
  have "\<exists>s'. read_resumed 0x108000 (int 2) ?s = Some (Switched, s') \<and>
    sched_ok s' (after_next (first_queues(Keyboardqueue \<mapsto> [cur ?s]))) \<and> contents (cb s') = [] \<and>
    already_read (kb_data (task_of s' (cur ?s)))
      = already_read (kb_data (task_of ?s (cur ?s))) + int (capacity (cb ?s)) \<and>
    user_bytes (?s\<lparr>ram := ram s'\<rparr>) 0x108000 (capacity (cb ?s)) = contents (cb ?s)"
    by (rule large_read_restarts [OF ok first_queues_values(1)])
      (unfold kb, insert u b, simp_all add: sample_asked int_ok_def)
  then obtain s' where "read_resumed 0x108000 2 ?s = Some (Switched, s')" "contents (cb s') = []" by auto
  with b show ?thesis by (intro exI [of _ ?s] exI [of _ s']) simp
qed

end
