(* ===== verification/Entry.thy ===== *)
theory Entry
  imports Devices SysProc SysSem
begin

text \<open>
  The entry points of \<open>entry.S\<close> and the table of \<open>sys_call_table.S\<close>: saving and restoring the
  registers of the interrupted process on the kernel stack of its task, dispatching system calls,
  the two interrupt handlers, and what a task does when it is switched to. Words of the kernel
  stack are named by their index in \<open>stack\<close>; the scratch words below the saved context that the
  handlers push and pop around their calls are not part of the model, except the return address
  that \<open>sys_fork\<close> copies.
\<close>

section \<open>Saving and restoring registers\<close>

record user_regs =
  r_ebx :: DWord
  r_ecx :: DWord
  r_edx :: DWord
  r_esi :: DWord
  r_edi :: DWord
  r_ebp :: DWord
  r_eax :: DWord
  r_ds :: DWord
  r_es :: DWord
  r_fs :: DWord
  r_gs :: DWord
  r_eip :: DWord
  r_cs :: DWord
  r_eflags :: DWord
  r_esp :: DWord
  r_ss :: DWord

definition push :: "DWord \<Rightarrow> nat \<times> kstate \<Rightarrow> nat \<times> kstate" where
  "push v m = (fst m - 1, upd_stack (cur (snd m)) (fst m - 1) v (snd m))"

text \<open>
  The processor takes the kernel stack from the TSS and pushes the return context; \<open>SAVE_ALL\<close>
  pushes the other registers.
\<close>

definition enter_kernel :: "user_regs \<Rightarrow> kstate \<Rightarrow> nat \<times> kstate" where
  "enter_kernel u s =
     fold push [r_ss u, r_esp u, r_eflags u, r_cs u, r_eip u]
       (unat (tss_esp0 s - task_addr (syms s) (cur s)) div 4, s)"

definition SAVE_ALL :: "user_regs \<Rightarrow> nat \<times> kstate \<Rightarrow> nat \<times> kstate" where
  "SAVE_ALL u =
     fold push [r_gs u, r_fs u, r_es u, r_ds u, r_eax u, r_ebp u, r_edi u, r_esi u, r_edx u,
       r_ecx u, r_ebx u]"

text \<open>\<open>RESTORE_ALL\<close> and \<open>iret\<close>, with the stack pointer at index \<open>sp\<close>.\<close>

definition RESTORE_ALL :: "nat \<Rightarrow> kstate \<Rightarrow> user_regs" where
  "RESTORE_ALL sp s =
     (let w = stack (tasks s (cur s))
      in \<lparr>r_ebx = w sp, r_ecx = w (sp + 1), r_edx = w (sp + 2), r_esi = w (sp + 3),
          r_edi = w (sp + 4), r_ebp = w (sp + 5), r_eax = w (sp + 6), r_ds = w (sp + 7),
          r_es = w (sp + 8), r_fs = w (sp + 9), r_gs = w (sp + 10), r_eip = w (sp + 11),
          r_cs = w (sp + 12), r_eflags = w (sp + 13), r_esp = w (sp + 14), r_ss = w (sp + 15)\<rparr>)"

section \<open>The table\<close>

datatype routine =
  Sys_ni | Sys_exit | Sys_fork | Sys_write | Sys_read | Sys_gettime | Sys_sbrk | Sys_clone |
  Sys_getpid | Sys_sem_init | Sys_sem_wait | Sys_sem_signal | Sys_sem_destroy | Sys_get_stats

text \<open>The routines are finitely many, so that a statement about all of them can be computed.\<close>

instantiation routine :: enum
begin

definition enum_routine :: "routine list" where
  "enum_routine =
    [Sys_ni, Sys_exit, Sys_fork, Sys_write, Sys_read, Sys_gettime, Sys_sbrk, Sys_clone, Sys_getpid,
     Sys_sem_init, Sys_sem_wait, Sys_sem_signal, Sys_sem_destroy, Sys_get_stats]"

definition enum_all_routine :: "(routine \<Rightarrow> bool) \<Rightarrow> bool" where
  "enum_all_routine P \<longleftrightarrow> list_all P enum_class.enum"

definition enum_ex_routine :: "(routine \<Rightarrow> bool) \<Rightarrow> bool" where
  "enum_ex_routine P \<longleftrightarrow> list_ex P enum_class.enum"

instance
proof
  have in_enum: "r \<in> set enum_class.enum" for r :: routine by (cases r) (simp_all add: enum_routine_def)
  then show "(UNIV :: routine set) = set enum_class.enum" by auto
  show "distinct (enum_class.enum :: routine list)" by (simp add: enum_routine_def)
  show "enum_class.enum_all P = Ball UNIV P" "enum_class.enum_ex P = Bex UNIV P" for P :: "routine \<Rightarrow> bool"
    using in_enum by (auto simp: enum_all_routine_def enum_ex_routine_def list_all_iff list_ex_iff)
qed

end

definition sys_call_table :: "routine list" where
  "sys_call_table =
    [Sys_ni, Sys_exit, Sys_fork, Sys_ni, Sys_write, Sys_read, Sys_ni, Sys_ni, Sys_ni, Sys_ni,
     Sys_gettime, Sys_ni, Sys_ni, Sys_sbrk, Sys_ni, Sys_ni, Sys_ni, Sys_ni, Sys_ni, Sys_clone,
     Sys_getpid, Sys_sem_init, Sys_sem_wait, Sys_sem_signal, Sys_sem_destroy, Sys_ni, Sys_ni,
     Sys_ni, Sys_ni, Sys_ni, Sys_ni, Sys_ni, Sys_ni, Sys_ni, Sys_ni, Sys_get_stats]"

lemma sys_call_table_length: "length sys_call_table = 36"
  by (simp add: sys_call_table_def)

text \<open>Each routine has a number, and but for the one without a function only one.\<close>

lemma every_routine_has_number: "\<forall>r. r \<in> set sys_call_table \<and> (r = Sys_ni \<or> count_list sys_call_table r = 1)"
  by code_simp

definition MAX_SYSCALL :: nat where
  "MAX_SYSCALL = length sys_call_table"

abbreviation eax_result :: "(int \<times> kstate) option \<Rightarrow> (DWord outcome \<times> kstate) option" where
  "eax_result x \<equiv> map_option (\<lambda>(r, s). (Return (to_u32 r), s)) x"

abbreviation eax_outcome :: "(int outcome \<times> kstate) option \<Rightarrow> (DWord outcome \<times> kstate) option" where
  "eax_outcome x \<equiv> map_option
     (\<lambda>(r, s). (case r of Return v \<Rightarrow> Return (to_u32 v) | Switched \<Rightarrow> Switched, s)) x"

text \<open>The C functions find their arguments in the saved EBX, ECX and EDX.\<close>

definition call_routine ::
  "routine \<Rightarrow> DWord \<Rightarrow> DWord \<Rightarrow> DWord \<Rightarrow> kstate \<Rightarrow> (DWord outcome \<times> kstate) option" where
  "call_routine c a1 a2 a3 s =
     (case c of
        Sys_ni \<Rightarrow> eax_result (Some (sys_ni_syscall s))
      | Sys_exit \<Rightarrow> map_option (\<lambda>(_, s). (Switched, s)) (sys_exit s)
      | Sys_fork \<Rightarrow> eax_result (sys_fork s)
      | Sys_write \<Rightarrow> eax_result (sys_write (to_s32 a1) a2 (to_s32 a3) s)
      | Sys_read \<Rightarrow> eax_outcome (sys_read (to_s32 a1) a2 (to_s32 a3) s)
      | Sys_gettime \<Rightarrow> eax_result (Some (sys_gettime s))
      | Sys_sbrk \<Rightarrow> map_option (\<lambda>(r, s). (Return r, s)) (sys_sbrk (to_s32 a1) s)
      | Sys_clone \<Rightarrow> eax_result (sys_clone a1 a2 s)
      | Sys_getpid \<Rightarrow> eax_result (Some (sys_getpid s))
      | Sys_sem_init \<Rightarrow> eax_result (sys_sem_init (to_s32 a1) a2 s)
      | Sys_sem_wait \<Rightarrow> eax_outcome (sys_sem_wait (to_s32 a1) s)
      | Sys_sem_signal \<Rightarrow> eax_result (sys_sem_signal (to_s32 a1) s)
      | Sys_sem_destroy \<Rightarrow> eax_result (sys_sem_destroy (to_s32 a1) s)
      | Sys_get_stats \<Rightarrow> eax_result (sys_get_stats (to_s32 a1) a2 s))"

section \<open>The handlers\<close>

text \<open>From \<open>fin\<close> on: the result goes to the saved EAX.\<close>

definition syscall_return :: "nat \<Rightarrow> DWord \<Rightarrow> kstate \<Rightarrow> (user_regs \<times> kstate) option" where
  "syscall_return sp eax s =
     do { s \<leftarrow> switch_system_to_user (upd_stack (cur s) (sp + 6) eax s);
          Some (RESTORE_ALL sp s, s) }"

text \<open>\<open>jg err\<close> lets the number \<open>MAX_SYSCALL\<close> itself through: a call to whatever follows the table.\<close>

definition system_call_handler :: "user_regs \<Rightarrow> kstate \<Rightarrow> (user_regs outcome \<times> kstate) option" where
  "system_call_handler u s =
     (let (sp, s) = SAVE_ALL u (enter_kernel u s)
      in do { s \<leftarrow> switch_user_to_system s;
              let eax = to_s32 (r_eax u);
              (r, s) \<leftarrow>
                (if eax < 0 \<or> int MAX_SYSCALL < eax then Some (Return (to_u32 (-38)), s)
                 else if nat eax < length sys_call_table
                 then let w = stack (tasks s (cur s));
                          (_, s) = push (syscall_ret_at (syms s)) (sp, s)
                      in call_routine (sys_call_table ! nat eax) (w sp) (w (sp + 1)) (w (sp + 2)) s
                 else None);
              case r of
                Switched \<Rightarrow> Some (Switched, s)
              | Return v \<Rightarrow> do { (u, s) \<leftarrow> syscall_return sp v s; Some (Return u, s) } })"

definition interrupt_return :: "nat \<Rightarrow> kstate \<Rightarrow> (user_regs \<times> kstate) option" where
  "interrupt_return sp s = do { s \<leftarrow> switch_system_to_user s; Some (RESTORE_ALL sp s, s) }"

text \<open>
  The two interrupt handlers, for an interrupt that arrives in user mode; the end-of-interrupt
  command to the controller has no effect on the state.
\<close>

definition keyboard_handler :: "Byte \<Rightarrow> user_regs \<Rightarrow> kstate \<Rightarrow> (user_regs \<times> kstate) option" where
  "keyboard_handler key u s =
     (let (sp, s) = SAVE_ALL u (enter_kernel u s)
      in do { s \<leftarrow> switch_user_to_system s;
              s \<leftarrow> keyboard_interrupt key s;
              interrupt_return sp s })"

definition clock_handler ::
  "(kstate \<Rightarrow> kstate) \<Rightarrow> user_regs \<Rightarrow> kstate \<Rightarrow> (user_regs outcome \<times> kstate) option" where
  "clock_handler show_clock u s =
     (let (sp, s) = SAVE_ALL u (enter_kernel u s)
      in do { s \<leftarrow> switch_user_to_system s;
              (r, s) \<leftarrow> clock_interrupt show_clock s;
              case r of
                Switched \<Rightarrow> Some (Switched, s)
              | Return _ \<Rightarrow> do { (u, s) \<leftarrow> interrupt_return sp s; Some (Return u, s) } })"

section \<open>Being switched to\<close>

text \<open>
  What the current task does after \<open>inner_task_switch\<close> made it run: it goes back to user mode
  (with its registers), waits again, or is the idle task in its loop (None). The saved context of
  a process is always the topmost one of its stack.
\<close>

definition CONTEXT :: nat where "CONTEXT = KERNEL_STACK_SIZE - 16"

definition resume :: "(kstate \<Rightarrow> kstate) \<Rightarrow> kstate \<Rightarrow> (user_regs option outcome \<times> kstate) option" where
  "resume show_clock s =
     do { t \<leftarrow> switch_target s;
          case t of
            Routine (In_sem_wait n) \<Rightarrow>
              do { (r, s) \<leftarrow> sem_wait_resumed n s;
                   (u, s) \<leftarrow> syscall_return CONTEXT (to_u32 r) s;
                   Some (Return (Some u), s) }
          | Routine (In_read buf n) \<Rightarrow>
              do { (r, s) \<leftarrow> read_resumed buf n s;
                   case r of
                     Switched \<Rightarrow> Some (Switched, s)
                   | Return v \<Rightarrow> do { (u, s) \<leftarrow> syscall_return CONTEXT (to_u32 v) s;
                                     Some (Return (Some u), s) } }
          | Routine In_clock \<Rightarrow>
              if idle_task s = Some (cur s)
              then do { s \<leftarrow> switch_system_to_user (show_clock s); Some (Return None, s) }
              else do { (u, s) \<leftarrow> interrupt_return CONTEXT (show_clock s); Some (Return (Some u), s) }
          | Routine In_exit \<Rightarrow> None
          | At_ret_from_fork sp \<Rightarrow>
              if stack (tasks s (cur s)) sp = syscall_ret_at (syms s)
              then do { (u, s) \<leftarrow> syscall_return (sp + 1) (to_u32 ret_from_fork) s;
                        Some (Return (Some u), s) }
              else None
          | At_cpu_idle \<Rightarrow> Some (Return None, s) }"

section \<open>The saved context\<close>

lemma esp0_index:
  "unat (KERNEL_ESP y t - task_addr y t) div 4 = 1024"
  by (simp add: KERNEL_ESP_def stack_addr_def)

text \<open>The stack after the 16 words were pushed.\<close>

definition with_context :: "user_regs \<Rightarrow> (nat \<Rightarrow> DWord) \<Rightarrow> nat \<Rightarrow> DWord" where
  "with_context u w = w(1023 := r_ss u, 1022 := r_esp u, 1021 := r_eflags u, 1020 := r_cs u,
     1019 := r_eip u, 1018 := r_gs u, 1017 := r_fs u, 1016 := r_es u, 1015 := r_ds u,
     1014 := r_eax u, 1013 := r_ebp u, 1012 := r_edi u, 1011 := r_esi u, 1010 := r_edx u,
     1009 := r_ecx u, 1008 := r_ebx u)"

lemma save_stack:
  assumes "tss_esp0 s = KERNEL_ESP (syms s) (cur s)"
  shows "SAVE_ALL u (enter_kernel u s) = (1008,
    s\<lparr>tasks := (tasks s)(cur s := (tasks s (cur s))\<lparr>stack := with_context u (stack (tasks s (cur s)))\<rparr>)\<rparr>)"
  by (simp add: SAVE_ALL_def enter_kernel_def push_def assms esp0_index upd_stack_def with_context_def)

text \<open>The context that the topmost 16 words hold.\<close>

definition context_of :: "(nat \<Rightarrow> DWord) \<Rightarrow> user_regs" where
  "context_of w =
     \<lparr>r_ebx = w 1008, r_ecx = w 1009, r_edx = w 1010, r_esi = w 1011, r_edi = w 1012, r_ebp = w 1013,
      r_eax = w 1014, r_ds = w 1015, r_es = w 1016, r_fs = w 1017, r_gs = w 1018, r_eip = w 1019,
      r_cs = w 1020, r_eflags = w 1021, r_esp = w 1022, r_ss = w 1023\<rparr>"

lemma context_of_simps [simp]:
  "context_of (with_context u w) = u"
  "context_of (w(1014 := v)) = (context_of w)\<lparr>r_eax := v\<rparr>"
  "context_of (w(1019 := v)) = (context_of w)\<lparr>r_eip := v\<rparr>"
  "context_of (w(1022 := v)) = (context_of w)\<lparr>r_esp := v\<rparr>"
  "k < 1008 \<Longrightarrow> context_of (w(k := v)) = context_of w"
  by (simp_all add: context_of_def with_context_def)

lemma RESTORE_ALL_context: "RESTORE_ALL 1008 s = context_of (stack (tasks s (cur s)))"
  by (simp add: RESTORE_ALL_def context_of_def Let_def)

end
