(* ===== verification/EntryProps.thy ===== *)
theory EntryProps
  imports Entry ForkProps
begin

text \<open>
  What a process sees of a system call: its registers come back as they were, but for EAX; the
  number in EAX selects the routine; the two processes that a fork leaves have the same registers
  but for EAX.
\<close>

section \<open>The saved context survives\<close>

definition user_context :: "kstate \<Rightarrow> nat \<Rightarrow> user_regs" where
  "user_context s t = context_of (stack (tasks s t))"

lemma syscall_return_spec:
  "syscall_return 1008 v s = Some ((user_context s (cur s))\<lparr>r_eax := v\<rparr>,
    charge system_ticks_update (cur s) (upd_stack (cur s) 1014 v s))"
  by (simp add: syscall_return_def switch_eqs RESTORE_ALL_context user_context_def upd_stack_def)

section \<open>Dispatching\<close>

text \<open>The state in which the handlers call their C function.\<close>

definition entered :: "user_regs \<Rightarrow> kstate \<Rightarrow> kstate" where
  "entered u s = charge user_ticks_update (cur s)
     (s\<lparr>tasks := (tasks s)(cur s := (tasks s (cur s))\<lparr>stack := with_context u (stack (tasks s (cur s)))\<rparr>)\<rparr>)"

definition called :: "user_regs \<Rightarrow> kstate \<Rightarrow> kstate" where
  "called u s = upd_stack (cur s) 1007 (syscall_ret_at (syms s)) (entered u s)"

lemma entered_frame [simp]:
  "syms (entered u s) = syms s" "lists (entered u s) = lists s" "cur (entered u s) = cur s"
  "idle_task (entered u s) = idle_task s" "nextPid (entered u s) = nextPid s"
  "remaining_ticks (entered u s) = remaining_ticks s" "semaphores (entered u s) = semaphores s"
  "cb (entered u s) = cb s" "phys_mem (entered u s) = phys_mem s" "dir_pages (entered u s) = dir_pages s"
  "pagusr_table (entered u s) = pagusr_table s" "dir_references (entered u s) = dir_references s"
  "tss_esp0 (entered u s) = tss_esp0 s" "cr3 (entered u s) = cr3 s" "ram (entered u s) = ram s"
  "zeos_ticks (entered u s) = zeos_ticks s"
  "stack (tasks (entered u s) t) = (if t = cur s then with_context u (stack (tasks s t)) else stack (tasks s t))"
  "PID (task_of (entered u s) t) = PID (task_of s t)"
  "dir_pages_baseAddr (task_of (entered u s) t) = dir_pages_baseAddr (task_of s t)"
  "kernel_esp (task_of (entered u s) t) = kernel_esp (task_of s t)"
  "quantum (task_of (entered u s) t) = quantum (task_of s t)"
  "state (task_of (entered u s) t) = state (task_of s t)"
  "program_break (task_of (entered u s) t) = program_break (task_of s t)"
  by (simp_all add: entered_def task_of_def [of "s\<lparr>tasks := _\<rparr>"] task_of_def [symmetric])

lemma called_frame [simp]:
  "syms (called u s) = syms s" "lists (called u s) = lists s" "cur (called u s) = cur s"
  "idle_task (called u s) = idle_task s" "nextPid (called u s) = nextPid s"
  "remaining_ticks (called u s) = remaining_ticks s" "semaphores (called u s) = semaphores s"
  "cb (called u s) = cb s" "phys_mem (called u s) = phys_mem s" "dir_pages (called u s) = dir_pages s"
  "pagusr_table (called u s) = pagusr_table s" "dir_references (called u s) = dir_references s"
  "tss_esp0 (called u s) = tss_esp0 s" "cr3 (called u s) = cr3 s" "ram (called u s) = ram s"
  "zeos_ticks (called u s) = zeos_ticks s"
  "stack (tasks (called u s) t) = (if t = cur s
     then (with_context u (stack (tasks s t)))(1007 := syscall_ret_at (syms s)) else stack (tasks s t))"
  "task_of (called u s) t = task_of (entered u s) t"
  by (simp_all add: called_def upd_stack_def task_of_def)

lemma user_context_entered [simp]:
  "user_context (entered u s) (cur s) = u" "user_context (called u s) (cur s) = u"
  by (simp_all add: user_context_def)

lemma dispatch:
  assumes "tss_esp0 s = KERNEL_ESP (syms s) (cur s)"
    and "to_s32 (r_eax u) = int n" and "n < 36"
  shows "system_call_handler u s =
    do { (r, s') \<leftarrow> call_routine (sys_call_table ! n) (r_ebx u) (r_ecx u) (r_edx u) (called u s);
         case r of
           Switched \<Rightarrow> Some (Switched, s')
         | Return v \<Rightarrow> do { (u', s') \<leftarrow> syscall_return 1008 v s'; Some (Return u', s') } }"
proof -
  note len = sys_call_table_length
  have w: "with_context u w 1008 = r_ebx u" "with_context u w 1009 = r_ecx u"
    "with_context u w 1010 = r_edx u" for w
    by (simp_all add: with_context_def)
  show ?thesis
    using assms(2,3) w
    by (simp add: system_call_handler_def save_stack [OF assms(1)] switch_eqs entered_def [symmetric]
        MAX_SYSCALL_def len push_def called_def [symmetric])
qed

lemma dispatch_error:
  assumes "tss_esp0 s = KERNEL_ESP (syms s) (cur s)"
    and "to_s32 (r_eax u) < 0 \<or> 36 < to_s32 (r_eax u)"
  shows "\<exists>s'. system_call_handler u s = Some (Return (u\<lparr>r_eax := to_u32 (-38)\<rparr>), s')"
proof -
  note len = sys_call_table_length
  show ?thesis
    using assms(2) syscall_return_spec [of "to_u32 (-38)" "entered u s"]
    by (auto simp: system_call_handler_def save_stack [OF assms(1)] switch_eqs entered_def [symmetric]
        MAX_SYSCALL_def len)
qed

lemma dispatch_limit:
  assumes "tss_esp0 s = KERNEL_ESP (syms s) (cur s)" and "to_s32 (r_eax u) = 36"
  shows "system_call_handler u s = None"
proof -
  note len = sys_call_table_length
  show ?thesis
    using assms(2)
    by (simp add: system_call_handler_def save_stack [OF assms(1)] switch_eqs MAX_SYSCALL_def len)
qed

section \<open>Creating processes\<close>

lemma sched_ok_called [simp]: "sched_ok (called u s) qs = sched_ok s qs"
  by (simp add: sched_ok_def)

lemma space_called [simp]: "space (called u s) t i = space s t i"
  "paging_ok (called u s) = paging_ok s" "in_space (called u s) i = in_space s i"
  by (simp_all add: space_def paging_ok_def in_space_def)

lemma frame_of_called [simp]: "frame_of (called u s) i p = frame_of s i p"
  by (simp add: frame_of_def)

lemma fork_ready_called [simp]:
  "fork_ready (called u s) qs i j c fs rs k = fork_ready s qs i j c fs rs k"
  by (simp add: fork_ready_def data_pages_ok_def)

lemma clone_ready_called [simp]:
  "clone_ready (called u s) qs i c fs rs = clone_ready s qs i c fs rs"
  by (simp add: clone_ready_def)

text \<open>A task whose stack a creating call prepared starts in user mode with EAX zero.\<close>

lemma first_run:
  assumes "kernel_esp (task_of s (cur s)) = Esp (stack_addr (syms s) (cur s) SLOT_ebp)"
    and "stack (tasks s (cur s)) 1006 = ret_from_fork_at (syms s)"
    and "stack (tasks s (cur s)) 1007 = syscall_ret_at (syms s)"
  shows "\<exists>s'. resume show_clock s = Some (Return (Some ((user_context s (cur s))\<lparr>r_eax := 0\<rparr>)), s')"
proof -
  have "switch_target s = Some (At_ret_from_fork 1007)"
    using dynamic_link_target [OF assms(1)] assms(2) by simp
  then show ?thesis
    using assms(3) syscall_return_spec [of 0 s] by (simp add: resume_def ret_from_fork_def to_u32_def)
qed

lemma to_u32_to_s32 [simp]: "to_u32 (to_s32 w) = w"
  by (simp add: to_u32_def to_s32_def)

lemma call_fork:
  assumes esp0: "tss_esp0 s = KERNEL_ESP (syms s) (cur s)" and eax: "to_s32 (r_eax u) = 2"
    and ready: "fork_ready s qs i j c fs rs k"
  shows "\<exists>s'. system_call_handler u s = Some (Return (u\<lparr>r_eax := nextPid s + 1\<rparr>), s') \<and>
    sched_ok s' (qs(Freequeue \<mapsto> fs, Readyqueue \<mapsto> rs @ [c])) \<and>
    user_context s' c = u \<and> syms s' = syms s \<and> cur s' = cur s \<and>
    kernel_esp (task_of s' c) = Esp (stack_addr (syms s) c SLOT_ebp) \<and>
    stack (tasks s' c) 1006 = ret_from_fork_at (syms s) \<and>
    stack (tasks s' c) 1007 = syscall_ret_at (syms s) \<and> remaining_ticks s' = remaining_ticks s \<and>
    (\<forall>t. t \<noteq> c \<longrightarrow> quantum (task_of s' t) = quantum (task_of s t))"
proof -
  have n: "to_s32 (r_eax u) = int 2" using eax by simp
  have r: "fork_ready (called u s) qs i j c fs rs k" using ready by simp
  have cc: "cur s \<noteq> c"
    using sched_okD(7) [OF fork_readyD(1) [OF ready]] fork_readyD(2) [OF ready]
      queued_member [of qs Freequeue "c # fs" c] by auto
  obtain s1 where s1: "sys_fork (called u s) = Some (to_s32 (nextPid s + 1), s1)"
    "sched_ok s1 (qs(Freequeue \<mapsto> fs, Readyqueue \<mapsto> rs @ [c]))"
    "kernel_esp (task_of s1 c) = Esp (stack_addr (syms s) c SLOT_ebp)"
    "stack (tasks s1 c) = (stack (tasks (called u s) (cur s)))
      (1005 := 0, 1006 := ret_from_fork_at (syms s))"
    "\<forall>t. t \<noteq> c \<longrightarrow> tasks s1 t = tasks (called u s) t" "call_frame (called u s) s1"
    using fork_works [OF r] unfolding called_frame by blast
  have cur1: "cur s1 = cur s" "syms s1 = syms s" "remaining_ticks s1 = remaining_ticks s"
    using s1(6) by (simp_all add: call_frame_def)
  have qu: "quantum (task_of s1 t) = quantum (task_of s t)" if "t \<noteq> c" for t
  proof -
    have "task_of s1 t = task_of (called u s) t"
      unfolding task_of_def using s1(5) that by (simp only: not_False_eq_True)
    then show ?thesis by simp
  qed
  have ctx: "user_context s1 (cur s1) = u" "user_context s1 c = u"
    using s1(4,5) cc cur1 by (simp_all add: user_context_def)
  have w: "stack (tasks s1 c) 1006 = ret_from_fork_at (syms s)" "stack (tasks s1 c) 1007 = syscall_ret_at (syms s)"
    using s1(4) by simp_all
  let ?s = "charge system_ticks_update (cur s) (upd_stack (cur s) 1014 (nextPid s + 1) s1)"
  have "sys_call_table ! 2 = Sys_fork" by (simp add: sys_call_table_def)
  then have run: "system_call_handler u s = Some (Return (u\<lparr>r_eax := nextPid s + 1\<rparr>), ?s)"
    using dispatch [OF esp0 n] s1(1) syscall_return_spec [of "nextPid s + 1" s1] ctx cur1
    by (simp add: call_routine_def)
  have st: "stack (tasks ?s c) = stack (tasks s1 c)" using cc by simp
  have "sched_ok ?s qs' = sched_ok s1 qs'" for qs' by (simp add: sched_ok_def)
  moreover have "user_context ?s c = u" using ctx(2) st by (simp add: user_context_def)
  ultimately show ?thesis
    using run s1(2,3) w st cur1 cc qu by (intro exI [of _ ?s]) (simp del: fun_upd_apply)
qed

lemma call_fork_fails:
  assumes esp0: "tss_esp0 s = KERNEL_ESP (syms s) (cur s)" and eax: "to_s32 (r_eax u) = 2"
    and ok: "sched_ok s qs" "qs Freequeue = Some fs"
    and none: "fs = [] \<or> card (avail (phys_mem s)) < 20 \<and> 256 \<notin> avail (phys_mem s)"
  shows "\<exists>s'. system_call_handler u s = Some (Return (u\<lparr>r_eax := to_u32 (- ENOMEM)\<rparr>), s')"
proof -
  have "to_s32 (r_eax u) = int 2" using eax by simp
  note d = dispatch [OF esp0 this]
  have "sys_call_table ! 2 = Sys_fork" by (simp add: sys_call_table_def)
  moreover have "sys_fork (called u s) = Some (-12, called u s)"
    by (rule fork_fails [of _ qs fs]) (use ok none in simp_all)
  ultimately show ?thesis
    using d syscall_return_spec [of "to_u32 (- 12)" "called u s"] by (simp add: call_routine_def)
qed

lemma call_clone:
  assumes esp0: "tss_esp0 s = KERNEL_ESP (syms s) (cur s)" and eax: "to_s32 (r_eax u) = 19"
    and ready: "clone_ready s qs i c fs rs"
    and ptrs: "access_ok VERIFY_WRITE (r_ecx u) 4 = 1" "access_ok VERIFY_READ (r_ebx u) 4 = 1"
  shows "\<exists>s'. system_call_handler u s = Some (Return (u\<lparr>r_eax := nextPid s + 1\<rparr>), s') \<and>
    sched_ok s' (qs(Freequeue \<mapsto> fs, Readyqueue \<mapsto> rs @ [c])) \<and>
    user_context s' c = u\<lparr>r_eip := r_ebx u, r_esp := r_ecx u\<rparr> \<and> syms s' = syms s \<and> cur s' = cur s \<and>
    kernel_esp (task_of s' c) = Esp (stack_addr (syms s) c SLOT_ebp) \<and>
    stack (tasks s' c) 1006 = ret_from_fork_at (syms s) \<and>
    stack (tasks s' c) 1007 = syscall_ret_at (syms s) \<and> remaining_ticks s' = remaining_ticks s \<and>
    (\<forall>t. t \<noteq> c \<longrightarrow> quantum (task_of s' t) = quantum (task_of s t))"
proof -
  have n: "to_s32 (r_eax u) = int 19" using eax by simp
  have r: "clone_ready (called u s) qs i c fs rs" using ready by simp
  have free: "qs Freequeue = Some (c # fs)" and ok: "sched_ok s qs"
    using ready by (simp_all add: clone_ready_def)
  have cc: "cur s \<noteq> c" using sched_okD(7) [OF ok] free queued_member [of qs Freequeue "c # fs" c] by auto
  obtain s1 where s1: "sys_clone (r_ebx u) (r_ecx u) (called u s) = Some (to_s32 (nextPid s + 1), s1)"
    "sched_ok s1 (qs(Freequeue \<mapsto> fs, Readyqueue \<mapsto> rs @ [c]))"
    "kernel_esp (task_of s1 c) = Esp (stack_addr (syms s) c SLOT_ebp)"
    "stack (tasks s1 c) = (stack (tasks (called u s) (cur s)))
      (1005 := 0, 1006 := ret_from_fork_at (syms s), 1019 := r_ebx u, 1022 := r_ecx u)"
    "\<forall>t. t \<noteq> c \<longrightarrow> tasks s1 t = tasks (called u s) t" "call_frame (called u s) s1"
    using clone_works [OF r ptrs] unfolding called_frame by blast
  have cur1: "cur s1 = cur s" "syms s1 = syms s" "remaining_ticks s1 = remaining_ticks s"
    using s1(6) by (simp_all add: call_frame_def)
  have qu: "quantum (task_of s1 t) = quantum (task_of s t)" if "t \<noteq> c" for t
  proof -
    have "task_of s1 t = task_of (called u s) t"
      unfolding task_of_def using s1(5) that by (simp only: not_False_eq_True)
    then show ?thesis by simp
  qed
  have ctx: "user_context s1 (cur s1) = u"
    "user_context s1 c = u\<lparr>r_eip := r_ebx u, r_esp := r_ecx u\<rparr>"
    using s1(4,5) cc cur1 by (simp_all add: user_context_def)
  have w: "stack (tasks s1 c) 1006 = ret_from_fork_at (syms s)" "stack (tasks s1 c) 1007 = syscall_ret_at (syms s)"
    using s1(4) by simp_all
  let ?s = "charge system_ticks_update (cur s) (upd_stack (cur s) 1014 (nextPid s + 1) s1)"
  have "sys_call_table ! 19 = Sys_clone" by (simp add: sys_call_table_def)
  then have run: "system_call_handler u s = Some (Return (u\<lparr>r_eax := nextPid s + 1\<rparr>), ?s)"
    using dispatch [OF esp0 n] s1(1) syscall_return_spec [of "nextPid s + 1" s1] ctx cur1
    by (simp add: call_routine_def)
  have st: "stack (tasks ?s c) = stack (tasks s1 c)" using cc by simp
  have "sched_ok ?s qs' = sched_ok s1 qs'" for qs' by (simp add: sched_ok_def)
  moreover have "user_context ?s c = u\<lparr>r_eip := r_ebx u, r_esp := r_ecx u\<rparr>"
    using ctx(2) st by (simp add: user_context_def)
  ultimately show ?thesis
    using run s1(2,3) w st cur1 cc qu by (intro exI [of _ ?s]) (simp del: fun_upd_apply)
qed

section \<open>Being preempted\<close>

text \<open>The saved registers and stack pointer of a task are those of an earlier state.\<close>

definition kept :: "nat \<Rightarrow> kstate \<Rightarrow> kstate \<Rightarrow> bool" where
  "kept t s s' \<longleftrightarrow> syms s' = syms s \<and> stack (tasks s' t) = stack (tasks s t) \<and>
     kernel_esp (task_of s' t) = kernel_esp (task_of s t)"

lemma kept_frame:
  "sched_frame s s' \<Longrightarrow> kernel_esp (task_of s' t) = kernel_esp (task_of s t) \<Longrightarrow> kept t s s'"
  by (simp add: kept_def sched_frame_def)

lemma resume_kept:
  assumes "kernel_esp (task_of s c) = Esp (stack_addr (syms s) c SLOT_ebp)"
    and "stack (tasks s c) 1006 = ret_from_fork_at (syms s)"
    and "stack (tasks s c) 1007 = syscall_ret_at (syms s)" and "kept c s s'" and "cur s' = c"
  shows "\<exists>s''. resume show_clock s' = Some (Return (Some ((user_context s c)\<lparr>r_eax := 0\<rparr>)), s'')"
  using first_run [of s' show_clock] assms by (simp add: kept_def user_context_def)

text \<open>A process that a tick interrupts goes on with its registers when it gets the processor back.\<close>

lemma interrupted_resumes:
  assumes "kernel_esp (task_of s (cur s)) = Frames In_clock" and "idle_task s \<noteq> Some (cur s)"
    and "\<And>s. \<exists>v. show_clock s = s\<lparr>video := v\<rparr>"
  shows "\<exists>s'. resume show_clock s = Some (Return (Some (user_context s (cur s))), s')"
proof -
  obtain v where v: "show_clock s = s\<lparr>video := v\<rparr>" using assms(3) by blast
  have "switch_target s = Some (Routine In_clock)" using assms(1) by (simp add: switch_target_def)
  then show ?thesis
    using assms(2) by (simp add: resume_def v interrupt_return_def switch_eqs CONTEXT_def
      KERNEL_STACK_SIZE_def RESTORE_ALL_context user_context_def)
qed

lemma tick_preempts:
  assumes esp0: "tss_esp0 s = KERNEL_ESP (syms s) (cur s)"
    and ok: "sched_ok s qs" and q: "qs Readyqueue = Some (t # ts)"
    and r: "remaining_ticks s \<le> 1" "int_ok (remaining_ticks s - 1)" "int_ok (zeos_ticks s + 1)"
  shows "\<exists>s'. clock_handler show_clock u s = Some (Switched, s') \<and>
    sched_ok s' (qs(Readyqueue \<mapsto> ts @ [cur s])) \<and> cur s' = t \<and>
    kernel_esp (task_of s' (cur s)) = Frames In_clock \<and> user_context s' (cur s) = u \<and>
    idle_task s' = idle_task s \<and> syms s' = syms s"
proof -
  let ?s = "(entered u s)\<lparr>zeos_ticks := zeos_ticks s + 1\<rparr>"
  have ok': "sched_ok ?s qs" using ok by (simp add: sched_ok_def)
  obtain s' where s': "update_sched_data_rr ?s = Some (Switched, s')"
    "sched_ok s' (qs(Readyqueue \<mapsto> ts @ [cur s]))" "sched_frame ?s s'" "cur s' = t"
    "kernel_esp (task_of s' (cur s)) = Frames In_clock"
    using tick_rotates [OF ok' q] r by (auto simp del: fun_upd_apply)
  then have "user_context s' (cur s) = u" "idle_task s' = idle_task s" "syms s' = syms s"
    by (simp_all add: sched_frame_def user_context_def)
  moreover have "clock_handler show_clock u s = Some (Switched, s')"
    using r(3) s'(1)
    by (simp add: clock_handler_def save_stack [OF esp0] switch_eqs entered_def [symmetric]
        clock_interrupt_def c_int_def int_ok_def)
  ultimately show ?thesis using s'(2,4,5) by blast
qed

section \<open>Calls that only read\<close>

lemma call_getpid:
  assumes esp0: "tss_esp0 s = KERNEL_ESP (syms s) (cur s)" and eax: "to_s32 (r_eax u) = 20"
  shows "\<exists>s'. system_call_handler u s
    = Some (Return (u\<lparr>r_eax := to_u32 (PID (task_of s (cur s)))\<rparr>), s')"
proof -
  have n: "to_s32 (r_eax u) = int 20" using eax by simp
  have "sys_call_table ! 20 = Sys_getpid" by (simp add: sys_call_table_def)
  then show ?thesis
    using dispatch [OF esp0 n] syscall_return_spec [of _ "called u s"]
    by (simp add: call_routine_def sys_getpid_def)
qed

lemma call_unimplemented:
  assumes esp0: "tss_esp0 s = KERNEL_ESP (syms s) (cur s)"
    and eax: "to_s32 (r_eax u) = int n" "n < 36" "sys_call_table ! n = Sys_ni"
  shows "\<exists>s'. system_call_handler u s = Some (Return (u\<lparr>r_eax := to_u32 (-38)\<rparr>), s')"
  using dispatch [OF esp0 eax(1,2)] syscall_return_spec [of _ "called u s"] eax(3)
  by (simp add: call_routine_def sys_ni_syscall_def)

end
