(* ===== verification/EntryTheorems.thy ===== *)
theory EntryTheorems
  imports EntryProps Samples
begin

text \<open>
  The properties of the way into the kernel and back, as a user process sees them: what its
  registers are after a system call, after an interrupt and after its creation.
\<close>

section \<open>Sample registers\<close>

definition sample_regs :: "DWord \<Rightarrow> user_regs" where
  "sample_regs eax = \<lparr>r_ebx = 0x100000, r_ecx = 0x109000, r_edx = 3, r_esi = 4, r_edi = 5, r_ebp = 6,
     r_eax = eax, r_ds = 0x2B, r_es = 0x2B, r_fs = 0x2B, r_gs = 0x2B, r_eip = 0x100020, r_cs = 0x23,
     r_eflags = 0x200, r_esp = 0x11BFF0, r_ss = 0x2B\<rparr>"

lemma sample_eax [simp]: "r_eax (sample_regs v) = v"
  by (simp add: sample_regs_def)

lemma sample_esp0: "tss_esp0 sample = KERNEL_ESP (syms sample) (cur sample)"
  using sample_first by (simp add: first_process_def)

section \<open>Properties\<close>

text \<open>
  C1: A fork through the system call handler returns twice. The father comes back with its registers
  and the process number of the child in EAX. The child comes back with the same registers and 0 in
  EAX when its turn in the ready queue comes, after the ticks that are left to the father and the
  quanta of the tasks before it.
\<close>

theorem fork_returns_twice:
  assumes "tss_esp0 s = KERNEL_ESP (syms s) (cur s)" and "to_s32 (r_eax u) = 2"
    and "fork_ready s qs i j c fs rs k" and "\<And>t. t \<in> set rs \<Longrightarrow> 0 < get_quantum t s"
    and "remaining_ticks s = int r" and "0 < r" and "int_ok (int r)"
  shows "\<exists>s' s''. system_call_handler u s = Some (Return (u\<lparr>r_eax := nextPid s + 1\<rparr>), s') \<and>
    ticks (r + slices s rs) s' = Some s'' \<and> cur s'' = c \<and>
    (\<exists>s3. resume show_clock s'' = Some (Return (Some (u\<lparr>r_eax := 0\<rparr>)), s3))"
proof -
  obtain s' where s': "system_call_handler u s = Some (Return (u\<lparr>r_eax := nextPid s + 1\<rparr>), s')"
    "sched_ok s' (qs(Freequeue \<mapsto> fs, Readyqueue \<mapsto> rs @ [c]))"
    "user_context s' c = u" "syms s' = syms s" "remaining_ticks s' = remaining_ticks s"
    "kernel_esp (task_of s' c) = Esp (stack_addr (syms s) c SLOT_ebp)"
    "stack (tasks s' c) 1006 = ret_from_fork_at (syms s)"
    "stack (tasks s' c) 1007 = syscall_ret_at (syms s)"
    "\<forall>t. t \<noteq> c \<longrightarrow> quantum (task_of s' t) = quantum (task_of s t)"
    using call_fork [OF assms(1-3)] by blast
  have "c \<notin> set rs" using queues_disjoint [OF sched_okD(1) [OF fork_readyD(1) [OF assms(3)]]
      fork_readyD(2,3) [OF assms(3)], of c] by auto
  with s'(9) have qu: "get_quantum t s' = get_quantum t s" if "t \<in> set rs" for t
    using that by (auto simp: get_quantum_def)
  then have sl: "slices s' rs = slices s rs" by (simp add: slices_def cong: map_cong)
  have pos: "0 < get_quantum t s'" if "t \<in> set rs" for t using assms(4) qu that by simp
  have "(qs(Freequeue \<mapsto> fs, Readyqueue \<mapsto> rs @ [c])) Readyqueue = Some (rs @ c # [])"
    by (rule fun_upd_same)
  with turns [OF s'(2) this pos] assms(5-7) s'(5) sl obtain s'' where
    s'': "ticks (r + slices s rs) s' = Some s''" "sched_frame s' s''" "cur s'' = c"
    "kernel_esp (task_of s'' c) = kernel_esp (task_of s' c)" by auto
  have "\<exists>s3. resume show_clock s'' = Some (Return (Some ((user_context s' c)\<lparr>r_eax := 0\<rparr>)), s3)"
    by (rule resume_kept [OF _ _ _ kept_frame [OF s''(2,4)] s''(3)]) (simp_all add: s'(4,6-8))
  with s'(1,3) s''(1,3) show ?thesis by auto
qed

theorem fork_returns_twice_witness:
  "\<exists>s' s'' s3. system_call_handler (sample_regs 2) sample = Some (Return (sample_regs 14), s') \<and>
    ticks 300 s' = Some s'' \<and> cur s'' = 7 \<and>
    resume (\<lambda>s. s) s'' = Some (Return (Some (sample_regs 0)), s3)"
proof -
  have r: "remaining_ticks sample = int 300" "nextPid sample + 1 = 14"
    using sample_first by (simp_all add: first_process_def)
  have eax: "to_s32 (r_eax (sample_regs 2)) = 2" by (simp add: to_s32_small)
  have "(sample_regs 2)\<lparr>r_eax := v\<rparr> = sample_regs v" for v by (simp add: sample_regs_def)
  with fork_returns_twice [OF sample_esp0 eax first_fork_ready [OF sample_first] _ r(1), of "\<lambda>s. s"] r(2)
  show ?thesis by (auto simp: slices_def int_ok_def)
qed

text \<open>
  C15: A clone through the system call handler leaves the caller with its registers and the process
  number of the new task in EAX; the new task, whenever it is first switched to, starts in user mode
  at the function, on the given stack, with the other registers of the caller.
\<close>

theorem clone_starts_function:
  assumes "tss_esp0 s = KERNEL_ESP (syms s) (cur s)" and "to_s32 (r_eax u) = 19"
    and "clone_ready s qs i c fs rs"
    and "access_ok VERIFY_WRITE (r_ecx u) 4 = 1" and "access_ok VERIFY_READ (r_ebx u) 4 = 1"
  shows "\<exists>s'. system_call_handler u s = Some (Return (u\<lparr>r_eax := nextPid s + 1\<rparr>), s') \<and>
    sched_ok s' (qs(Freequeue \<mapsto> fs, Readyqueue \<mapsto> rs @ [c])) \<and>
    (\<forall>s''. kept c s' s'' \<longrightarrow> cur s'' = c \<longrightarrow> (\<exists>s3. resume show_clock s'' =
      Some (Return (Some (u\<lparr>r_eip := r_ebx u, r_esp := r_ecx u, r_eax := 0\<rparr>)), s3)))"
proof -
  obtain s' where s': "system_call_handler u s = Some (Return (u\<lparr>r_eax := nextPid s + 1\<rparr>), s')"
    "sched_ok s' (qs(Freequeue \<mapsto> fs, Readyqueue \<mapsto> rs @ [c]))"
    "user_context s' c = u\<lparr>r_eip := r_ebx u, r_esp := r_ecx u\<rparr>" "syms s' = syms s"
    "kernel_esp (task_of s' c) = Esp (stack_addr (syms s) c SLOT_ebp)"
    "stack (tasks s' c) 1006 = ret_from_fork_at (syms s)"
    "stack (tasks s' c) 1007 = syscall_ret_at (syms s)"
    using call_clone [OF assms] by blast
  have "\<exists>s3. resume show_clock s'' = Some (Return (Some ((user_context s' c)\<lparr>r_eax := 0\<rparr>)), s3)"
    if "kept c s' s''" "cur s'' = c" for s''
    by (rule resume_kept [OF _ _ _ that]) (simp_all add: s'(4-7))
  with s' show ?thesis by auto
qed

theorem clone_starts_function_witness:
  "\<exists>s' s3. system_call_handler (sample_regs 19) sample = Some (Return (sample_regs 14), s') \<and>
    resume (\<lambda>s. s) (s'\<lparr>cur := 7\<rparr>) =
      Some (Return (Some ((sample_regs 0)\<lparr>r_eip := 0x100000, r_esp := 0x109000\<rparr>)), s3)"
proof -
  have eax: "to_s32 (r_eax (sample_regs 19)) = 19" by (simp add: to_s32_small)
  have c: "clone_ready sample first_queues 1 7 [6, 5, 4, 3, 2, 1, 0] []"
    using sample_first
    by (auto simp: clone_ready_def first_process_def first_queues_def boot_queues_def int_ok_def)
  have p: "access_ok VERIFY_WRITE (r_ecx (sample_regs 19)) 4 = 1"
    "access_ok VERIFY_READ (r_ebx (sample_regs 19)) 4 = 1"
    by (simp_all add: sample_regs_def access_ok_range)
  have n: "nextPid sample + 1 = 14" using sample_first by (simp add: first_process_def)
  have u: "(sample_regs 19)\<lparr>r_eax := v\<rparr> = sample_regs v" for v by (simp add: sample_regs_def)
  obtain s' where s': "system_call_handler (sample_regs 19) sample = Some (Return (sample_regs 14), s')"
    "\<forall>s''. kept 7 s' s'' \<longrightarrow> cur s'' = 7 \<longrightarrow> (\<exists>s3. resume (\<lambda>s. s) s'' =
      Some (Return (Some ((sample_regs 19)\<lparr>r_eip := r_ebx (sample_regs 19),
        r_esp := r_ecx (sample_regs 19), r_eax := 0\<rparr>)), s3))"
    using clone_starts_function [OF sample_esp0 eax c p] unfolding n u by blast
  have "kept 7 s' (s'\<lparr>cur := 7\<rparr>)" by (simp add: kept_def)
  with s' show ?thesis by (fastforce simp: sample_regs_def)
qed

text \<open>
  C14: A tick that takes the processor from a process does not show in its registers: when it is
  switched to again, with its kernel stack as the switch left it, it goes on in user mode with the
  registers it was interrupted with.
\<close>

theorem preemption_is_transparent:
  assumes "tss_esp0 s = KERNEL_ESP (syms s) (cur s)"
    and "sched_ok s qs" and "qs Readyqueue = Some (t # ts)" and "idle_task s \<noteq> Some (cur s)"
    and "remaining_ticks s \<le> 1" and "int_ok (remaining_ticks s - 1)" and "int_ok (zeos_ticks s + 1)"
    and "\<And>s. \<exists>v. show_clock s = s\<lparr>video := v\<rparr>"
  shows "\<exists>s'. clock_handler show_clock u s = Some (Switched, s') \<and> cur s' = t \<and>
    sched_ok s' (qs(Readyqueue \<mapsto> ts @ [cur s])) \<and>
    (\<forall>s''. kept (cur s) s' s'' \<longrightarrow> cur s'' = cur s \<longrightarrow> idle_task s'' = idle_task s \<longrightarrow>
      (\<exists>s3. resume show_clock s'' = Some (Return (Some u), s3)))"
proof -
  obtain s' where s': "clock_handler show_clock u s = Some (Switched, s')"
    "sched_ok s' (qs(Readyqueue \<mapsto> ts @ [cur s]))" "cur s' = t"
    "kernel_esp (task_of s' (cur s)) = Frames In_clock" "user_context s' (cur s) = u"
    using tick_preempts [OF assms(1-3,5-7)] by blast
  have "\<exists>s3. resume show_clock s'' = Some (Return (Some u), s3)"
    if "kept (cur s) s' s''" "cur s'' = cur s" "idle_task s'' = idle_task s" for s''
    using interrupted_resumes [of s'' show_clock] assms(4,8) that s'(4,5)
    by (simp add: kept_def user_context_def)
  with s'(1-3) show ?thesis by blast
qed

definition sample_late :: kstate where
  "sample_late = sample_forked\<lparr>remaining_ticks := 1, zeos_ticks := 299,
     tss_esp0 := KERNEL_ESP (syms sample_forked) 8\<rparr>"

theorem preemption_is_transparent_witness:
  "\<exists>s' s3. clock_handler (\<lambda>s. s) (sample_regs 5) sample_late = Some (Switched, s') \<and> cur s' = 7 \<and>
    resume (\<lambda>s. s) (s'\<lparr>cur := 8, idle_task := Some 9\<rparr>) = Some (Return (Some (sample_regs 5)), s3)"
proof -
  have f: "cur sample_late = 8" "idle_task sample_late = Some 9" "remaining_ticks sample_late = 1"
    "zeos_ticks sample_late = 299" "tss_esp0 sample_late = KERNEL_ESP (syms sample_late) 8"
    by (simp_all add: sample_late_def sample_cur)
  have esp0: "tss_esp0 sample_late = KERNEL_ESP (syms sample_late) (cur sample_late)" using f(1,5) by simp
  have ok: "sched_ok sample_late forked_queues"
    using sample_forked_ok by (simp add: sample_late_def sched_ok_def)
  have q: "forked_queues Readyqueue = Some [7]" by (simp add: forked_queues_def)
  have id: "\<exists>v. s = s\<lparr>video := v\<rparr>" for s :: kstate by (rule exI [of _ "video s"]) simp
  note p = preemption_is_transparent [OF esp0 ok q _ _ _ _ id, unfolded f(1-4), of "sample_regs 5"]
  have "Some 9 \<noteq> Some (8::nat)" "(1::int) \<le> 1" "int_ok (1 - 1)" "int_ok (299 + 1)"
    by (simp_all add: int_ok_def)
  note T = p [OF this]
  obtain s' where s': "clock_handler (\<lambda>s. s) (sample_regs 5) sample_late = Some (Switched, s')" "cur s' = 7"
    "\<forall>s''. kept 8 s' s'' \<longrightarrow> cur s'' = 8 \<longrightarrow> idle_task s'' = Some 9 \<longrightarrow>
      (\<exists>s3. resume (\<lambda>s. s) s'' = Some (Return (Some (sample_regs 5)), s3))"
    using T by blast
  have "kept 8 s' (s'\<lparr>cur := 8, idle_task := Some 9\<rparr>)" by (simp add: kept_def)
  with s' show ?thesis by fastforce
qed

text \<open>
  C25: A number below 0 or above the size of the table, and every entry of the table without a routine,
  gives \<open>-ENOSYS\<close> in EAX and leaves the other registers; the number that is the size of the table
  passes the check and calls what lies behind the table.
\<close>

theorem syscall_numbers:
  assumes "tss_esp0 s = KERNEL_ESP (syms s) (cur s)" and "to_s32 (r_eax u) = n"
  shows "if n < 0 \<or> int MAX_SYSCALL < n \<or> n < int MAX_SYSCALL \<and> sys_call_table ! nat n = Sys_ni
    then \<exists>s'. system_call_handler u s = Some (Return (u\<lparr>r_eax := to_u32 (- ENOSYS)\<rparr>), s')
    else n = int MAX_SYSCALL \<longrightarrow> system_call_handler u s = None"
proof -
  have m: "MAX_SYSCALL = 36" by (simp add: MAX_SYSCALL_def sys_call_table_def)
  have limit: "system_call_handler u s = None" if "n = int MAX_SYSCALL"
    using that dispatch_limit [OF assms(1)] assms(2) m by simp
  have "\<exists>s'. system_call_handler u s = Some (Return (u\<lparr>r_eax := to_u32 (- ENOSYS)\<rparr>), s')"
    if n: "n < 0 \<or> int MAX_SYSCALL < n \<or> n < int MAX_SYSCALL \<and> sys_call_table ! nat n = Sys_ni"
  proof (cases "n < 0 \<or> 36 < n")
    case True
    with dispatch_error [OF assms(1)] assms(2) show ?thesis by (simp add: ENOSYS_def)
  next
    case False
    with n m have "sys_call_table ! nat n = Sys_ni" "nat n < 36" "n = int (nat n)" by auto
    with call_unimplemented [OF assms(1), of u "nat n"] assms(2) show ?thesis by (simp add: ENOSYS_def)
  qed
  with limit show ?thesis by presburger
qed

theorem syscall_numbers_witness:
  "(\<exists>s'. system_call_handler (sample_regs 0) sample = Some (Return (sample_regs (to_u32 (-38))), s')) \<and>
    system_call_handler (sample_regs 36) sample = None"
proof
  have u: "(sample_regs w)\<lparr>r_eax := v\<rparr> = sample_regs v" for v w by (simp add: sample_regs_def)
  have "to_s32 (r_eax (sample_regs 0)) = 0" "to_s32 (r_eax (sample_regs 36)) = 36"
    by (simp_all add: to_s32_small)
  note num = syscall_numbers [OF sample_esp0 this(1)] syscall_numbers [OF sample_esp0 this(2)]
  have len: "MAX_SYSCALL = 36" "sys_call_table ! 0 = Sys_ni"
    by (simp_all add: MAX_SYSCALL_def sys_call_table_def)
  show "\<exists>s'. system_call_handler (sample_regs 0) sample = Some (Return (sample_regs (to_u32 (-38))), s')"
    using num(1) by (simp add: u len ENOSYS_def)
  show "system_call_handler (sample_regs 36) sample = None"
    using num(2) by (simp add: len)
qed

end
