(* ===== verification/Platform.thy ===== *)
theory Platform
  imports Boot Devices
begin

text \<open>
  The processor as the kernel sets it up: the descriptor tables of \<open>mm.c\<close> and \<open>interrupt.c\<close>, the
  routines of \<open>hardware.c\<close> and \<open>main\<close> of \<open>system.c\<close>. The instructions act on a record of the
  registers; \<open>ltr\<close> checks its descriptor, as the processor does. The library routines that \<open>main\<close>
  and \<open>setIdt\<close> call are read from the object files of \<open>libzeos.a\<close> and \<open>libauxjp.a\<close>.
\<close>

section \<open>Tables and registers\<close>

definition high4Bits :: "DWord \<Rightarrow> Byte" where
  "high4Bits lim = ucast (drop_bit 16 lim AND 0x0F)"

record Descriptor =
  d_limit :: Word
  lowBase :: Word
  midBase :: Byte
  flags1 :: Byte
  flags2 :: Byte
  highBase :: Byte

record Gate =
  lowOffset :: Word
  segmentSelector :: Word
  gate_flags :: Word
  highOffset :: Word

text \<open>The task state segment; its \<open>esp0\<close> is the component \<open>tss_esp0\<close> of the kernel's state.\<close>

record TSS =
  PreviousTaskLink :: Word
  ts_ss0 :: Word
  ts_esp1 :: DWord
  ts_ss1 :: Word
  ts_esp2 :: DWord
  ts_ss2 :: Word
  ts_cr3 :: DWord
  ts_eip :: DWord
  ts_eFlags :: DWord
  ts_eax :: DWord
  ts_ecx :: DWord
  ts_edx :: DWord
  ts_ebx :: DWord
  ts_esp :: DWord
  ts_ebp :: DWord
  ts_esi :: DWord
  ts_edi :: DWord
  ts_es :: Word
  ts_cs :: Word
  ts_ss :: Word
  ts_ds :: Word
  ts_fs :: Word
  ts_gs :: Word
  LDTSegmentSelector :: Word
  debugTrap :: Word
  IOMapBaseAddress :: Word

record Register =
  r_limit :: Word
  r_base :: DWord

type_synonym Selector = Word

definition INITIAL_EFLAGS :: DWord where "INITIAL_EFLAGS = 0x200"

definition IDT_ENTRIES :: nat where "IDT_ENTRIES = 256"

record cpu =
  eflags :: DWord
  cpu_gdtr :: Register
  cpu_idtr :: Register
  cpu_ldtr :: Selector
  cpu_tr :: Selector
  cpu_ds :: Word
  cpu_es :: Word
  cpu_fs :: Word
  cpu_gs :: Word
  cpu_ss :: Word
  cpu_cs :: Word
  cpu_esp :: DWord
  cpu_eip :: DWord
  pic_mask :: Byte

text \<open>Where the linker puts the tables and the handlers; \<open>low\<close> is the memory the loader filled.\<close>

record places =
  tss_at :: DWord
  idt_at :: DWord
  keyboard_handler_at :: DWord
  system_call_handler_at :: DWord
  clock_handler_at :: DWord
  exception_handler_at :: "nat \<Rightarrow> DWord"
  zeos_call_handler_at :: DWord

record machine =
  kern :: kstate
  places_of :: places
  gdt :: "Descriptor list"
  gdtR :: Register
  idt :: "Gate list"
  idtR :: Register
  tss :: TSS
  cpu_of :: cpu
  low :: "nat \<Rightarrow> Byte"

abbreviation upd_cpu :: "(cpu \<Rightarrow> cpu) \<Rightarrow> machine \<Rightarrow> machine" where
  "upd_cpu f m \<equiv> m\<lparr>cpu_of := f (cpu_of m)\<rparr>"

section \<open>Instructions\<close>

definition get_eflags :: "machine \<Rightarrow> DWord" where
  "get_eflags m = eflags (cpu_of m)"

text \<open>\<open>popf\<close> of 0; bit 1 of the register is always set.\<close>

definition set_eflags :: "machine \<Rightarrow> machine" where
  "set_eflags m = upd_cpu (\<lambda>c. c\<lparr>eflags := 2\<rparr>) m"

definition set_idt_reg :: "Register \<Rightarrow> machine \<Rightarrow> machine" where
  "set_idt_reg r m = upd_cpu (\<lambda>c. c\<lparr>cpu_idtr := r\<rparr>) m"

definition set_gdt_reg :: "Register \<Rightarrow> machine \<Rightarrow> machine" where
  "set_gdt_reg r m = upd_cpu (\<lambda>c. c\<lparr>cpu_gdtr := r\<rparr>) m"

definition set_ldt_reg :: "Selector \<Rightarrow> machine \<Rightarrow> machine" where
  "set_ldt_reg ldt m = upd_cpu (\<lambda>c. c\<lparr>cpu_ldtr := ldt\<rparr>) m"

text \<open>\<open>ltr\<close> wants the descriptor of an available TSS, present, and marks it busy.\<close>

definition set_task_reg :: "Selector \<Rightarrow> machine \<Rightarrow> machine option" where
  "set_task_reg t m =
     (let i = unat (drop_bit 3 t)
      in if i < length (gdt m) \<and> 8 * i + 7 \<le> unat (r_limit (cpu_gdtr (cpu_of m))) \<and>
            flags1 (gdt m ! i) AND 0x9F = 0x89
         then Some ((upd_cpu (\<lambda>c. c\<lparr>cpu_tr := t\<rparr>) m)
                \<lparr>gdt := (gdt m)[i := (gdt m ! i)\<lparr>flags1 := flags1 (gdt m ! i) OR 2\<rparr>]\<rparr>)
         else None)"

definition delay :: "machine \<Rightarrow> machine" where
  "delay m = m"

definition enable_int :: "machine \<Rightarrow> machine" where
  "enable_int m =
     (let m = delay (upd_cpu (\<lambda>c. c\<lparr>pic_mask := 0xFC\<rparr>) m)
      in upd_cpu (\<lambda>c. c\<lparr>eflags := eflags c OR 0x200\<rparr>) m)"

text \<open>The stack it sets is that of the task whose union it points into.\<close>

definition set_seg_regs :: "Word \<Rightarrow> Word \<Rightarrow> DWord \<Rightarrow> machine \<Rightarrow> machine" where
  "set_seg_regs data_sel stack_sel esp m =
     (let esp = esp - 5 * 4
      in (upd_cpu (\<lambda>c. c\<lparr>eflags := eflags c AND NOT 0x400, cpu_ds := data_sel, cpu_es := data_sel,
            cpu_fs := data_sel, cpu_gs := data_sel, cpu_ss := stack_sel, cpu_esp := esp\<rparr>) m)
         \<lparr>kern := (kern m)\<lparr>cur := unat (esp - task_addr (syms (kern m)) 0) div 4096\<rparr>\<rparr>)"

section \<open>Filling the tables\<close>

definition setGdt :: "machine \<Rightarrow> machine" where
  "setGdt m =
     (let i = unat (drop_bit 3 KERNEL_TSS); a = tss_at (places_of m);
          m = m\<lparr>gdt := (gdt m)[i := (gdt m ! i)\<lparr>lowBase := lowWord a\<rparr>]\<rparr>;
          m = m\<lparr>gdt := (gdt m)[i := (gdt m ! i)\<lparr>midBase := midByte a\<rparr>]\<rparr>;
          m = m\<lparr>gdt := (gdt m)[i := (gdt m ! i)\<lparr>highBase := highByte a\<rparr>]\<rparr>;
          m = m\<lparr>gdtR := \<lparr>r_limit = of_nat (256 * 8), r_base = GDT_START\<rparr>\<rparr>
      in set_gdt_reg (gdtR m) m)"

definition setTSS :: "machine \<Rightarrow> machine option" where
  "setTSS m =
     (let m = m\<lparr>kern := (kern m)\<lparr>tss_esp0 := INITIAL_ESP (syms (kern m))\<rparr>,
          tss := \<lparr>PreviousTaskLink = 0, ts_ss0 = KERNEL_DS, ts_esp1 = 0, ts_ss1 = 0, ts_esp2 = 0,
            ts_ss2 = 0, ts_cr3 = 0, ts_eip = 0, ts_eFlags = INITIAL_EFLAGS, ts_eax = 0, ts_ecx = 0,
            ts_edx = 0, ts_ebx = 0, ts_esp = of_nat USER_ESP, ts_ebp = of_nat USER_ESP, ts_esi = 0,
            ts_edi = 0, ts_es = USER_DS, ts_cs = USER_CS, ts_ss = USER_DS, ts_ds = USER_DS,
            ts_fs = 0, ts_gs = 0, LDTSegmentSelector = KERNEL_TSS, debugTrap = 0,
            IOMapBaseAddress = 0\<rparr>\<rparr>
      in set_task_reg KERNEL_TSS m)"

definition setInterruptHandler :: "nat \<Rightarrow> DWord \<Rightarrow> nat \<Rightarrow> Gate list \<Rightarrow> Gate list" where
  "setInterruptHandler vector handler maxAccessibleFromPL g =
     (let flags = of_nat (maxAccessibleFromPL * 2 ^ 13); flags = flags OR 0x8E00
      in g[vector := \<lparr>lowOffset = lowWord handler, segmentSelector = KERNEL_CS,
                      gate_flags = flags, highOffset = highWord handler\<rparr>])"

text \<open>Traps are interrupt gates as well, so that system calls run without interrupts.\<close>

definition setTrapHandler :: "nat \<Rightarrow> DWord \<Rightarrow> nat \<Rightarrow> Gate list \<Rightarrow> Gate list" where
  "setTrapHandler vector handler maxAccessibleFromPL g =
     (let flags = of_nat (maxAccessibleFromPL * 2 ^ 13); flags = flags OR 0x8E00
      in g[vector := \<lparr>lowOffset = lowWord handler, segmentSelector = KERNEL_CS,
                      gate_flags = flags, highOffset = highWord handler\<rparr>])"

text \<open>
  \<open>set_handlers\<close> of \<open>libzeos.a\<close> fills the gates of the processor's exceptions 0 to 17, each with its
  own routine, which prints a message and loops.
\<close>

definition set_handlers :: "machine \<Rightarrow> machine" where
  "set_handlers m =
     m\<lparr>idt := for_loop 0 18 (\<lambda>v. setInterruptHandler v (exception_handler_at (places_of m) v) 0) (idt m)\<rparr>"

definition setIdt :: "machine \<Rightarrow> machine" where
  "setIdt m =
     (let m = m\<lparr>idtR := \<lparr>r_limit = of_nat (IDT_ENTRIES * 8 - 1), r_base = idt_at (places_of m)\<rparr>\<rparr>;
          m = set_handlers m;
          m = m\<lparr>idt := setInterruptHandler 33 (keyboard_handler_at (places_of m)) 0 (idt m)\<rparr>;
          m = m\<lparr>idt := setTrapHandler 0x80 (system_call_handler_at (places_of m)) 3 (idt m)\<rparr>;
          m = m\<lparr>idt := setInterruptHandler 32 (clock_handler_at (places_of m)) 0 (idt m)\<rparr>
      in set_idt_reg (idtR m) m)"

text \<open>The table that the boot sector leaves at \<open>GDT_START\<close>.\<close>

definition boot_gdt :: "Descriptor list" where
  "boot_gdt =
    [\<lparr>d_limit = 0, lowBase = 0, midBase = 0, flags1 = 0, flags2 = 0, highBase = 0\<rparr>,
     \<lparr>d_limit = 0, lowBase = 0, midBase = 0, flags1 = 0, flags2 = 0, highBase = 0\<rparr>,
     \<lparr>d_limit = 0xFFFF, lowBase = 0, midBase = 0, flags1 = 0x9a, flags2 = 0xcf, highBase = 0\<rparr>,
     \<lparr>d_limit = 0xFFFF, lowBase = 0, midBase = 0, flags1 = 0x92, flags2 = 0xcf, highBase = 0\<rparr>,
     \<lparr>d_limit = 0xFFFF, lowBase = 0, midBase = 0, flags1 = 0xfa, flags2 = 0xcf, highBase = 0\<rparr>,
     \<lparr>d_limit = 0xFFFF, lowBase = 0, midBase = 0, flags1 = 0xf2, flags2 = 0xcf, highBase = 0\<rparr>,
     \<lparr>d_limit = 104, lowBase = 0, midBase = 0, flags1 = 0x89, flags2 = 0, highBase = 0\<rparr>]"

section \<open>Entering user mode\<close>

definition store_dword :: "DWord \<Rightarrow> DWord \<Rightarrow> kstate \<Rightarrow> kstate option" where
  "store_dword va v s =
     do { s \<leftarrow> store_byte va (ucast v) s;
          s \<leftarrow> store_byte (va + 1) (ucast (drop_bit 8 v)) s;
          s \<leftarrow> store_byte (va + 2) (ucast (drop_bit 16 v)) s;
          store_byte (va + 3) (ucast (drop_bit 24 v)) s }"

text \<open>The words at the start of the kernel's image.\<close>

definition dword_at :: "(nat \<Rightarrow> Byte) \<Rightarrow> nat \<Rightarrow> DWord" where
  "dword_at mem a = ucast (mem a) OR push_bit 8 (ucast (mem (a + 1))) OR
     push_bit 16 (ucast (mem (a + 2))) OR push_bit 24 (ucast (mem (a + 3)))"

definition p_sys_size :: nat where "p_sys_size = KERNEL_START"
definition p_usr_size :: nat where "p_usr_size = KERNEL_START + 4 * 1"
definition p_rdtr :: nat where "p_rdtr = KERNEL_START + 4 * 2"

text \<open>
  The far return to an outer privilege level takes CS:EIP and SS:ESP from the stack.
\<close>

definition return_gate :: "Word \<Rightarrow> Word \<Rightarrow> DWord \<Rightarrow> Word \<Rightarrow> DWord \<Rightarrow> machine \<Rightarrow> machine option" where
  "return_gate ds ss esp cs eip m =
     do { let m = upd_cpu (\<lambda>c. c\<lparr>cpu_es := ds, cpu_ds := ds\<rparr>) m;
          k \<leftarrow> store_dword (esp + 12) (dword_at (low m) p_rdtr) (kern m);
          Some ((upd_cpu (\<lambda>c. c\<lparr>cpu_ss := ss, cpu_esp := esp, cpu_cs := cs, cpu_eip := eip\<rparr>) m)
                \<lparr>kern := k\<rparr>) }"

section \<open>The kernel's main function\<close>

text \<open>\<open>copy_data\<close> of the user image behind the kernel's to the user pages of the first task.\<close>

definition load_image :: "machine \<Rightarrow> kstate option" where
  "load_image m =
     (let src = KERNEL_START + unat (dword_at (low m) p_sys_size)
      in copy_data (\<lambda>s i. Some (low m (src + i))) (store_at (of_nat PH_USER_START))
           (to_s32 (dword_at (low m) p_usr_size)) (kern m))"

text \<open>
  \<open>zeos_init_auxjp\<close> of \<open>libauxjp.a\<close>: it clears semaphores of its own, which nothing else reads, and
  makes the library's handler the gate of the trap \<open>0x82\<close>, with messages around both.
\<close>

definition zeos_init_auxjp :: "machine \<Rightarrow> machine" where
  "zeos_init_auxjp m =
     (let m = m\<lparr>kern := printk (c_string (CHR 0x0A # ''(II) Initializing semaphores..'')) (kern m)\<rparr>;
          m = m\<lparr>kern := printk (c_string (''OK'' @ [CHR 0x0A])) (kern m)\<rparr>;
          m = m\<lparr>kern := printk (c_string ''(II) Initializing Backdoor..'') (kern m)\<rparr>;
          m = m\<lparr>idt := setTrapHandler 0x82 (zeos_call_handler_at (places_of m)) 3 (idt m)\<rparr>
      in m\<lparr>kern := printk (c_string (''OK'' @ [CHR 0x0A])) (kern m)\<rparr>)"

text \<open>The argument \<open>buff\<close> is the array of \<open>circular_buffer_init\<close>.\<close>

definition kernel_main :: "Byte list \<Rightarrow> machine \<Rightarrow> machine option" where
  "kernel_main buff m =
     do { let m = set_eflags m;
          let m = set_seg_regs KERNEL_DS KERNEL_DS
            (protected_tasks_at (syms (kern m)) + of_nat (5 * 4096)) m;
          let m = m\<lparr>kern := printk (c_string ''Kernel Loaded!    '') (kern m)\<rparr>;
          let m = m\<lparr>kern := init_ticks (kern m)\<rparr>;
          let m = setGdt m;
          let m = setIdt m;
          m \<leftarrow> setTSS m;
          k \<leftarrow> init_kernel buff (kern m);
          k \<leftarrow> load_image (m\<lparr>kern := k\<rparr>);
          let k = printk (c_string ''Entering user mode...'') k;
          let m = zeos_init_auxjp (m\<lparr>kern := k\<rparr>);
          let m = enable_int m;
          return_gate USER_DS USER_DS (of_nat USER_ESP) USER_CS (of_nat L_USER_START) m }"

end
