(* ===== verification/PlatformProps.thy ===== *)
theory PlatformProps
  imports Platform BootProps
begin

text \<open>
  The descriptor tables decode to what was stored in them, the user image arrives in the pages of
  the first process, and \<open>main\<close> ends in user mode.
\<close>

section \<open>Decoding the tables\<close>

definition gate_handler :: "Gate \<Rightarrow> DWord" where
  "gate_handler g = ucast (lowOffset g) OR push_bit 16 (ucast (highOffset g))"

definition gate_level :: "Gate \<Rightarrow> nat" where
  "gate_level g = unat (drop_bit 13 (gate_flags g) AND 3)"

text \<open>A present 32-bit interrupt gate into the kernel's code segment.\<close>

definition interrupt_gate :: "Gate \<Rightarrow> bool" where
  "interrupt_gate g \<longleftrightarrow> segmentSelector g = KERNEL_CS \<and> gate_flags g AND 0x9F00 = 0x8E00"

definition descriptor_base :: "Descriptor \<Rightarrow> DWord" where
  "descriptor_base d = ucast (lowBase d) OR push_bit 16 (ucast (midBase d)) OR
     push_bit 24 (ucast (highBase d))"

lemma split_words: "ucast (lowWord a) OR push_bit 16 (ucast (highWord a)) = (a :: DWord)"
proof (rule bit_word_eqI)
  fix n assume "n < LENGTH(32)"
  then have n: "n < 32" by simp
  have "bit (0xFFFF :: DWord) k \<longleftrightarrow> k < 16" if "k < 32" for k
    using bit_mask_iff [of 16 k, where 'a = "32 word"] that by (simp add: mask_numeral)
  with n show "bit (ucast (lowWord a) OR push_bit 16 (ucast (highWord a)) :: DWord) n = bit a n"
    by (auto simp: bit_simps lowWord_def highWord_def)
qed

lemma split_bytes:
  "ucast (lowWord a) OR push_bit 16 (ucast (midByte a)) OR push_bit 24 (ucast (highByte a)) = (a :: DWord)"
proof (rule bit_word_eqI)
  fix n assume "n < LENGTH(32)"
  then have n: "n < 32" by simp
  have "bit (0xFFFF :: DWord) k \<longleftrightarrow> k < 16" "bit (0xFF :: DWord) k \<longleftrightarrow> k < 8" if "k < 32" for k
    using bit_mask_iff [of 16 k, where 'a = "32 word"] bit_mask_iff [of 8 k, where 'a = "32 word"] that
    by (simp_all add: mask_numeral)
  with n show "bit (ucast (lowWord a) OR push_bit 16 (ucast (midByte a)) OR
      push_bit 24 (ucast (highByte a)) :: DWord) n = bit a n"
    by (cases "n < 16"; cases "n < 24") (auto simp: bit_simps lowWord_def midByte_def highByte_def)
qed

lemma handler_gate:
  assumes "v < length g" and "p \<in> {0, 3}"
  shows "gate_handler (setInterruptHandler v h p g ! v) = h"
    "gate_level (setInterruptHandler v h p g ! v) = p" "interrupt_gate (setInterruptHandler v h p g ! v)"
    "setTrapHandler = setInterruptHandler" "length (setInterruptHandler v h p g) = length g"
    "w \<noteq> v \<Longrightarrow> setInterruptHandler v h p g ! w = g ! w"
  using assms
  by (auto simp: setInterruptHandler_def setTrapHandler_def gate_handler_def split_words
      gate_level_def interrupt_gate_def fun_eq_iff)

text \<open>The gate of vector \<open>v\<close> leads to the handler \<open>h\<close> and may be called from level \<open>p\<close>.\<close>

definition gate_to :: "Gate list \<Rightarrow> nat \<Rightarrow> DWord \<Rightarrow> nat \<Rightarrow> bool" where
  "gate_to g v h p \<longleftrightarrow> interrupt_gate (g ! v) \<and> gate_handler (g ! v) = h \<and> gate_level (g ! v) = p"

lemma gate_to_set [simp]:
  "v < length g \<Longrightarrow> p \<in> {0, 3} \<Longrightarrow> gate_to (setInterruptHandler v h p g) v h p"
  "w \<noteq> v \<Longrightarrow> gate_to (setInterruptHandler v h p g) w k q = gate_to g w k q"
  by (simp_all add: gate_to_def handler_gate(1-3)) (simp add: setInterruptHandler_def)

lemma length_set [simp]: "length (setInterruptHandler v h p g) = length g"
  by (simp add: setInterruptHandler_def)

lemma trap_is_interrupt: "setTrapHandler = setInterruptHandler"
  by (simp add: fun_eq_iff setTrapHandler_def setInterruptHandler_def)

lemma set_handlers_gates:
  "n \<le> length g \<Longrightarrow> length (for_loop 0 n (\<lambda>v. setInterruptHandler v (f v) 0) g) = length g \<and>
    (\<forall>v < n. gate_to (for_loop 0 n (\<lambda>v. setInterruptHandler v (f v) 0) g) v (f v) 0)"
proof (induction n)
  case (Suc n)
  then show ?case by (auto simp: for_loop_last less_Suc_eq)
qed (simp add: for_loop_empty)

text \<open>
  What \<open>setIdt\<close> promises: the gates of the clock, the keyboard, the system calls and the exceptions.
  \<open>gates_ok\<close> adds the library's gate.
\<close>

definition idt_ok :: "machine \<Rightarrow> bool" where
  "idt_ok m \<longleftrightarrow> length (idt m) = 256 \<and> cpu_idtr (cpu_of m) = \<lparr>r_limit = 2047, r_base = idt_at (places_of m)\<rparr> \<and>
     gate_to (idt m) 32 (clock_handler_at (places_of m)) 0 \<and>
     gate_to (idt m) 33 (keyboard_handler_at (places_of m)) 0 \<and>
     gate_to (idt m) 128 (system_call_handler_at (places_of m)) 3 \<and>
     (\<forall>v < 18. gate_to (idt m) v (exception_handler_at (places_of m) v) 0)"

definition gates_ok :: "machine \<Rightarrow> bool" where
  "gates_ok m \<longleftrightarrow> idt_ok m \<and> gate_to (idt m) 130 (zeos_call_handler_at (places_of m)) 3"

lemma setIdt_spec:
  assumes "length (idt m) = 256"
  shows "\<exists>g r c. setIdt m = m\<lparr>idt := g, idtR := r, cpu_of := (cpu_of m)\<lparr>cpu_idtr := c\<rparr>\<rparr> \<and> idt_ok (setIdt m)"
proof -
  let ?g0 = "for_loop 0 18 (\<lambda>v. setInterruptHandler v (exception_handler_at (places_of m) v) 0) (idt m)"
  let ?g1 = "setInterruptHandler 33 (keyboard_handler_at (places_of m)) 0 ?g0"
  let ?g2 = "setInterruptHandler 128 (system_call_handler_at (places_of m)) 3 ?g1"
  let ?g3 = "setInterruptHandler 32 (clock_handler_at (places_of m)) 0 ?g2"
  have eq: "setIdt m = m\<lparr>idt := ?g3, idtR := \<lparr>r_limit = 2047, r_base = idt_at (places_of m)\<rparr>,
      cpu_of := (cpu_of m)\<lparr>cpu_idtr := \<lparr>r_limit = 2047, r_base = idt_at (places_of m)\<rparr>\<rparr>\<rparr>"
    by (simp add: setIdt_def Let_def set_idt_reg_def set_handlers_def IDT_ENTRIES_def trap_is_interrupt)
  have g0: "length ?g0 = 256" "\<forall>v < 18. gate_to ?g0 v (exception_handler_at (places_of m) v) 0"
    using set_handlers_gates [of 18 "idt m" "exception_handler_at (places_of m)"] assms by simp_all
  have "gate_to ?g3 32 (clock_handler_at (places_of m)) 0" "gate_to ?g3 33 (keyboard_handler_at (places_of m)) 0"
    "gate_to ?g3 128 (system_call_handler_at (places_of m)) 3" using g0(1) by simp_all
  moreover have "gate_to ?g3 v (exception_handler_at (places_of m) v) 0" if "v < 18" for v
    using g0(2) that by simp
  ultimately show ?thesis unfolding eq using g0(1) by (auto simp: idt_ok_def)
qed

section \<open>The task register\<close>

definition tss_loaded :: "machine \<Rightarrow> bool" where
  "tss_loaded m \<longleftrightarrow> cpu_tr (cpu_of m) = KERNEL_TSS \<and> length (gdt m) = 7 \<and>
     descriptor_base (gdt m ! 6) = tss_at (places_of m) \<and> flags1 (gdt m ! 6) = 0x8B \<and>
     d_limit (gdt m ! 6) = 104 \<and> ts_ss0 (tss m) = KERNEL_DS \<and>
     (\<forall>i < 6. gdt m ! i = boot_gdt ! i)"

lemma tss_index: "unat (drop_bit 3 KERNEL_TSS) = 6"
  by (simp add: KERNEL_TSS_def)

lemma setGdt_spec:
  assumes "gdt m = boot_gdt"
  shows "setGdt m = m\<lparr>gdt := boot_gdt[6 := \<lparr>d_limit = 104, lowBase = lowWord (tss_at (places_of m)),
      midBase = midByte (tss_at (places_of m)), flags1 = 0x89, flags2 = 0,
      highBase = highByte (tss_at (places_of m))\<rparr>],
    gdtR := \<lparr>r_limit = 2048, r_base = GDT_START\<rparr>,
    cpu_of := (cpu_of m)\<lparr>cpu_gdtr := \<lparr>r_limit = 2048, r_base = GDT_START\<rparr>\<rparr>\<rparr>"
  using assms by (simp add: setGdt_def Let_def tss_index set_gdt_reg_def boot_gdt_def)

lemma setTSS_spec:
  assumes "gdt m = boot_gdt[6 := \<lparr>d_limit = 104, lowBase = lowWord (tss_at (places_of m)),
      midBase = midByte (tss_at (places_of m)), flags1 = 0x89, flags2 = 0,
      highBase = highByte (tss_at (places_of m))\<rparr>]"
    and "r_limit (cpu_gdtr (cpu_of m)) = 2048"
  shows "\<exists>m'. setTSS m = Some m' \<and> tss_loaded m' \<and>
    kern m' = (kern m)\<lparr>tss_esp0 := KERNEL_ESP (syms (kern m)) 1\<rparr> \<and> places_of m' = places_of m \<and>
    low m' = low m \<and> idt m' = idt m \<and> cpu_of m' = (cpu_of m)\<lparr>cpu_tr := KERNEL_TSS\<rparr>"
proof -
  have len: "length (gdt m) = 7" using assms(1) by (simp add: boot_gdt_def)
  have "gdt m ! i = boot_gdt ! i" if "i < 6" for i using that assms(1) by simp
  moreover have g6: "gdt m ! 6 = \<lparr>d_limit = 104, lowBase = lowWord (tss_at (places_of m)),
      midBase = midByte (tss_at (places_of m)), flags1 = 0x89, flags2 = 0,
      highBase = highByte (tss_at (places_of m))\<rparr>"
    using assms(1) by (simp add: boot_gdt_def)
  ultimately show ?thesis
    using assms(2) len
    by (auto simp: setTSS_def INITIAL_ESP_def Let_def set_task_reg_def tss_index tss_loaded_def descriptor_base_def
        split_bytes nth_list_update)
qed

section \<open>The user image\<close>

interpretation image: copy_regions "\<lambda>m :: kstate. \<lambda>i. Some (mem (src + i))" "store_at va" n
  "\<lambda>m. user_region m va n" "\<lambda>m i. the (load_at va m i)" "\<lambda>m. ram_rest (cells m va n) m"
  for mem :: "nat \<Rightarrow> Byte" and src va n
proof (unfold_locales, goal_cases)
  case (2 m i b)
  then obtain m' where m': "store_at va i b m = Some m'" "\<exists>r. m' = m\<lparr>ram := r\<rparr>"
    "\<forall>j < n. load_at va m' j = (if j = i then Some b else load_at va m j)"
    "ram_rest (cells m va n) m' = ram_rest (cells m va n) m"
    using store_at_region [of m va n i b] by blast
  from m'(2) have "cells m' va n = cells m va n" "user_region m' va n = user_region m va n" by auto
  with m' 2 show ?case by (intro exI [of _ m']) simp
qed simp

lemma load_image_spec:
  assumes "user_region (kern m) 0x100000 n" and "dword_at (low m) p_usr_size = of_nat n" and "n < 2 ^ 31"
  shows "\<exists>r. load_image m = Some ((kern m)\<lparr>ram := r\<rparr>) \<and>
    user_bytes ((kern m)\<lparr>ram := r\<rparr>) 0x100000 n
      = map (\<lambda>i. low m (KERNEL_START + unat (dword_at (low m) p_sys_size) + i)) [0..<n]"
proof -
  let ?src = "KERNEL_START + unat (dword_at (low m) p_sys_size)"
  have n: "to_s32 (dword_at (low m) p_usr_size) = int n"
    using assms(2,3) by (simp add: to_s32_small unat_of_nat_u32)
  obtain k where k: "load_image m = Some k" "ram_rest (cells k 0x100000 n) k = ram_rest (cells (kern m) 0x100000 n) (kern m)"
    "\<forall>j < n. low m (?src + j) = the (load_at 0x100000 k j)"
    using image.copies [of "kern m" "0x100000" n "low m" ?src] assms(1)
    by (auto simp: load_image_def n Let_def)
  have eq: "k = (kern m)\<lparr>ram := ram k\<rparr>" by (rule ram_rest_eq [OF k(2)])
  have "user_bytes k 0x100000 n = map (\<lambda>i. low m (?src + i)) [0..<n]"
    using k(3) by (simp add: user_bytes_def)
  with eq k(1) show ?thesis by metis
qed

lemma store_at_step:
  assumes "user_region s va n" and "i < n"
  shows "\<exists>r. store_at va i b s = Some (s\<lparr>ram := r\<rparr>) \<and>
    (\<forall>w. translate w s \<notin> cells s va n \<longrightarrow> load_byte w (s\<lparr>ram := r\<rparr>) = load_byte w s)"
  using store_at_region [OF assms, of b] by auto

lemma store_dword_spec:
  assumes r: "user_region s va 4"
  shows "\<exists>r. store_dword va v s = Some (s\<lparr>ram := r\<rparr>) \<and>
    (\<forall>w. translate w s \<notin> cells s va 4 \<longrightarrow> load_byte w (s\<lparr>ram := r\<rparr>) = load_byte w s)"
proof -
  have eq: "store_dword va v s = do { s \<leftarrow> store_at va 0 (ucast v) s;
      s \<leftarrow> store_at va 1 (ucast (drop_bit 8 v)) s; s \<leftarrow> store_at va 2 (ucast (drop_bit 16 v)) s;
      store_at va 3 (ucast (drop_bit 24 v)) s }"
    by (simp add: store_dword_def store_at_def)
  obtain r0 where 0: "store_at va 0 (ucast v) s = Some (s\<lparr>ram := r0\<rparr>)"
    "\<forall>w. translate w s \<notin> cells s va 4 \<longrightarrow> load_byte w (s\<lparr>ram := r0\<rparr>) = load_byte w s"
    using store_at_step [OF r, of 0] by auto
  obtain r1 where 1: "store_at va 1 (ucast (drop_bit 8 v)) (s\<lparr>ram := r0\<rparr>) = Some (s\<lparr>ram := r1\<rparr>)"
    "\<forall>w. translate w s \<notin> cells s va 4 \<longrightarrow> load_byte w (s\<lparr>ram := r1\<rparr>) = load_byte w (s\<lparr>ram := r0\<rparr>)"
    using store_at_step [of "s\<lparr>ram := r0\<rparr>" va 4 1 "ucast (drop_bit 8 v)"] r by auto
  obtain r2 where 2: "store_at va 2 (ucast (drop_bit 16 v)) (s\<lparr>ram := r1\<rparr>) = Some (s\<lparr>ram := r2\<rparr>)"
    "\<forall>w. translate w s \<notin> cells s va 4 \<longrightarrow> load_byte w (s\<lparr>ram := r2\<rparr>) = load_byte w (s\<lparr>ram := r1\<rparr>)"
    using store_at_step [of "s\<lparr>ram := r1\<rparr>" va 4 2 "ucast (drop_bit 16 v)"] r by auto
  obtain r3 where 3: "store_at va 3 (ucast (drop_bit 24 v)) (s\<lparr>ram := r2\<rparr>) = Some (s\<lparr>ram := r3\<rparr>)"
    "\<forall>w. translate w s \<notin> cells s va 4 \<longrightarrow> load_byte w (s\<lparr>ram := r3\<rparr>) = load_byte w (s\<lparr>ram := r2\<rparr>)"
    using store_at_step [of "s\<lparr>ram := r2\<rparr>" va 4 3 "ucast (drop_bit 24 v)"] r by auto
  show ?thesis unfolding eq using 0 1 2 3 by (intro exI [of _ r3]) simp
qed

section \<open>The pages of the first process\<close>

lemma translate_first:
  assumes "first_process s" and "i < 28 * 4096"
  shows "translate (0x100000 + of_nat i) s = Some (312 + 2 * (i div 4096), i mod 4096)"
proof -
  let ?p = "256 + i div 4096"
  have p: "256 \<le> ?p" "?p < 284" using assms(2) by auto
  have row: "pagusr_table s 1 = user_row 28 (syms s)" "in_space s 1"
    using assms(1) by (simp_all add: first_process_def)
  have e: "pagusr_table s 1 ?p = user_entry (264 \<le> ?p) (256 + 2 * (28 + (?p - 256)))"
    unfolding row(1) user_row_def using p by auto
  have "get_present (pagusr_table s 1 ?p) = 1" unfolding e by (simp add: user_entry_def Let_def)
  moreover have "frame_of s 1 ?p = 256 + 2 * (28 + (?p - 256))"
    unfolding frame_of_def e by (rule frame_of_user_entry) (use p in simp)
  moreover have va: "of_nat (?p * 4096) + of_nat (i mod 4096) = (0x100000 + of_nat i :: DWord)"
  proof -
    have eq: "?p * 4096 + i mod 4096 = 1048576 + i" by (simp add: algebra_simps)
    have "of_nat (?p * 4096) + of_nat (i mod 4096) = (of_nat (1048576 + i) :: DWord)"
      by (simp only: of_nat_add [symmetric] eq)
    also have "\<dots> = 0x100000 + of_nat i" by simp
    finally show ?thesis .
  qed
  ultimately show ?thesis
    using translate_page [OF row(2), of ?p "i mod 4096", unfolded va] p(2) by simp
qed

lemma first_image_region:
  assumes "first_process s" and "a + n \<le> 28 * 4096"
  shows "user_region s (0x100000 + of_nat a) n"
    and "b + k \<le> a \<Longrightarrow> j < k \<Longrightarrow> translate (0x100000 + of_nat b + of_nat j) s \<notin> cells s (0x100000 + of_nat a) n"
proof -
  have tr: "translate (0x100000 + of_nat a + of_nat i) s = Some (312 + 2 * ((a + i) div 4096), (a + i) mod 4096)"
    if "a + i < 28 * 4096" for a i
  proof -
    have "(0x100000 + of_nat a + of_nat i :: DWord) = 0x100000 + of_nat (a + i)"
      unfolding of_nat_add by (rule add.assoc)
    then show ?thesis using translate_first [OF assms(1) that] by (simp only:)
  qed
  have inj: "x = y" if "312 + 2 * (x div 4096) = 312 + 2 * (y div 4096)" "x mod 4096 = y mod 4096" for x y :: nat
  proof -
    have "x div 4096 = y div 4096" using that(1) by linarith
    then show ?thesis using that(2) div_mult_mod_eq [of x 4096] div_mult_mod_eq [of y 4096] by metis
  qed
  show "user_region s (0x100000 + of_nat a) n"
    unfolding user_region_def inj_on_def
  proof (intro conjI allI ballI impI)
    fix i assume "i < n"
    then have "a + i < 28 * 4096" using assms(2) by linarith
    from tr [OF this] show "\<exists>f k. translate (0x100000 + of_nat a + of_nat i) s = Some (f, k) \<and> 256 \<le> f"
      by simp
  next
    fix x y assume xy: "x \<in> {..<n}" "y \<in> {..<n}"
      "translate (0x100000 + of_nat a + of_nat x) s = translate (0x100000 + of_nat a + of_nat y) s"
    then have "a + x < 28 * 4096" "a + y < 28 * 4096" using assms(2) by simp_all
    note tr [OF this(1)] tr [OF this(2)]
    with xy(3) inj [of "a + x" "a + y"] show "x = y" by simp
  qed
  assume bk: "b + k \<le> a" "j < k"
  show "translate (0x100000 + of_nat b + of_nat j) s \<notin> cells s (0x100000 + of_nat a) n"
  proof
    assume "translate (0x100000 + of_nat b + of_nat j) s \<in> cells s (0x100000 + of_nat a) n"
    then obtain i where i: "i < n"
      "translate (0x100000 + of_nat b + of_nat j) s = translate (0x100000 + of_nat a + of_nat i) s"
      by (auto simp: cells_def)
    then have "a + i < 28 * 4096" "b + j < 28 * 4096" using assms(2) bk by simp_all
    note tr [OF this(1)] tr [OF this(2)]
    with i(2) inj [of "b + j" "a + i"] bk show False by simp
  qed
qed

section \<open>Running main\<close>

lemma first_process_frame:
  "first_process (s\<lparr>ram := r, scr_x := x, scr_y := y, video := v, port_e9 := p\<rparr>) = first_process s"
  by (simp add: first_process_def sched_ok_def in_space_def paging_ok_def space_def task_of_def)

lemma translate_cur [simp]: "translate va (s\<lparr>cur := c\<rparr>) = translate va s"
  by (rule translate_same) simp_all

lemma user_region_cur [simp]: "user_region (s\<lparr>cur := c\<rparr>) va n = user_region s va n"
  "cells (s\<lparr>cur := c\<rparr>) va n = cells s va n"
  by (simp_all add: user_region_def cells_def)

lemma translate_screen [simp]:
  "translate va (s\<lparr>scr_x := x, scr_y := y, video := v, port_e9 := p\<rparr>) = translate va s"
  by (rule translate_same) simp_all

lemma load_byte_same:
  assumes "translate va s' = translate va s" and "ram s' = ram s"
  shows "load_byte va s' = load_byte va s"
  unfolding load_byte_def assms ..

lemma printk_frame:
  "\<exists>x y v p. printk str s = s\<lparr>scr_x := x, scr_y := y, video := v, port_e9 := p\<rparr>"
proof -
  have "screen_frame s (fold printc cs s)" for cs
    by (induction cs arbitrary: s) (auto intro: screen_frame_trans [OF printc_frame])
  then show ?thesis by (simp add: printk_def screen_frame_def)
qed

text \<open>The state in which the first user process starts, with its image loaded.\<close>

definition user_mode :: "machine \<Rightarrow> bool" where
  "user_mode m \<longleftrightarrow> cpu_cs (cpu_of m) = USER_CS \<and> cpu_eip (cpu_of m) = 0x100000 \<and>
     cpu_ss (cpu_of m) = USER_DS \<and> cpu_esp (cpu_of m) = 0x11BFF0 \<and>
     cpu_ds (cpu_of m) = USER_DS \<and> cpu_es (cpu_of m) = USER_DS \<and>
     eflags (cpu_of m) = 0x202 \<and> pic_mask (cpu_of m) = 0xFC"

definition image_bytes :: "(nat \<Rightarrow> Byte) \<Rightarrow> nat \<Rightarrow> Byte list" where
  "image_bytes mem n =
     map (\<lambda>i. mem (KERNEL_START + unat (dword_at mem p_sys_size) + i)) [0..<n]"

text \<open>What \<open>zeos_init_auxjp\<close> does to the kernel's state is printing.\<close>

lemma screen_frame_printk: "screen_frame s (printk str s)"
  using printk_frame [of str s] by (simp add: screen_frame_def)

lemma zeos_init_auxjp_spec:
  "\<exists>x y v p. zeos_init_auxjp m = m\<lparr>kern := (kern m)\<lparr>scr_x := x, scr_y := y, video := v, port_e9 := p\<rparr>,
     idt := setTrapHandler 130 (zeos_call_handler_at (places_of m)) 3 (idt m)\<rparr>"
proof -
  have "\<exists>a b c d. zeos_init_auxjp m = m\<lparr>kern := printk a (printk b (printk c (printk d (kern m)))),
      idt := setTrapHandler 130 (zeos_call_handler_at (places_of m)) 3 (idt m)\<rparr>"
    by (rule exI [of _ "c_string (''OK'' @ [CHR 0x0A])"], rule exI [of _ "c_string ''(II) Initializing Backdoor..''"],
        rule exI [of _ "c_string (''OK'' @ [CHR 0x0A])"],
        rule exI [of _ "c_string (CHR 0x0A # ''(II) Initializing semaphores..'')"], rule machine.equality)
      (simp_all add: zeos_init_auxjp_def)
  then obtain a b c d where eq: "zeos_init_auxjp m = m\<lparr>kern := printk a (printk b (printk c (printk d (kern m)))),
      idt := setTrapHandler 130 (zeos_call_handler_at (places_of m)) 3 (idt m)\<rparr>" by blast
  have "screen_frame (kern m) (printk a (printk b (printk c (printk d (kern m)))))"
    by (intro screen_frame_trans [OF _ screen_frame_printk] screen_frame_printk)
  then obtain x y v p where "printk a (printk b (printk c (printk d (kern m))))
      = (kern m)\<lparr>scr_x := x, scr_y := y, video := v, port_e9 := p\<rparr>" unfolding screen_frame_def by blast
  then show ?thesis unfolding eq by auto
qed

lemma finish_boot:
  assumes k: "first_process (enter_user k)" and size: "dword_at (low m) p_usr_size = of_nat n" "n \<le> 114684"
    and fl: "eflags (cpu_of m) = 2"
  shows "\<exists>m'. do { k \<leftarrow> load_image (m\<lparr>kern := k\<rparr>);
      let k = printk str k;
      let m = enable_int (zeos_init_auxjp (m\<lparr>kern := k\<rparr>));
      return_gate USER_DS USER_DS (of_nat USER_ESP) USER_CS (of_nat L_USER_START) m } = Some m' \<and>
    first_process (enter_user (kern m')) \<and> user_bytes (kern m') 0x100000 n = image_bytes (low m) n \<and>
    user_mode m' \<and> gdt m' = gdt m \<and>
    idt m' = setTrapHandler 130 (zeos_call_handler_at (places_of m)) 3 (idt m) \<and>
    tss m' = tss m \<and> places_of m' = places_of m \<and>
    cpu_tr (cpu_of m') = cpu_tr (cpu_of m) \<and> cpu_idtr (cpu_of m') = cpu_idtr (cpu_of m)"
proof -
  define c where "c = unat (tss_esp0 k - 1 - task_addr (syms k) 0) div 4096"
  have e: "enter_user k = k\<lparr>cur := c\<rparr>" by (simp add: enter_user_def c_def)
  have reg: "user_region k 0x100000 n" "user_region k 0x11BFFC 4"
    using first_image_region(1) [OF k, of 0 n] first_image_region(1) [OF k, of 114684 4] size(2)
    by (simp_all add: e)
  have apart: "translate (0x100000 + of_nat j) k \<notin> cells k 0x11BFFC 4" if "j < n" for j
    using first_image_region(2) [OF k, of 114684 4 0 n j] that size(2) by (simp add: e)
  obtain r where r: "load_image (m\<lparr>kern := k\<rparr>) = Some (k\<lparr>ram := r\<rparr>)"
    "user_bytes (k\<lparr>ram := r\<rparr>) 0x100000 n = image_bytes (low m) n"
    using load_image_spec [of "m\<lparr>kern := k\<rparr>" n] reg(1) size by (auto simp: image_bytes_def)
  obtain x y v p where pk: "printk str (k\<lparr>ram := r\<rparr>) = k\<lparr>ram := r, scr_x := x, scr_y := y, video := v, port_e9 := p\<rparr>"
    using printk_frame [of str "k\<lparr>ram := r\<rparr>"] by auto
  let ?k = "k\<lparr>ram := r, scr_x := x, scr_y := y, video := v, port_e9 := p\<rparr>"
  obtain x' y' v' p' where ax: "zeos_init_auxjp (m\<lparr>kern := ?k\<rparr>) = m
      \<lparr>kern := ?k\<lparr>scr_x := x', scr_y := y', video := v', port_e9 := p'\<rparr>,
       idt := setTrapHandler 130 (zeos_call_handler_at (places_of m)) 3 (idt m)\<rparr>"
    using zeos_init_auxjp_spec [of "m\<lparr>kern := ?k\<rparr>"] by auto
  define k2 where "k2 = k\<lparr>ram := r, scr_x := x', scr_y := y', video := v', port_e9 := p'\<rparr>"
  have tr: "translate va k2 = translate va k" for va
    by (rule translate_same) (simp_all add: k2_def)
  then have reg2: "user_region k2 0x11BFFC 4" "cells k2 0x11BFFC 4 = cells k 0x11BFFC 4"
    using reg(2) by (simp_all add: user_region_def cells_def)
  obtain r2 where r2: "store_dword 0x11BFFC (dword_at (low m) p_rdtr) k2 = Some (k2\<lparr>ram := r2\<rparr>)"
    "\<forall>w. translate w k2 \<notin> cells k2 0x11BFFC 4 \<longrightarrow> load_byte w (k2\<lparr>ram := r2\<rparr>) = load_byte w k2"
    using store_dword_spec [OF reg2(1)] by blast
  have "load_at 0x100000 (k2\<lparr>ram := r2\<rparr>) j = load_at 0x100000 (k\<lparr>ram := r\<rparr>) j" if "j < n" for j
  proof -
    have "load_at 0x100000 (k2\<lparr>ram := r2\<rparr>) j = load_byte (0x100000 + of_nat j) k2"
      using r2(2) apart [OF that] by (simp add: load_at_def tr reg2)
    also have "\<dots> = load_byte (0x100000 + of_nat j) (k\<lparr>ram := r\<rparr>)"
      by (rule load_byte_same) (simp add: tr, simp add: k2_def)
    finally show ?thesis by (simp add: load_at_def)
  qed
  then have "user_bytes (k2\<lparr>ram := r2\<rparr>) 0x100000 n = user_bytes (k\<lparr>ram := r\<rparr>) 0x100000 n"
    unfolding user_bytes_def by (intro map_cong refl) simp
  then have bytes: "user_bytes (k2\<lparr>ram := r2\<rparr>) 0x100000 n = image_bytes (low m) n"
    using r(2) by simp
  have "enter_user (k2\<lparr>ram := r2\<rparr>) =
      (enter_user k)\<lparr>ram := r2, scr_x := x', scr_y := y', video := v', port_e9 := p'\<rparr>"
    by (rule kstate.equality) (simp_all add: enter_user_def k2_def)
  with k have fp: "first_process (enter_user (k2\<lparr>ram := r2\<rparr>))" by (simp add: first_process_frame)
  have ax2: "zeos_init_auxjp (m\<lparr>kern := printk str (k\<lparr>ram := r\<rparr>)\<rparr>) =
      m\<lparr>kern := k2, idt := setTrapHandler 130 (zeos_call_handler_at (places_of m)) 3 (idt m)\<rparr>"
    using ax by (simp add: pk k2_def)
  have esp: "(of_nat USER_ESP + 12 :: DWord) = 0x11BFFC" by simp
  show ?thesis
    using bytes fp fl r2(1)
    by (simp add: r(1) ax2 return_gate_def enable_int_def delay_def user_mode_def Let_def)
qed

end
