(* ===== verification/MainTheorems.thy ===== *)
theory MainTheorems
  imports PlatformProps Samples
begin

text \<open>
  The properties of the platform: the tables decode to the handlers, and \<open>main\<close> ends in user mode
  with everything the kernel relies on in place.
\<close>

section \<open>Running main\<close>

lemma main_lemma:
  assumes y: "symbols_ok y" "fresh y (kern m)" "length buff = 4096"
    and tabs: "gdt m = boot_gdt" "length (idt m) = 256"
    and size: "dword_at (low m) p_usr_size = of_nat n" "n \<le> 114684"
  shows "\<exists>m'. kernel_main buff m = Some m' \<and>
    first_process (enter_user (kern m')) \<and> user_bytes (kern m') 0x100000 n = image_bytes (low m) n \<and>
    user_mode m' \<and> gates_ok m' \<and> tss_loaded m'"
proof -
  define m1 where "m1 = set_seg_regs KERNEL_DS KERNEL_DS
    (protected_tasks_at (syms (kern (set_eflags m))) + of_nat (5 * 4096)) (set_eflags m)"
  obtain xx yy v p where pk: "printk (c_string ''Kernel Loaded!    '') (kern m1)
      = (kern m1)\<lparr>scr_x := xx, scr_y := yy, video := v, port_e9 := p\<rparr>"
    using printk_frame by blast
  define k1 where "k1 = init_ticks ((kern m1)\<lparr>scr_x := xx, scr_y := yy, video := v, port_e9 := p\<rparr>)"
  let ?m2 = "m1\<lparr>kern := k1\<rparr>"
  have m1: "gdt m1 = boot_gdt" "idt m1 = idt m" "low m1 = low m" "places_of m1 = places_of m"
    "eflags (cpu_of m1) = 2" "syms (kern m1) = y" "fresh y (kern m1)"
    using y(2) tabs(1) by (simp_all add: m1_def set_seg_regs_def set_eflags_def Let_def fresh_def)
  have fr: "fresh y k1" using m1(7) by (simp add: k1_def init_ticks_def fresh_def)
  define m3 where "m3 = setGdt ?m2"
  have m3: "m3 = ?m2\<lparr>gdt := gdt m3, gdtR := gdtR m3, cpu_of := cpu_of m3\<rparr>"
    "gdt m3 = boot_gdt[6 := \<lparr>d_limit = 104, lowBase = lowWord (tss_at (places_of m)),
      midBase = midByte (tss_at (places_of m)), flags1 = 0x89, flags2 = 0,
      highBase = highByte (tss_at (places_of m))\<rparr>]"
    "r_limit (cpu_gdtr (cpu_of m3)) = 2048" "eflags (cpu_of m3) = 2" "places_of m3 = places_of m"
    "idt m3 = idt m" "kern m3 = k1" "low m3 = low m"
    using setGdt_spec [of ?m2] m1(1-5) by (simp_all add: m3_def)
  define m4 where "m4 = setIdt m3"
  obtain g r c where "m4 = m3\<lparr>idt := g, idtR := r, cpu_of := (cpu_of m3)\<lparr>cpu_idtr := c\<rparr>\<rparr>" "idt_ok m4"
    using setIdt_spec [of m3] tabs(2) m3(6) by (auto simp: m4_def)
  then have m4: "idt_ok m4" "gdt m4 = gdt m3" "r_limit (cpu_gdtr (cpu_of m4)) = 2048"
    "eflags (cpu_of m4) = 2" "places_of m4 = places_of m" "kern m4 = k1" "low m4 = low m"
    using m3(3-8) by simp_all
  obtain m5 where m5: "setTSS m4 = Some m5" "tss_loaded m5"
    "kern m5 = k1\<lparr>tss_esp0 := KERNEL_ESP (syms k1) 1\<rparr>" "places_of m5 = places_of m" "low m5 = low m"
    "idt m5 = idt m4" "cpu_of m5 = (cpu_of m4)\<lparr>cpu_tr := KERNEL_TSS\<rparr>"
    using setTSS_spec [of m4] m3(2) m4 by auto
  have "fresh y (kern m5)" using fr m5(3) by (simp add: fresh_def)
  then obtain k where k: "init_kernel buff (kern m5) = Some k" "first_process (enter_user k)"
    using kernel_boots_lemma [OF y(1) _ y(3)] by blast
  have "dword_at (low m5) p_usr_size = of_nat n" using size(1) m5(5) by simp
  from finish_boot [OF k(2) this size(2)] obtain m' where m':
    "do { k \<leftarrow> load_image (m5\<lparr>kern := k\<rparr>);
      let k = printk (c_string ''Entering user mode...'') k;
      let m = enable_int (zeos_init_auxjp (m5\<lparr>kern := k\<rparr>));
      return_gate USER_DS USER_DS (of_nat USER_ESP) USER_CS (of_nat L_USER_START) m } = Some m'"
    "first_process (enter_user (kern m'))" "user_bytes (kern m') 0x100000 n = image_bytes (low m5) n"
    "user_mode m'" "gdt m' = gdt m5" "idt m' = setTrapHandler 130 (zeos_call_handler_at (places_of m5)) 3 (idt m5)" "tss m' = tss m5" "places_of m' = places_of m5"
    "cpu_tr (cpu_of m') = cpu_tr (cpu_of m5)" "cpu_idtr (cpu_of m') = cpu_idtr (cpu_of m5)"
    using m5(7) m4(4) by fastforce
  have "kernel_main buff m = Some m'"
    unfolding kernel_main_def Let_def m1_def [symmetric] using m5(1) k(1) m'(1)
    by (simp add: pk k1_def [symmetric] m3_def [symmetric] m4_def [symmetric])
  moreover have "tss_loaded m'" using m5(2) m'(5,7-9) by (simp add: tss_loaded_def)
  moreover have "gates_ok m'"
    using m4(1,5) m5(4,6,7) m'(6,8,10) by (simp add: gates_ok_def idt_ok_def trap_is_interrupt)
  ultimately show ?thesis using m'(2-4) m5(5) by auto
qed

section \<open>Properties\<close>

text \<open>
  C2: \<open>main\<close>, run on the memory that the boot loader leaves, ends in user mode at the start of the user
  program, on the user stack and with interrupts on. By then the image of the user program is in the
  pages of the first process, the kernel's invariants hold, the gates lead to the clock, the
  keyboard, the system calls, the exceptions and the library's trap \<open>0x82\<close> with the privileges they
  need, and the task register names the TSS. \<open>first_process\<close> counts the frames of the two address
  spaces with user pages: 28 that \<open>monoprocess_init_addr_space\<close> took for the directory that the idle
  task then uses, and 28 of the first process. The image may take all user pages but the last four
  bytes.
\<close>

theorem main_enters_user_mode:
  assumes "symbols_ok y" and "fresh y (kern m)" and "length buff = 4096"
    and "gdt m = boot_gdt" and "length (idt m) = 256"
    and "dword_at (low m) p_usr_size = of_nat n" and "n \<le> 114684"
  shows "\<exists>m'. kernel_main buff m = Some m' \<and>
    first_process (enter_user (kern m')) \<and> user_bytes (kern m') 0x100000 n = image_bytes (low m) n \<and>
    user_mode m' \<and> gates_ok m' \<and> tss_loaded m'"
  by (rule main_lemma) (rule assms)+

text \<open>A machine as the loader leaves it, with a user program of four bytes behind a kernel of 16.\<close>

definition sample_low :: "nat \<Rightarrow> Byte" where
  "sample_low a = (if a = 0x10000 then 16 else if a = 0x10004 then 4
     else if a < 0x10010 then 0 else of_nat (a mod 256))"

definition sample_machine :: machine where
  "sample_machine = \<lparr>kern = sample_loaded,
     places_of = \<lparr>tss_at = 0x14000, idt_at = 0x15000, keyboard_handler_at = 0x11100,
       system_call_handler_at = 0x11200, clock_handler_at = 0x11300,
       exception_handler_at = (\<lambda>v. 0x11400 + of_nat (16 * v)), zeos_call_handler_at = 0x11600\<rparr>,
     gdt = boot_gdt, gdtR = \<lparr>r_limit = 0, r_base = 0\<rparr>,
     idt = replicate 256 \<lparr>lowOffset = 0, segmentSelector = 0, gate_flags = 0, highOffset = 0\<rparr>,
     idtR = \<lparr>r_limit = 0, r_base = 0\<rparr>,
     tss = \<lparr>PreviousTaskLink = 0, ts_ss0 = 0, ts_esp1 = 0, ts_ss1 = 0, ts_esp2 = 0, ts_ss2 = 0,
       ts_cr3 = 0, ts_eip = 0, ts_eFlags = 0, ts_eax = 0, ts_ecx = 0, ts_edx = 0, ts_ebx = 0,
       ts_esp = 0, ts_ebp = 0, ts_esi = 0, ts_edi = 0, ts_es = 0, ts_cs = 0, ts_ss = 0, ts_ds = 0,
       ts_fs = 0, ts_gs = 0, LDTSegmentSelector = 0, debugTrap = 0, IOMapBaseAddress = 0\<rparr>,
     cpu_of = \<lparr>eflags = 2, cpu_gdtr = \<lparr>r_limit = 0, r_base = 0\<rparr>, cpu_idtr = \<lparr>r_limit = 0, r_base = 0\<rparr>,
       cpu_ldtr = 0, cpu_tr = 0, cpu_ds = 0, cpu_es = 0, cpu_fs = 0, cpu_gs = 0, cpu_ss = 0,
       cpu_cs = 0x10, cpu_esp = 0, cpu_eip = 0, pic_mask = 0xFF\<rparr>,
     low = sample_low\<rparr>"

theorem main_enters_user_mode_witness:
  "\<exists>m'. kernel_main (replicate 4096 0) sample_machine = Some m' \<and>
    user_mode m' \<and> user_bytes (kern m') 0x100000 4 = [16, 17, 18, 19]"
proof -
  have n: "dword_at (low sample_machine) p_usr_size = of_nat 4"
    by (simp add: sample_machine_def dword_at_def p_usr_size_def sample_low_def)
  have m: "fresh sample_syms (kern sample_machine)" "gdt sample_machine = boot_gdt"
    "length (idt sample_machine) = 256"
    using fresh_loaded [of sample_syms] by (simp_all add: sample_machine_def sample_loaded_def)
  obtain m' where m': "kernel_main (replicate 4096 0) sample_machine = Some m'"
    "user_mode m'" "gates_ok m'" "user_bytes (kern m') 0x100000 4 = image_bytes (low sample_machine) 4"
    using main_enters_user_mode [OF sample_syms_ok m(1) _ m(2,3) n, of "replicate 4096 0"] by auto
  have "image_bytes (low sample_machine) 4 = [16, 17, 18, 19]"
    by (simp add: image_bytes_def sample_machine_def sample_low_def dword_at_def p_sys_size_def upt_rec)
  with m' show ?thesis by (intro exI [of _ m']) simp
qed

end
