(* ===== verification/CLib.thy ===== *)
theory CLib
  imports UserMem
begin

text \<open>
  The pure routines of \<open>libc.c\<close>: \<open>itoa\<close>, which writes the digits from the right and then turns
  them round in place, and \<open>strlen\<close>. The arrays are those of the caller; an index outside is None.
\<close>

section \<open>The routines\<close>

function itoa_digits :: "int \<Rightarrow> nat \<Rightarrow> Byte list \<Rightarrow> (nat \<times> Byte list) option" where
  "itoa_digits a i b =
     (if 0 < a
      then do { b \<leftarrow> array_put i (of_int (a mod 10) + 48) b;
                itoa_digits (a div 10) (i + 1) b }
      else Some (i, b))"
  by pat_completeness auto
termination
  by (relation "measure (\<lambda>(a, i, b). nat a)") auto

function itoa_swap :: "nat \<Rightarrow> nat \<Rightarrow> Byte list \<Rightarrow> Byte list option" where
  "itoa_swap i i1 b =
     (if i1 < i div 2
      then do { c \<leftarrow> array_get b i1;
                d \<leftarrow> array_get b (i - i1 - 1);
                b \<leftarrow> array_put i1 d b;
                b \<leftarrow> array_put (i - i1 - 1) c b;
                itoa_swap i (i1 + 1) b }
      else Some b)"
  by pat_completeness auto
termination
  by (relation "measure (\<lambda>(i, i1, b). i - i1)") auto

declare itoa_digits.simps [simp del] itoa_swap.simps [simp del]

definition itoa :: "int \<Rightarrow> Byte list \<Rightarrow> Byte list option" where
  "itoa a b =
     (if a = 0 then do { b \<leftarrow> array_put 0 48 b; array_put 1 0 b }
      else do { (i, b) \<leftarrow> itoa_digits a 0 b;
                b \<leftarrow> itoa_swap i 0 b;
                array_put i 0 b })"

lemma array_get_Some: "array_get a i = Some c \<longleftrightarrow> i < length a \<and> c = a ! i"
  by (auto simp: array_get_def)

function strlen_from :: "Byte list \<Rightarrow> nat \<Rightarrow> int option" where
  "strlen_from a i =
     do { c \<leftarrow> array_get a i;
          if c \<noteq> 0 then strlen_from a (i + 1) else Some (int i) }"
  by pat_completeness auto
termination
  by (relation "measure (\<lambda>(a, i). length a - i)") (auto simp: array_get_Some)

declare strlen_from.simps [simp del]

definition strlen :: "Byte list \<Rightarrow> int option" where
  "strlen a = strlen_from a 0"

section \<open>The length of a string\<close>

lemma strlen_from_eq:
  "i \<le> length a \<Longrightarrow> strlen_from a i =
    (if 0 \<in> set (drop i a) then Some (int (i + length (takeWhile (\<lambda>c. c \<noteq> 0) (drop i a)))) else None)"
proof (induction a i rule: strlen_from.induct)
  case (1 a i)
  show ?case
  proof (cases "i = length a")
    case True
    then show ?thesis by (simp add: strlen_from.simps array_get_def)
  next
    case False
    then have i: "i < length a" using "1.prems" by simp
    then have d: "drop i a = a ! i # drop (Suc i) a" by (simp add: Cons_nth_drop_Suc)
    show ?thesis
      using "1.IH" [of "a ! i"] i unfolding d
      by (subst strlen_from.simps) (auto simp: array_get_def)
  qed
qed

lemma strlen_eq:
  "strlen a = (if 0 \<in> set a then Some (int (length (takeWhile (\<lambda>c. c \<noteq> 0) a))) else None)"
  using strlen_from_eq [of 0 a] by (simp add: strlen_def)

section \<open>Decimal digits\<close>

text \<open>The digits of a positive number, the last one first.\<close>

fun rdigits :: "nat \<Rightarrow> Byte list" where
  "rdigits n = (if n = 0 then [] else (of_nat (n mod 10) + 48) # rdigits (n div 10))"

declare rdigits.simps [simp del]

lemma rdigits_0 [simp]: "rdigits 0 = []"
  by (simp add: rdigits.simps)

lemma rdigits_pos: "0 < n \<Longrightarrow> rdigits n = (of_nat (n mod 10) + 48) # rdigits (n div 10)"
  by (subst rdigits.simps) simp

lemma rdigits_empty [simp]: "rdigits n = [] \<longleftrightarrow> n = 0"
  by (subst rdigits.simps) simp

definition decimal :: "nat \<Rightarrow> Byte list" where
  "decimal n = (if n = 0 then [48] else rev (rdigits n))"

text \<open>Reading a number back.\<close>

definition digit_value :: "Byte \<Rightarrow> nat" where
  "digit_value c = unat c - 48"

definition decimal_value :: "Byte list \<Rightarrow> nat" where
  "decimal_value cs = foldl (\<lambda>v c. 10 * v + digit_value c) 0 cs"

lemma unat_digit: "d < 10 \<Longrightarrow> unat (of_nat d + 48 :: Byte) = d + 48"
proof -
  assume "d < 10"
  moreover have "(of_nat d + 48 :: Byte) = of_nat (d + 48)" by simp
  ultimately show ?thesis by (simp only: unsigned_of_nat take_bit_nat_eq_self) (simp add: take_bit_nat_eq_self)
qed

lemma rdigits_digit: "c \<in> set (rdigits n) \<Longrightarrow> 48 \<le> unat c \<and> unat c < 58"
proof (induction n rule: rdigits.induct)
  case (1 n)
  then have "n \<noteq> 0" by (cases "n = 0") auto
  with 1 show ?case using unat_digit [of "n mod 10"] by (auto simp: rdigits_pos)
qed

lemma decimal_digit: "c \<in> set (decimal n) \<Longrightarrow> 48 \<le> unat c \<and> unat c < 58"
  using rdigits_digit by (auto simp: decimal_def split: if_splits)

lemma decimal_nonzero: "0 \<notin> set (decimal n)"
  using decimal_digit [of 0 n] by auto

lemma decimal_value_append: "decimal_value (cs @ [c]) = 10 * decimal_value cs + digit_value c"
  by (simp add: decimal_value_def)

lemma rdigits_value: "decimal_value (rev (rdigits n)) = n"
proof (induction n rule: rdigits.induct)
  case (1 n)
  show ?case
  proof (cases "n = 0")
    case True
    then show ?thesis by (simp add: decimal_value_def)
  next
    case False
    then show ?thesis
      using 1 unat_digit [of "n mod 10"]
      by (simp add: rdigits_pos decimal_value_append digit_value_def)
  qed
qed

lemma decimal_value [simp]: "decimal_value (decimal n) = n"
  using rdigits_value [of n] by (simp add: decimal_def) (simp add: decimal_value_def digit_value_def)

lemma rdigits_length: "n < 10 ^ k \<Longrightarrow> length (rdigits n) \<le> k"
proof (induction k arbitrary: n)
  case (Suc k)
  then have "n div 10 < 10 ^ k" by (simp add: less_mult_imp_div_less mult.commute)
  from Suc.IH [OF this] show ?case by (cases "n = 0") (simp_all add: rdigits_pos)
qed simp

lemma decimal_length: "n < 10 ^ k \<Longrightarrow> 0 < k \<Longrightarrow> length (decimal n) \<le> k"
  using rdigits_length [of n k] by (auto simp: decimal_def)

section \<open>What itoa writes\<close>

lemma put_after: "length xs = i \<Longrightarrow> array_put i v (xs @ y # ys) = Some (xs @ v # ys)"
  by (auto simp: array_put_def)

lemma itoa_digits_eq:
  "length (rdigits n) \<le> length zs \<Longrightarrow> itoa_digits (int n) (length xs) (xs @ zs) =
    Some (length xs + length (rdigits n), xs @ rdigits n @ drop (length (rdigits n)) zs)"
proof (induction n arbitrary: xs zs rule: rdigits.induct)
  case (1 n)
  show ?case
  proof (cases "n = 0")
    case True
    then show ?thesis by (simp add: itoa_digits.simps)
  next
    case False
    then have d: "rdigits n = (of_nat (n mod 10) + 48) # rdigits (n div 10)" by (simp add: rdigits_pos)
    with "1.prems" obtain y ys where zs: "zs = y # ys" by (cases zs) auto
    have "(of_int (int n mod 10) :: Byte) = of_nat (n mod 10)"
      by (metis of_int_of_nat_eq of_nat_numeral zmod_int)
    moreover have "int n div 10 = int (n div 10)" by (simp add: zdiv_int)
    ultimately have "itoa_digits (int n) (length xs) (xs @ zs)
        = itoa_digits (int (n div 10)) (length (xs @ [of_nat (n mod 10) + 48]))
            ((xs @ [of_nat (n mod 10) + 48]) @ ys)"
      using False unfolding zs by (subst itoa_digits.simps) (simp add: put_after)
    also have "\<dots> = Some (length xs + length (rdigits n), xs @ rdigits n @ drop (length (rdigits n)) zs)"
      using "1.IH" [OF False, of ys "xs @ [of_nat (n mod 10) + 48]"] "1.prems" zs d by simp
    finally show ?thesis .
  qed
qed

text \<open>One turn of the reversing loop takes the outer characters of what is left.\<close>

lemma itoa_swap_eq:
  "itoa_swap (length us + length ms + length vs) (length us) (us @ ms @ vs @ ws) =
    Some (us @ rev ms @ vs @ ws)" if "length vs = length us"
  using that
proof (induction "length ms" arbitrary: us ms vs rule: less_induct)
  case less
  let ?n = "length us + length ms + length vs"
  show ?case
  proof (cases "length ms < 2")
    case True
    then have "\<not> length us < ?n div 2" using less.prems by simp
    moreover have "rev ms = ms" using True by (cases ms) auto
    ultimately show ?thesis by (simp add: itoa_swap.simps)
  next
    case False
    then obtain x r where r: "ms = x # r" "r \<noteq> []" by (cases ms) auto
    then obtain ks y where ms: "ms = x # ks @ [y]" by (metis append_butlast_last_id)
    have lt: "length us < ?n div 2" using less.prems ms by simp
    have i: "?n - length us - 1 = length (us @ x # ks)" using less.prems ms by simp
    have g: "array_get (us @ ms @ vs @ ws) (length us) = Some x"
      "array_get (us @ ms @ vs @ ws) (length (us @ x # ks)) = Some y"
      using ms by (simp_all add: array_get_def nth_append)
    have p1: "array_put (length us) y (us @ ms @ vs @ ws) = Some (us @ y # ks @ y # vs @ ws)"
      using put_after [of us "length us" y x "ks @ y # vs @ ws"] by (simp add: ms)
    have p2: "array_put (length (us @ x # ks)) x (us @ y # ks @ y # vs @ ws) =
        Some (us @ y # ks @ x # vs @ ws)"
      using put_after [of "us @ y # ks" "length (us @ x # ks)" x y "vs @ ws"] by simp
    have "itoa_swap ?n (length us) (us @ ms @ vs @ ws)
        = itoa_swap ?n (length us + 1) (us @ y # ks @ x # vs @ ws)"
      using lt g p1 p2 unfolding i [symmetric] by (subst itoa_swap.simps) simp
    also have "\<dots> = Some (us @ rev ms @ vs @ ws)"
      using less.hyps [of ks "x # vs" "us @ [y]"] less.prems ms by simp
    finally show ?thesis .
  qed
qed

lemma itoa_eq:
  assumes "length (decimal n) < length b"
  shows "itoa (int n) b = Some (decimal n @ 0 # drop (length (decimal n) + 1) b)"
proof (cases "n = 0")
  case True
  with assms obtain x y b' where "b = x # y # b'"
    by (cases b; cases "tl b") (auto simp: decimal_def)
  with True show ?thesis by (simp add: itoa_def decimal_def array_put_def)
next
  case False
  let ?k = "length (rdigits n)"
  have k: "?k < length b" using assms False by (simp add: decimal_def)
  then obtain y ys where d: "drop ?k b = y # ys" by (cases "drop ?k b") auto
  then have ys: "ys = drop (?k + 1) b" by (metis drop_Suc drop_tl list.sel(3) Suc_eq_plus1)
  have "itoa_digits (int n) 0 b = Some (?k, rdigits n @ y # ys)"
    using itoa_digits_eq [of n b "[]"] k d by simp
  moreover have "itoa_swap ?k 0 (rdigits n @ y # ys) = Some (rev (rdigits n) @ y # ys)"
    using itoa_swap_eq [of "[]" "[]" "rdigits n" "y # ys"] by simp
  ultimately show ?thesis
    using False ys put_after [of "rev (rdigits n)" ?k 0 y ys] by (simp add: itoa_def decimal_def)
qed

text \<open>A negative number gives the empty string.\<close>

lemma itoa_negative: "a < 0 \<Longrightarrow> b \<noteq> [] \<Longrightarrow> itoa a b = Some (b[0 := 0])"
  by (simp add: itoa_def itoa_digits.simps itoa_swap.simps array_put_def)

end
