(* ===== verification/Libc.thy ===== *)
theory Libc
  imports CLib Entry
begin

text \<open>
  The part of \<open>libc.c\<close> that traps into the kernel, with the error numbers of \<open>errno.h\<close>. A wrapper
  loads the registers, executes \<open>int 0x80\<close>, and turns a negative result into -1 and \<open>errno\<close>. EBX is
  pushed and popped around the trap, so it comes back as it was. A call that blocks ends with
  Switched; \<open>libc_done\<close> is what the wrapper does when the trap returns later.
\<close>

section \<open>Error numbers\<close>

definition errno_table :: "(string \<times> nat) list" where
  "errno_table =
    [
     (''EPERM'', 1), (''ENOENT'', 2), (''ESRCH'', 3), (''EINTR'', 4), (''EIO'', 5), (''ENXIO'', 6),
     (''E2BIG'', 7), (''ENOEXEC'', 8), (''EBADF'', 9), (''ECHILD'', 10), (''EAGAIN'', 11),
     (''ENOMEM'', 12), (''EACCES'', 13), (''EFAULT'', 14), (''ENOTBLK'', 15), (''EBUSY'', 16),
     (''EEXIST'', 17), (''EXDEV'', 18), (''ENODEV'', 19), (''ENOTDIR'', 20), (''EISDIR'', 21),
     (''EINVAL'', 22), (''ENFILE'', 23), (''EMFILE'', 24), (''ENOTTY'', 25), (''ETXTBSY'', 26),
     (''EFBIG'', 27), (''ENOSPC'', 28), (''ESPIPE'', 29), (''EROFS'', 30), (''EMLINK'', 31),
     (''EPIPE'', 32), (''EDOM'', 33), (''ERANGE'', 34), (''EDEADLK'', 35), (''ENAMETOOLONG'', 36),
     (''ENOLCK'', 37), (''ENOSYS'', 38), (''ENOTEMPTY'', 39), (''ELOOP'', 40),
     (''EWOULDBLOCK'', 11), (''ENOMSG'', 42), (''EIDRM'', 43), (''ECHRNG'', 44),
     (''EL2NSYNC'', 45), (''EL3HLT'', 46), (''EL3RST'', 47), (''ELNRNG'', 48), (''EUNATCH'', 49),
     (''ENOCSI'', 50), (''EL2HLT'', 51), (''EBADE'', 52), (''EBADR'', 53), (''EXFULL'', 54),
     (''ENOANO'', 55), (''EBADRQC'', 56), (''EBADSLT'', 57), (''EDEADLOCK'', 35), (''EBFONT'', 59),
     (''ENOSTR'', 60), (''ENODATA'', 61), (''ETIME'', 62), (''ENOSR'', 63), (''ENONET'', 64),
     (''ENOPKG'', 65), (''EREMOTE'', 66), (''ENOLINK'', 67), (''EADV'', 68), (''ESRMNT'', 69),
     (''ECOMM'', 70), (''EPROTO'', 71), (''EMULTIHOP'', 72), (''EDOTDOT'', 73), (''EBADMSG'', 74),
     (''EOVERFLOW'', 75), (''ENOTUNIQ'', 76), (''EBADFD'', 77), (''EREMCHG'', 78),
     (''ELIBACC'', 79), (''ELIBBAD'', 80), (''ELIBSCN'', 81), (''ELIBMAX'', 82),
     (''ELIBEXEC'', 83), (''EILSEQ'', 84), (''ERESTART'', 85), (''ESTRPIPE'', 86),
     (''EUSERS'', 87), (''ENOTSOCK'', 88), (''EDESTADDRREQ'', 89), (''EMSGSIZE'', 90),
     (''EPROTOTYPE'', 91), (''ENOPROTOOPT'', 92), (''EPROTONOSUPPORT'', 93),
     (''ESOCKTNOSUPPORT'', 94), (''EOPNOTSUPP'', 95), (''EPFNOSUPPORT'', 96),
     (''EAFNOSUPPORT'', 97), (''EADDRINUSE'', 98), (''EADDRNOTAVAIL'', 99), (''ENETDOWN'', 100),
     (''ENETUNREACH'', 101), (''ENETRESET'', 102), (''ECONNABORTED'', 103), (''ECONNRESET'', 104),
     (''ENOBUFS'', 105), (''EISCONN'', 106), (''ENOTCONN'', 107), (''ESHUTDOWN'', 108),
     (''ETOOMANYREFS'', 109), (''ETIMEDOUT'', 110), (''ECONNREFUSED'', 111), (''EHOSTDOWN'', 112),
     (''EHOSTUNREACH'', 113), (''EALREADY'', 114), (''EINPROGRESS'', 115), (''ESTALE'', 116),
     (''EUCLEAN'', 117), (''ENOTNAM'', 118), (''ENAVAIL'', 119), (''EISNAM'', 120),
     (''EREMOTEIO'', 121), (''EDQUOT'', 122), (''ENOMEDIUM'', 123), (''EMEDIUMTYPE'', 124)]"

definition sys_errlist :: "string list" where
  "sys_errlist =
    [
     ''Success'', ''Operation not permitted'', ''No such file or directory'', ''No such process'',
     ''Interrupted system call'', ''Input/output error'', ''No such device or address'',
     ''Argument list too long'', ''Exec format error'', ''Bad file descriptor'',
     ''No child processes'', ''Resource temporarily unavailable'', ''Cannot allocate memory'',
     ''Permission denied'', ''Bad address'', ''Block device required'',
     ''Device or resource busy'', ''File exists'', ''Invalid cross-device link'',
     ''No such device'', ''Not a directory'', ''Is a directory'', ''Invalid argument'',
     ''Too many open files in system'', ''Too many open files'',
     ''Inappropriate ioctl for device'', ''Text file busy'', ''File too large'',
     ''No space left on device'', ''Illegal seek'', ''Read-only file system'', ''Too many links'',
     ''Broken pipe'', ''Numerical argument out of domain'', ''Numerical result out of range'',
     ''Resource deadlock avoided'', ''File name too long'', ''No locks available'',
     ''Function not implemented'', ''Directory not empty'', ''Too many levels of symbolic links'',
     ''(null)'', ''No message of desired type'', ''Identifier removed'',
     ''Channel number out of range'', ''Level 2 not synchronized'', ''Level 3 halted'',
     ''Level 3 reset'', ''Link number out of range'', ''Protocol driver not attached'',
     ''No CSI structure available'', ''Level 2 halted'', ''Invalid exchange'',
     ''Invalid request descriptor'', ''Exchange full'', ''No anode'', ''Invalid request code'',
     ''Invalid slot'', ''(null)'', ''Bad font file format'', ''Device not a stream'',
     ''No data available'', ''Timer expired'', ''Out of streams resources'',
     ''Machine is not on the network'', ''Package not installed'', ''Object is remote'',
     ''Link has been severed'', ''Advertise error'', ''Srmount error'',
     ''Communication error on send'', ''Protocol error'', ''Multihop attempted'',
     ''RFS specific error'', ''Bad message'', ''Value too large for defined data type'',
     ''Name not unique on network'', ''File descriptor in bad state'', ''Remote address changed'',
     ''Can not access a needed shared library'', ''Accessing a corrupted shared library'',
     ''.lib section in a.out corrupted'', ''Attempting to link in too many shared libraries'',
     ''Cannot exec a shared library directly'',
     ''Invalid or incomplete multibyte or wide character'',
     ''Interrupted system call should be restarted'', ''Streams pipe error'', ''Too many users'',
     ''Socket operation on non-socket'', ''Destination address required'', ''Message too long'',
     ''Protocol wrong type for socket'', ''Protocol not available'', ''Protocol not supported'',
     ''Socket type not supported'', ''Operation not supported'', ''Protocol family not supported'',
     ''Address family not supported by protocol'', ''Address already in use'',
     ''Cannot assign requested address'', ''Network is down'', ''Network is unreachable'',
     ''Network dropped connection on reset'', ''Software caused connection abort'',
     ''Connection reset by peer'', ''No buffer space available'',
     ''Transport endpoint is already connected'', ''Transport endpoint is not connected'',
     ''Cannot send after transport endpoint shutdown'', ''Too many references: cannot splice'',
     ''Connection timed out'', ''Connection refused'', ''Host is down'', ''No route to host'',
     ''Operation already in progress'', ''Operation now in progress'', ''Stale file handle'',
     ''Structure needs cleaning'', ''Not a XENIX named type file'',
     ''No XENIX semaphores available'', ''Is a named type file'', ''Remote I/O error'',
     ''Disk quota exceeded'', ''No medium found'', ''Wrong medium type'', ''Operation canceled'',
     ''Required key not available'', ''Key has expired'', ''Key has been revoked'',
     ''Key was rejected by service'', ''Owner died'', ''State not recoverable'',
     ''Operation not possible due to RF-kill'', ''Memory page has hardware error'', ''(null)'']"

section \<open>The wrappers\<close>

record uproc =
  regs :: user_regs
  errno :: int

definition libc_done :: "user_regs \<Rightarrow> uproc \<Rightarrow> (int \<times> uproc) option" where
  "libc_done u p =
     (let ret = to_s32 (r_eax u); u = u\<lparr>r_ebx := r_ebx (regs p)\<rparr>
      in if ret < 0
         then do { e \<leftarrow> c_int (- ret); Some (-1, \<lparr>regs = u, errno = e\<rparr>) }
         else Some (ret, \<lparr>regs = u, errno = errno p\<rparr>))"

definition trap :: "(user_regs \<Rightarrow> user_regs) \<Rightarrow> uproc \<Rightarrow> kstate \<Rightarrow> ((int \<times> uproc) outcome \<times> kstate) option" where
  "trap load p s =
     do { (r, s) \<leftarrow> system_call_handler (load (regs p)) s;
          case r of
            Switched \<Rightarrow> Some (Switched, s)
          | Return u \<Rightarrow> do { q \<leftarrow> libc_done u p; Some (Return q, s) } }"

type_synonym libc_result = "((int \<times> uproc) outcome \<times> kstate) option"

definition libc_write :: "int \<Rightarrow> DWord \<Rightarrow> int \<Rightarrow> uproc \<Rightarrow> kstate \<Rightarrow> libc_result" where
  "libc_write fd buf sz =
     trap (\<lambda>u. u\<lparr>r_ebx := to_u32 fd, r_ecx := buf, r_edx := to_u32 sz, r_eax := 4\<rparr>)"

definition libc_read :: "int \<Rightarrow> DWord \<Rightarrow> int \<Rightarrow> uproc \<Rightarrow> kstate \<Rightarrow> libc_result" where
  "libc_read fd buf count =
     trap (\<lambda>u. u\<lparr>r_ebx := to_u32 fd, r_ecx := buf, r_edx := to_u32 count, r_eax := 5\<rparr>)"

definition libc_get_stats :: "int \<Rightarrow> DWord \<Rightarrow> uproc \<Rightarrow> kstate \<Rightarrow> libc_result" where
  "libc_get_stats pid st = trap (\<lambda>u. u\<lparr>r_ebx := to_u32 pid, r_ecx := st, r_eax := 35\<rparr>)"

definition libc_gettime :: "uproc \<Rightarrow> kstate \<Rightarrow> libc_result" where
  "libc_gettime = trap (\<lambda>u. u\<lparr>r_eax := 10\<rparr>)"

definition libc_getpid :: "uproc \<Rightarrow> kstate \<Rightarrow> libc_result" where
  "libc_getpid = trap (\<lambda>u. u\<lparr>r_eax := 20\<rparr>)"

definition libc_fork :: "uproc \<Rightarrow> kstate \<Rightarrow> libc_result" where
  "libc_fork = trap (\<lambda>u. u\<lparr>r_eax := 2\<rparr>)"

definition libc_exit :: "uproc \<Rightarrow> kstate \<Rightarrow> (user_regs outcome \<times> kstate) option" where
  "libc_exit p s = system_call_handler ((regs p)\<lparr>r_eax := 1\<rparr>) s"

definition libc_clone :: "DWord \<Rightarrow> DWord \<Rightarrow> uproc \<Rightarrow> kstate \<Rightarrow> libc_result" where
  "libc_clone fn st = trap (\<lambda>u. u\<lparr>r_ebx := fn, r_ecx := st, r_eax := 19\<rparr>)"

definition libc_sem_init :: "int \<Rightarrow> DWord \<Rightarrow> uproc \<Rightarrow> kstate \<Rightarrow> libc_result" where
  "libc_sem_init n_sem v = trap (\<lambda>u. u\<lparr>r_ebx := to_u32 n_sem, r_ecx := v, r_eax := 21\<rparr>)"

definition libc_sem_wait :: "int \<Rightarrow> uproc \<Rightarrow> kstate \<Rightarrow> libc_result" where
  "libc_sem_wait n_sem = trap (\<lambda>u. u\<lparr>r_ebx := to_u32 n_sem, r_eax := 22\<rparr>)"

definition libc_sem_signal :: "int \<Rightarrow> uproc \<Rightarrow> kstate \<Rightarrow> libc_result" where
  "libc_sem_signal n_sem = trap (\<lambda>u. u\<lparr>r_ebx := to_u32 n_sem, r_eax := 23\<rparr>)"

definition libc_sem_destroy :: "int \<Rightarrow> uproc \<Rightarrow> kstate \<Rightarrow> libc_result" where
  "libc_sem_destroy n_sem = trap (\<lambda>u. u\<lparr>r_ebx := to_u32 n_sem, r_eax := 24\<rparr>)"

definition libc_sbrk :: "int \<Rightarrow> uproc \<Rightarrow> kstate \<Rightarrow> libc_result" where
  "libc_sbrk increment = trap (\<lambda>u. u\<lparr>r_ebx := to_u32 increment, r_eax := 13\<rparr>)"

text \<open>\<open>literal_at i\<close> is where the message \<open>i\<close> is in the memory of the process.\<close>

definition perror :: "(nat \<Rightarrow> DWord) \<Rightarrow> uproc \<Rightarrow> kstate \<Rightarrow> libc_result" where
  "perror literal_at p s =
     (if 0 \<le> errno p \<and> errno p < int (length sys_errlist)
      then do { let i = nat (errno p);
                n \<leftarrow> strlen (c_string (sys_errlist ! i) @ [0]);
                libc_write 1 (literal_at i) n p s }
      else None)"

section \<open>Results and errors\<close>

lemma trap_returns:
  assumes "system_call_handler (load (regs p)) s = Some (Return u, s')" and "0 \<le> to_s32 (r_eax u)"
  shows "trap load p s = Some (Return (to_s32 (r_eax u),
    \<lparr>regs = u\<lparr>r_ebx := r_ebx (regs p)\<rparr>, errno = errno p\<rparr>), s')"
  using assms by (simp add: trap_def libc_done_def)

lemma trap_fails:
  assumes "system_call_handler (load (regs p)) s = Some (Return (u\<lparr>r_eax := to_u32 (- e)\<rparr>), s')"
    and "0 < e" and "e \<le> 2147483647"
  shows "trap load p s = Some (Return (-1,
    \<lparr>regs = u\<lparr>r_eax := to_u32 (- e), r_ebx := r_ebx (regs p)\<rparr>, errno = e\<rparr>), s')"
proof -
  have "to_s32 (to_u32 (- e)) = - e" using assms(2,3) by (intro to_s32_to_u32) (simp add: int_ok_def)
  then show ?thesis using assms by (simp add: trap_def libc_done_def int_ok_def)
qed

lemma trap_blocks:
  "system_call_handler (load (regs p)) s = Some (Switched, s') \<Longrightarrow> trap load p s = Some (Switched, s')"
  by (simp add: trap_def)

end
