(* ===== verification/UserProgram.thy ===== *)
theory UserProgram
  imports Libc EntryProps DeviceProps
begin

text \<open>
  The user program (\<open>user.c\<close>): the arithmetic routines \<open>add\<close>, \<open>inner\<close> and \<open>outer\<close>, where a long
  has 32 bits as an int has, and \<open>main\<close>, which echoes five characters of the keyboard and then
  loops.
\<close>

section \<open>Arithmetic\<close>

text \<open>The instruction \<open>addl\<close> wraps.\<close>

definition user_add :: "int \<Rightarrow> int \<Rightarrow> int" where
  "user_add par1 par2 = to_s32 (to_u32 par1 + to_u32 par2)"

function inner_loop :: "int \<Rightarrow> int \<Rightarrow> int \<Rightarrow> int option" where
  "inner_loop n i suma =
     (if i < n
      then do { suma \<leftarrow> c_int (suma + i); inner_loop n (i + 1) suma }
      else Some suma)"
  by pat_completeness auto
termination
  by (relation "measure (\<lambda>(n, i, suma). nat (n - i))") auto

definition inner :: "int \<Rightarrow> int option" where
  "inner n = inner_loop n 0 0"

function outer_loop :: "int \<Rightarrow> int \<Rightarrow> int \<Rightarrow> int option" where
  "outer_loop n i acum =
     (if i < n
      then do { r \<leftarrow> inner i; acum \<leftarrow> c_int (acum + r); outer_loop n (i + 1) acum }
      else Some acum)"
  by pat_completeness auto
termination
  by (relation "measure (\<lambda>(n, i, acum). nat (n - i))") auto

definition outer :: "int \<Rightarrow> int option" where
  "outer n = outer_loop n 0 0"

declare inner_loop.simps [simp del] outer_loop.simps [simp del]

text \<open>The sums that the loops have so far.\<close>

definition tri :: "int \<Rightarrow> int" where "tri i = i * (i - 1) div 2"
definition tet :: "int \<Rightarrow> int" where "tet i = i * (i - 1) * (i - 2) div 6"

lemma tri_step: "tri (i + 1) = tri i + i"
proof -
  have "(i + 1) * i = i * (i - 1) + 2 * i" by (simp add: algebra_simps)
  then show ?thesis by (simp add: tri_def)
qed

lemma tet_step: "tet (i + 1) = tet i + tri i"
proof -
  have "i * (i - 1) = 2 * tri i" unfolding tri_def
    by (rule dvd_mult_div_cancel [symmetric]) (cases "even i"; simp)
  then have "(i + 1) * i * (i - 1) = i * (i - 1) * (i - 2) + 6 * tri i" by (simp add: algebra_simps)
  then show ?thesis by (simp add: tet_def)
qed

lemma tri_mono: "0 \<le> i \<Longrightarrow> i \<le> n \<Longrightarrow> tri i \<le> tri n"
proof (induction "nat (n - i)" arbitrary: n)
  case (Suc k)
  then have "tri i \<le> tri (n - 1)" "0 \<le> n - 1" by simp_all
  then show ?case using tri_step [of "n - 1"] by simp
qed simp

lemma tri_nonneg: "0 \<le> i \<Longrightarrow> 0 \<le> tri i"
  using tri_mono [of 0 i] by (simp add: tri_def)

lemma tet_mono: "0 \<le> i \<Longrightarrow> i \<le> n \<Longrightarrow> tet i \<le> tet n"
proof (induction "nat (n - i)" arbitrary: n)
  case (Suc k)
  then have "tet i \<le> tet (n - 1)" "0 \<le> n - 1" by simp_all
  then show ?case using tet_step [of "n - 1"] tri_nonneg [of "n - 1"] by simp
qed simp

lemma tet_nonneg: "0 \<le> i \<Longrightarrow> 0 \<le> tet i"
  using tet_mono [of 0 i] by (simp add: tet_def)

lemma inner_loop_eq: "0 \<le> i \<Longrightarrow> i \<le> n \<Longrightarrow> int_ok (tri i) \<Longrightarrow> inner_loop n i (tri i) = c_int (tri n)"
proof (induction "nat (n - i)" arbitrary: i)
  case 0
  then show ?case by (simp add: inner_loop.simps)
next
  case (Suc k)
  then have lt: "i < n" "k = nat (n - (i + 1))" by simp_all
  have le: "tri (i + 1) \<le> tri n" "0 \<le> tri (i + 1)"
    using lt Suc.prems tri_mono [of "i + 1" n] tri_nonneg [of "i + 1"] by simp_all
  show ?case
  proof (cases "int_ok (tri (i + 1))")
    case True
    then show ?thesis
      using Suc.hyps(1) [OF lt(2)] Suc.prems lt by (subst inner_loop.simps) (simp add: tri_step)
  next
    case False
    then have "\<not> int_ok (tri n)" using le by (simp add: int_ok_def)
    with False lt show ?thesis by (subst inner_loop.simps) (simp add: tri_step c_int_def)
  qed
qed

lemma inner_eq: "0 \<le> n \<Longrightarrow> inner n = c_int (tri n)"
  using inner_loop_eq [of 0 n] by (simp add: inner_def tri_def int_ok_def)

lemma outer_loop_eq: "0 \<le> i \<Longrightarrow> i \<le> n \<Longrightarrow> int_ok (tet i) \<Longrightarrow> outer_loop n i (tet i) = c_int (tet n)"
proof (induction "nat (n - i)" arbitrary: i)
  case 0
  then show ?case by (simp add: outer_loop.simps)
next
  case (Suc k)
  then have lt: "i < n" "k = nat (n - (i + 1))" by simp_all
  have le: "tet (i + 1) \<le> tet n" "0 \<le> tet i" "0 \<le> tri i"
    using lt Suc.prems tet_mono [of "i + 1" n] tet_nonneg tri_nonneg by simp_all
  show ?case
  proof (cases "int_ok (tet (i + 1))")
    case True
    then have "int_ok (tri i)" using le tet_step [of i] by (simp add: int_ok_def)
    then show ?thesis
      using Suc.hyps(1) [OF lt(2)] Suc.prems lt True
      by (subst outer_loop.simps) (simp add: inner_eq tet_step)
  next
    case False
    then have "\<not> int_ok (tet n)" "\<not> int_ok (tet i + tri i)" using le tet_step [of i] by (simp_all add: int_ok_def)
    with lt Suc.prems show ?thesis
      by (subst outer_loop.simps) (auto simp: inner_eq c_int_def split: bind_splits)
  qed
qed

lemma outer_eq: "0 \<le> n \<Longrightarrow> outer n = c_int (tet n)"
  using outer_loop_eq [of 0 n] by (simp add: outer_def tet_def int_ok_def)

section \<open>The main program\<close>

text \<open>Up to its endless loop; \<open>buf\<close> is the address of the local array.\<close>

definition user_main :: "DWord \<Rightarrow> uproc \<Rightarrow> kstate \<Rightarrow> (uproc outcome \<times> kstate) option" where
  "user_main buf p s =
     do { (r, s) \<leftarrow> libc_read 0 buf 5 p s;
          case r of
            Switched \<Rightarrow> Some (Switched, s)
          | Return (_, p) \<Rightarrow>
              do { (r, s) \<leftarrow> libc_write 1 buf 5 p s;
                   case r of
                     Switched \<Rightarrow> Some (Switched, s)
                   | Return (_, p) \<Rightarrow> Some (Return p, s) } }"

section \<open>A call that returns\<close>

lemma call_returns:
  assumes "tss_esp0 s = KERNEL_ESP (syms s) (cur s)" and "to_s32 (r_eax u) = int n" and "n < 36"
    and "call_routine (sys_call_table ! n) (r_ebx u) (r_ecx u) (r_edx u) (called u s) = Some (Return v, s1)"
    and "cur s1 = cur s" and "stack (tasks s1 (cur s)) = stack (tasks (called u s) (cur s))"
  shows "system_call_handler u s = Some (Return (u\<lparr>r_eax := v\<rparr>),
    charge system_ticks_update (cur s) (upd_stack (cur s) 1014 v s1))"
proof -
  have "user_context s1 (cur s) = u" using assms(6) user_context_entered(2) [of u s] by (simp add: user_context_def)
  then show ?thesis
    using dispatch [OF assms(1-3)] assms(4,5) syscall_return_spec [of v s1] by simp
qed

lemma called_screen [simp]:
  "scr_x (called u s) = scr_x s" "scr_y (called u s) = scr_y s" "port_e9 (called u s) = port_e9 s"
  "video (called u s) = video s" "on_screen (called u s) = on_screen s"
  by (simp_all add: called_def entered_def upd_stack_def on_screen_def)

lemma translate_called [simp]: "translate va (called u s) = translate va s"
  by (rule translate_same) simp_all

lemma region_called [simp]: "user_region (called u s) va n = user_region s va n"
  "cells (called u s) va n = cells s va n"
  by (simp_all add: user_region_def cells_def)

lemma user_bytes_same:
  assumes "syms s' = syms s" and "cr3 s' = cr3 s" and "dir_pages s' = dir_pages s"
    and "pagusr_table s' = pagusr_table s" and "ram s' = ram s"
  shows "user_bytes s' va n = user_bytes s va n"
  unfolding user_bytes_def load_at_same [OF assms] ..

text \<open>The state after the return, as the next call finds it.\<close>

abbreviation returned :: "DWord \<Rightarrow> kstate \<Rightarrow> kstate" where
  "returned v s \<equiv> charge system_ticks_update (cur s) (upd_stack (cur s) 1014 v s)"

lemma upd_stack_fields [simp]:
  "scr_x (upd_stack t i v s) = scr_x s" "scr_y (upd_stack t i v s) = scr_y s"
  "port_e9 (upd_stack t i v s) = port_e9 s" "cb (upd_stack t i v s) = cb s"
  by (simp_all add: upd_stack_def)

text \<open>
  A call that only touches statistics, the stack of the caller, bytes and the counters of semaphores
  leaves what the next call needs.
\<close>

definition undisturbed :: "kstate \<Rightarrow> kstate \<Rightarrow> bool" where
  "undisturbed s s' \<longleftrightarrow> syms s' = syms s \<and> cr3 s' = cr3 s \<and> dir_pages s' = dir_pages s \<and>
     pagusr_table s' = pagusr_table s \<and> tss_esp0 s' = tss_esp0 s \<and> cur s' = cur s \<and> lists s' = lists s \<and>
     idle_task s' = idle_task s \<and> (\<forall>t. state (task_of s' t) = state (task_of s t))"

lemma undisturbed_trans: "undisturbed s s1 \<Longrightarrow> undisturbed s1 s2 \<Longrightarrow> undisturbed s s2"
  by (simp add: undisturbed_def)

lemma undisturbed_refl [simp]: "undisturbed s s"
  by (simp add: undisturbed_def)

lemma undisturbed_ram [simp]: "undisturbed s (s\<lparr>ram := r\<rparr>)"
  by (simp add: undisturbed_def task_of_def)

lemma undisturbed_sched_ok: "undisturbed s s' \<Longrightarrow> sched_ok s' qs = sched_ok s qs"
  by (simp add: undisturbed_def sched_ok_def)

lemma undisturbed_esp0:
  "undisturbed s s' \<Longrightarrow> tss_esp0 s = KERNEL_ESP (syms s) (cur s) \<Longrightarrow> tss_esp0 s' = KERNEL_ESP (syms s') (cur s')"
  by (simp add: undisturbed_def)

lemma undisturbed_translate: "undisturbed s s' \<Longrightarrow> translate va s' = translate va s"
  unfolding undisturbed_def by (rule translate_same) simp_all

lemma undisturbed_region:
  assumes "undisturbed s s'"
  shows "user_region s' va n = user_region s va n" "cells s' va n = cells s va n"
  by (simp_all add: user_region_def cells_def undisturbed_translate [OF assms])

lemma undisturbed_load:
  assumes "undisturbed s s'" and "ram s' = ram s"
  shows "load_at va s' = load_at va s" "load_byte w s' = load_byte w s"
  unfolding load_at_def load_byte_def undisturbed_translate [OF assms(1)] assms(2) by (rule refl)+

lemma undisturbed_returned:
  assumes "undisturbed (called u s) s1"
  shows "undisturbed s (returned v s1)"
  using assms by (simp add: undisturbed_def task_of_def [of "upd_stack _ _ _ _"] upd_stack_def) (simp add: task_of_def)

lemma write_call:
  assumes "tss_esp0 s = KERNEL_ESP (syms s) (cur s)" and "on_screen s" and "user_region s buf n" and "n \<le> 256"
    and "buf \<noteq> 0" and "access_ok VERIFY_READ buf (of_nat n) = 1"
  shows "\<exists>u' s'. libc_write 1 buf (int n) p s = Some (Return (int n, \<lparr>regs = u', errno = errno p\<rparr>), s') \<and>
    port_e9 s' = port_e9 s @ user_bytes s buf n \<and> cb s' = cb s \<and> ram s' = ram s \<and>
    semaphores s' = semaphores s \<and> on_screen s' \<and> undisturbed s s'"
proof -
  let ?u = "(regs p)\<lparr>r_ebx := to_u32 1, r_ecx := buf, r_edx := to_u32 (int n), r_eax := 4\<rparr>"
  have n: "to_s32 (to_u32 (int n)) = int n" "to_s32 (to_u32 1) = 1"
    using assms(4) by (simp_all add: to_s32_to_u32 int_ok_def)
  have bytes: "user_bytes (called ?u s) buf n = user_bytes s buf n" by (rule user_bytes_same) simp_all
  have "user_mapped (called ?u s) buf n" by (rule region_mapped) (simp add: assms(3))
  then obtain s1 where s1: "sys_write 1 buf (int n) (called ?u s) = Some (int n, s1)"
    "port_e9 s1 = port_e9 s @ user_bytes s buf n" "screen_frame (called ?u s) s1" "on_screen s1"
    using write_fits [of "called ?u s" buf n] assms(2,4-6) bytes by auto
  have fr: "cur s1 = cur s" "tasks s1 = tasks (called ?u s)" "cb s1 = cb s" "ram s1 = ram s"
    "semaphores s1 = semaphores s" "undisturbed (called ?u s) s1"
    using s1(3) by (auto simp: screen_frame_def undisturbed_def task_of_def)
  have "sys_call_table ! 4 = Sys_write" by (simp add: sys_call_table_def)
  then have run: "system_call_handler ?u s = Some (Return (?u\<lparr>r_eax := to_u32 (int n)\<rparr>),
      charge system_ticks_update (cur s) (upd_stack (cur s) 1014 (to_u32 (int n)) s1))"
    using s1(1) fr n by (intro call_returns [OF assms(1), of ?u 4]) (simp_all add: call_routine_def to_s32_small)
  show ?thesis
    using trap_returns [of "\<lambda>u. u\<lparr>r_ebx := to_u32 1, r_ecx := buf, r_edx := to_u32 (int n), r_eax := 4\<rparr>", OF run]
      n s1(2,4) fr undisturbed_returned [OF fr(6)] by (simp add: libc_write_def on_screen_def)
qed

lemma read_call:
  assumes "tss_esp0 s = KERNEL_ESP (syms s) (cur s)" and ok: "sched_ok s qs" "qs Keyboardqueue = Some []"
    and b: "cb_ok (cb s)" "n \<le> length (contents (cb s))" "0 < n" and r: "user_region s buf n"
    and "buf \<noteq> 0" and "access_ok VERIFY_WRITE buf (of_nat n) = 1"
  shows "\<exists>u' s'. libc_read 0 buf (int n) p s = Some (Return (int n, \<lparr>regs = u', errno = errno p\<rparr>), s') \<and>
    contents (cb s') = drop n (contents (cb s)) \<and> user_bytes s' buf n = take n (contents (cb s)) \<and>
    user_region s' buf n \<and> tss_esp0 s' = KERNEL_ESP (syms s') (cur s') \<and> port_e9 s' = port_e9 s \<and>
    on_screen s' = on_screen s"
proof -
  let ?u = "(regs p)\<lparr>r_ebx := to_u32 0, r_ecx := buf, r_edx := to_u32 (int n), r_eax := 5\<rparr>"
  let ?c = "called ?u s"
  have small: "n \<le> 2147483647"
    using b(2) contents_le_capacity [OF b(1)] b(1) by (auto simp: capacity_def cb_ok_def)
  then have n: "to_s32 (to_u32 (int n)) = int n" "to_s32 (to_u32 0) = 0"
    by (simp_all add: to_s32_to_u32 int_ok_def)
  let ?f = "\<lambda>_. \<lparr>to_read = int n, already_read = 0\<rparr>"
  let ?g = "\<lambda>k. \<lparr>to_read = to_read k - int n, already_read = already_read k + int n\<rparr>"
  obtain c m where cm: "read_resumed buf (int n) (upd_kb ?f ?c) = Some (Return (int n),
      (upd_kb ?g (upd_kb ?f ?c))\<lparr>cb := c, ram := m\<rparr>)" "keys_taken buf n (upd_kb ?f ?c) c m"
    using read_available [of "upd_kb ?f ?c" qs n buf] ok b r small by (auto simp: int_ok_def)
  define s1 where "s1 = (upd_kb ?g (upd_kb ?f ?c))\<lparr>cb := c, ram := m\<rparr>"
  have kt: "contents c = drop n (contents (cb s))"
    "user_bytes (?c\<lparr>ram := m\<rparr>) buf n = take n (contents (cb s))"
    using cm(2) unfolding keys_taken_upd_kb by (simp_all add: keys_taken_def)
  have fr: "cur s1 = cur s" "stack (tasks s1 (cur s)) = stack (tasks ?c (cur s))" "syms s1 = syms s"
    "cr3 s1 = cr3 s" "dir_pages s1 = dir_pages s" "pagusr_table s1 = pagusr_table s" "ram s1 = m"
    "tss_esp0 s1 = tss_esp0 s" "cb s1 = c" "scr_x s1 = scr_x s" "scr_y s1 = scr_y s" "port_e9 s1 = port_e9 s"
    by (simp_all add: s1_def upd_kb_def upd_task_def)
  have "sys_read 0 buf (int n) ?c = Some (Return (int n), s1)"
    using cm(1) assms(8,9) by (simp add: sys_read_def check_fd_read_def sys_read_keyboard_def s1_def to_u32_def)
  moreover have "sys_call_table ! 5 = Sys_read" by (simp add: sys_call_table_def)
  ultimately have run: "system_call_handler ?u s = Some (Return (?u\<lparr>r_eax := to_u32 (int n)\<rparr>),
      charge system_ticks_update (cur s) (upd_stack (cur s) 1014 (to_u32 (int n)) s1))"
    using fr(1,2) n by (intro call_returns [OF assms(1), of ?u 5]) (simp_all add: call_routine_def to_s32_small)
  let ?s' = "charge system_ticks_update (cur s) (upd_stack (cur s) 1014 (to_u32 (int n)) s1)"
  have "user_bytes ?s' buf n = user_bytes (?c\<lparr>ram := m\<rparr>) buf n"
    by (rule user_bytes_same) (simp_all add: fr)
  moreover have "translate va ?s' = translate va s" for va by (rule translate_same) (simp_all add: fr)
  then have "user_region ?s' buf n" using r by (simp add: user_region_def)
  ultimately show ?thesis
    using trap_returns [of "\<lambda>u. u\<lparr>r_ebx := to_u32 0, r_ecx := buf, r_edx := to_u32 (int n), r_eax := 5\<rparr>", OF run]
      n kt fr assms(1) by (simp add: libc_read_def on_screen_def)
qed

end
