(* ===== verification/UserCounter.thy ===== *)
theory UserCounter
  imports UserProgram
begin

text \<open>
  \<open>printeja\<close> of \<open>user.c\<close>, a process that counts in a variable it shares with the other tasks of its
  address space and prints the count, between a wait and a signal of semaphore 0, and then exits. The
  variable, the local array and the string constant are at addresses of its memory.
\<close>

section \<open>Memory of the process\<close>

fun store_bytes :: "DWord \<Rightarrow> nat \<Rightarrow> Byte list \<Rightarrow> kstate \<Rightarrow> kstate option" where
  "store_bytes va i [] s = Some s"
| "store_bytes va i (b # bs) s = do { s \<leftarrow> store_at va i b s; store_bytes va (i + 1) bs s }"

fun load_bytes :: "DWord \<Rightarrow> nat \<Rightarrow> nat \<Rightarrow> kstate \<Rightarrow> Byte list option" where
  "load_bytes va i 0 s = Some []"
| "load_bytes va i (Suc n) s = do { b \<leftarrow> load_at va s i; bs \<leftarrow> load_bytes va (i + 1) n s; Some (b # bs) }"

text \<open>An int has four bytes, the lowest one first.\<close>

definition bytes_word :: "Byte list \<Rightarrow> DWord" where
  "bytes_word bs = foldr (\<lambda>b w. push_bit 8 w OR ucast b) bs 0"

definition load_int :: "DWord \<Rightarrow> kstate \<Rightarrow> int option" where
  "load_int va s = do { bs \<leftarrow> load_bytes va 0 4 s; Some (to_s32 (bytes_word bs)) }"

definition store_int :: "DWord \<Rightarrow> int \<Rightarrow> kstate \<Rightarrow> kstate option" where
  "store_int va v s = store_bytes va 0 (word_bytes (to_u32 v)) s"

section \<open>The process\<close>

text \<open>What follows a call runs when the call returns at once.\<close>

definition after_call ::
  "libc_result \<Rightarrow> (uproc \<Rightarrow> kstate \<Rightarrow> ('a outcome \<times> kstate) option) \<Rightarrow> ('a outcome \<times> kstate) option" where
  "after_call r f =
     do { (r, s) \<leftarrow> r;
          case r of Switched \<Rightarrow> Some (Switched, s) | Return (_, p) \<Rightarrow> f p s }"

text \<open>\<open>cont++\<close>, \<open>itoa(cont, buff)\<close> and \<open>strlen(buff)\<close>.\<close>

definition count_up :: "DWord \<Rightarrow> DWord \<Rightarrow> kstate \<Rightarrow> (int \<times> kstate) option" where
  "count_up cont buff s =
     do { c \<leftarrow> load_int cont s;
          c \<leftarrow> c_int (c + 1);
          s \<leftarrow> store_int cont c s;
          b \<leftarrow> load_bytes buff 0 128 s;
          b \<leftarrow> itoa c b;
          s \<leftarrow> store_bytes buff 0 b s;
          n \<leftarrow> strlen b;
          Some (n, s) }"

definition printeja :: "DWord \<Rightarrow> DWord \<Rightarrow> DWord \<Rightarrow> uproc \<Rightarrow> kstate \<Rightarrow> (user_regs outcome \<times> kstate) option" where
  "printeja cont buff newline p s =
     after_call (libc_sem_wait 0 p s) (\<lambda>p s.
       do { (n, s) \<leftarrow> count_up cont buff s;
            after_call (libc_write 1 buff n p s) (\<lambda>p s.
              after_call (libc_write 1 newline 1 p s) (\<lambda>p s.
                after_call (libc_sem_signal 0 p s) libc_exit)) })"

lemma after_call_return [simp]: "after_call (Some (Return (v, p), s)) f = f p s"
  by (simp add: after_call_def)

section \<open>Loads and stores\<close>

lemma bytes_word_bytes: "bytes_word (word_bytes w) = w"
proof (rule bit_word_eqI)
  fix n assume "n < LENGTH(32)"
  moreover have "[0..<4] = [0, 1, 2, 3 :: nat]" by (simp add: upt_rec)
  ultimately show "bit (bytes_word (word_bytes w)) n = bit w n"
    by (cases "n < 8"; cases "n < 16"; cases "n < 24") (auto simp: bytes_word_def word_bytes_def bit_simps)
qed

lemma load_bytes_eq:
  "(\<And>j. j < n \<Longrightarrow> load_at va s (i + j) \<noteq> None) \<Longrightarrow>
    load_bytes va i n s = Some (map (\<lambda>j. the (load_at va s (i + j))) [0..<n])"
proof (induction n arbitrary: i)
  case (Suc n)
  have "load_at va s (Suc i + j) \<noteq> None" if "j < n" for j using Suc.prems [of "Suc j"] that by simp
  from Suc.IH [of "Suc i", OF this] Suc.prems [of 0] show ?case
    by (auto simp: map_upt_Suc simp del: upt_Suc)
qed simp

lemma load_mapped: "user_mapped s va n \<Longrightarrow> load_bytes va 0 n s = Some (user_bytes s va n)"
  using load_bytes_eq [of n va s 0] by (simp add: user_mapped_def user_bytes_def)

lemma store_bytes_spec:
  "user_region s va n \<Longrightarrow> i + length bs \<le> n \<Longrightarrow>
    \<exists>r. store_bytes va i bs s = Some (s\<lparr>ram := r\<rparr>) \<and>
      (\<forall>j < n. load_at va (s\<lparr>ram := r\<rparr>) j =
        (if i \<le> j \<and> j < i + length bs then Some (bs ! (j - i)) else load_at va s j)) \<and>
      (\<forall>w. translate w s \<notin> cells s va n \<longrightarrow> load_byte w (s\<lparr>ram := r\<rparr>) = load_byte w s)"
proof (induction bs arbitrary: i s)
  case Nil
  have "s = s\<lparr>ram := ram s\<rparr>" by simp
  then show ?case by (intro exI [of _ "ram s"]) auto
next
  case (Cons b bs)
  then have "i < n" by simp
  from store_at_region [OF Cons.prems(1) this, of b] obtain q where
    q: "store_at va i b s = Some (s\<lparr>ram := q\<rparr>)"
      "\<forall>j < n. load_at va (s\<lparr>ram := q\<rparr>) j = (if j = i then Some b else load_at va s j)"
      "\<forall>w. translate w s \<notin> cells s va n \<longrightarrow> load_byte w (s\<lparr>ram := q\<rparr>) = load_byte w s"
    by auto
  from Cons.IH [of "s\<lparr>ram := q\<rparr>" "i + 1"] Cons.prems obtain r where
    r: "store_bytes va (i + 1) bs (s\<lparr>ram := q\<rparr>) = Some (s\<lparr>ram := r\<rparr>)"
      "\<forall>j < n. load_at va (s\<lparr>ram := r\<rparr>) j = (if i + 1 \<le> j \<and> j < i + 1 + length bs
        then Some (bs ! (j - (i + 1))) else load_at va (s\<lparr>ram := q\<rparr>) j)"
      "\<forall>w. translate w s \<notin> cells s va n \<longrightarrow> load_byte w (s\<lparr>ram := r\<rparr>) = load_byte w (s\<lparr>ram := q\<rparr>)"
    by auto
  have "load_at va (s\<lparr>ram := r\<rparr>) j =
      (if i \<le> j \<and> j < i + length (b # bs) then Some ((b # bs) ! (j - i)) else load_at va s j)" if "j < n" for j
    using that r(2) q(2) by (auto simp: nth_Cons' not_less_eq_eq)
  with q(1,3) r(1,3) show ?case by (intro exI [of _ r]) simp
qed

text \<open>An array stored at the start of a region.\<close>

lemma store_array:
  assumes "user_region s va n" and "length bs = n"
  obtains r where "store_bytes va 0 bs s = Some (s\<lparr>ram := r\<rparr>)" "load_bytes va 0 n (s\<lparr>ram := r\<rparr>) = Some bs"
    "\<And>w. translate w s \<notin> cells s va n \<Longrightarrow> load_byte w (s\<lparr>ram := r\<rparr>) = load_byte w s"
proof -
  from store_bytes_spec [OF assms(1), of 0 bs] assms(2) obtain r where
    r: "store_bytes va 0 bs s = Some (s\<lparr>ram := r\<rparr>)" "\<forall>j < n. load_at va (s\<lparr>ram := r\<rparr>) j = Some (bs ! j)"
      "\<forall>w. translate w s \<notin> cells s va n \<longrightarrow> load_byte w (s\<lparr>ram := r\<rparr>) = load_byte w s" by auto
  have "load_bytes va 0 n (s\<lparr>ram := r\<rparr>) = Some (map (\<lambda>j. bs ! j) [0..<n])"
    using r(2) by (subst load_bytes_eq) simp_all
  also have "map (\<lambda>j. bs ! j) [0..<n] = bs" using assms(2) map_nth by blast
  finally show ?thesis using r that by blast
qed

section \<open>The calls on semaphores\<close>

lemma sem_call:
  assumes "tss_esp0 s = KERNEL_ESP (syms s) (cur s)"
    and n: "to_s32 (r_eax (load (regs p))) = int n" "n < 36"
    and run: "call_routine (sys_call_table ! n) (r_ebx (load (regs p))) (r_ecx (load (regs p)))
      (r_edx (load (regs p))) (called (load (regs p)) s) =
      Some (Return 0, upd_sem i f (called (load (regs p)) s))"
  shows "\<exists>u' s'. trap load p s = Some (Return (0, \<lparr>regs = u', errno = errno p\<rparr>), s') \<and> undisturbed s s' \<and>
    semaphores s' = (semaphores s)(i := f (semaphores s i)) \<and> ram s' = ram s \<and> port_e9 s' = port_e9 s \<and>
    on_screen s' = on_screen s"
proof -
  let ?c = "called (load (regs p)) s" and ?s = "upd_sem i f (called (load (regs p)) s)"
  have fr: "cur ?s = cur s" "tasks ?s = tasks ?c" "undisturbed ?c ?s"
    by (simp_all add: upd_sem_def undisturbed_def task_of_def)
  have "system_call_handler (load (regs p)) s = Some (Return ((load (regs p))\<lparr>r_eax := 0\<rparr>), returned 0 ?s)"
    using call_returns [OF assms(1) n run] fr by simp
  from trap_returns [of load, OF this] have "trap load p s =
      Some (Return (0, \<lparr>regs = (load (regs p))\<lparr>r_eax := 0, r_ebx := r_ebx (regs p)\<rparr>, errno = errno p\<rparr>), returned 0 ?s)"
    by (simp add: to_s32_small)
  moreover have "semaphores (returned 0 ?s) = (semaphores s)(i := f (semaphores s i))"
    by (simp add: upd_stack_def upd_sem_def)
  moreover have "on_screen (returned 0 ?s) = on_screen s" "ram (returned 0 ?s) = ram s"
    "port_e9 (returned 0 ?s) = port_e9 s"
    by (simp_all add: on_screen_def upd_stack_def upd_sem_def)
  ultimately show ?thesis using undisturbed_returned [OF fr(3)] by blast
qed

lemma sem_wait_call:
  assumes "tss_esp0 s = KERNEL_ESP (syms s) (cur s)" and "i < 20" and "0 < counter (semaphores s i)"
  shows "\<exists>u' s'. libc_sem_wait (int i) p s = Some (Return (0, \<lparr>regs = u', errno = errno p\<rparr>), s') \<and>
    undisturbed s s' \<and> semaphores s' = (semaphores s)(i := (semaphores s i)\<lparr>counter := counter (semaphores s i) - 1\<rparr>) \<and>
    ram s' = ram s \<and> port_e9 s' = port_e9 s \<and> on_screen s' = on_screen s"
  unfolding libc_sem_wait_def
proof (rule sem_call [OF assms(1), where n = 22])
  have "sys_call_table ! 22 = Sys_sem_wait" by (simp add: sys_call_table_def)
  moreover have "to_s32 (to_u32 (int i)) = int i" using assms(2) by (simp add: to_s32_to_u32 int_ok_def)
  ultimately show "call_routine (sys_call_table ! 22) (r_ebx ((regs p)\<lparr>r_ebx := to_u32 (int i), r_eax := 22\<rparr>))
      (r_ecx ((regs p)\<lparr>r_ebx := to_u32 (int i), r_eax := 22\<rparr>))
      (r_edx ((regs p)\<lparr>r_ebx := to_u32 (int i), r_eax := 22\<rparr>))
      (called ((regs p)\<lparr>r_ebx := to_u32 (int i), r_eax := 22\<rparr>) s) =
      Some (Return 0, upd_sem i (\<lambda>x. x\<lparr>counter := counter x - 1\<rparr>) (called ((regs p)\<lparr>r_ebx := to_u32 (int i), r_eax := 22\<rparr>) s))"
    using assms(2,3) by (simp add: call_routine_def sem_wait_decrements to_u32_def [of 0])
qed (simp_all add: to_s32_small)

lemma sem_signal_call:
  assumes "tss_esp0 s = KERNEL_ESP (syms s) (cur s)" and "i < 20" and "sched_ok s qs"
    and "qs (SemQueue i) = Some []" and "int_ok (counter (semaphores s i) + 1)"
  shows "\<exists>u' s'. libc_sem_signal (int i) p s = Some (Return (0, \<lparr>regs = u', errno = errno p\<rparr>), s') \<and>
    undisturbed s s' \<and> semaphores s' = (semaphores s)(i := (semaphores s i)\<lparr>counter := counter (semaphores s i) + 1\<rparr>) \<and>
    ram s' = ram s \<and> port_e9 s' = port_e9 s \<and> on_screen s' = on_screen s"
  unfolding libc_sem_signal_def
proof (rule sem_call [OF assms(1), where n = 23 and
    f = "\<lambda>x. x\<lparr>counter := counter (semaphores s i) + 1\<rparr>"])
  let ?u = "(regs p)\<lparr>r_ebx := to_u32 (int i), r_eax := 23\<rparr>"
  have "sys_call_table ! 23 = Sys_sem_signal" by (simp add: sys_call_table_def)
  moreover have "to_s32 (to_u32 (int i)) = int i" using assms(2) by (simp add: to_s32_to_u32 int_ok_def)
  moreover have "sched_ok (called ?u s) qs" using assms(3) by simp
  from sem_signal_increments [OF assms(2) this assms(4)] assms(5)
  have "sys_sem_signal (int i) (called ?u s) =
      Some (0, upd_sem i (\<lambda>x. x\<lparr>counter := counter (semaphores s i) + 1\<rparr>) (called ?u s))" by simp
  ultimately show "call_routine (sys_call_table ! 23) (r_ebx ?u) (r_ecx ?u) (r_edx ?u) (called ?u s) =
      Some (Return 0, upd_sem i (\<lambda>x. x\<lparr>counter := counter (semaphores s i) + 1\<rparr>) (called ?u s))"
    by (simp add: call_routine_def to_u32_def [of 0])
qed (simp_all add: to_s32_small)

section \<open>What it prints\<close>

lemma user_region_part: "user_region s va n \<Longrightarrow> m \<le> n \<Longrightarrow> user_region s va m"
  by (auto simp: user_region_def inj_on_def)

lemma user_bytes_part: "m \<le> n \<Longrightarrow> user_bytes s va m = take m (user_bytes s va n)"
  by (simp add: user_bytes_def take_map)

lemma region_offset:
  assumes "user_region s va n" and "k + m \<le> n"
  shows "user_region s (va + of_nat k) m"
    "cells s (va + of_nat k) m = (\<lambda>i. translate (va + of_nat i) s) ` {k..<k + m}"
proof -
  have at: "va + of_nat k + of_nat i = va + of_nat (k + i)" for i by simp
  have img: "(\<lambda>i. translate (va + of_nat k + of_nat i) s) = (\<lambda>i. translate (va + of_nat i) s) \<circ> (+) k"
    by (simp only: at comp_def)
  have sh: "(+) k ` {..<m} = {k..<k + m}" by (auto simp: image_iff Bex_def intro: exI [of _ "_ - k"]) presburger
  have "inj_on (\<lambda>i. translate (va + of_nat i) s) {k..<k + m}"
    using assms by (auto simp: user_region_def intro: inj_on_subset)
  then have "inj_on ((\<lambda>i. translate (va + of_nat i) s) \<circ> (+) k) {..<m}" by (intro comp_inj_on) (simp_all add: sh)
  moreover have "\<exists>f j. translate (va + of_nat k + of_nat i) s = Some (f, j) \<and> 256 \<le> f" if "i < m" for i
  proof -
    have "k + i < n" using that assms(2) by simp
    then show ?thesis using assms(1) unfolding at user_region_def by blast
  qed
  ultimately show "user_region s (va + of_nat k) m" unfolding user_region_def img by blast
  show "cells s (va + of_nat k) m = (\<lambda>i. translate (va + of_nat i) s) ` {k..<k + m}"
    unfolding cells_def img image_comp [symmetric] sh ..
qed

lemma parts_apart:
  assumes "user_region s va n" and "k + m \<le> l" and "l + r \<le> n"
  shows "cells s (va + of_nat k) m \<inter> cells s (va + of_nat l) r = {}"
proof -
  have "inj_on (\<lambda>i. translate (va + of_nat i) s) {..<n}" using assms(1) by (simp add: user_region_def)
  then have "(\<lambda>i. translate (va + of_nat i) s) ` {k..<k + m} \<inter> (\<lambda>i. translate (va + of_nat i) s) ` {l..<l + r} =
      (\<lambda>i. translate (va + of_nat i) s) ` ({k..<k + m} \<inter> {l..<l + r})"
    using assms(2,3) by (intro inj_on_image_Int [symmetric]) auto
  also have "{k..<k + m} \<inter> {l..<l + r} = {}" using assms(2) by auto
  finally show ?thesis
    using region_offset(2) [OF assms(1), of k m] region_offset(2) [OF assms(1), of l r] assms(2,3) by simp
qed

lemma byte_region: "load_byte va s \<noteq> None \<Longrightarrow> user_region s va 1"
  by (auto simp: user_region_def load_byte_def inj_on_def split: bind_splits if_splits)

lemma region_loaded: "user_region s va n \<Longrightarrow> load_bytes va 0 n s = Some (user_bytes s va n)"
  by (rule load_mapped [OF region_mapped])

text \<open>The count goes up by one, and the array holds its digits.\<close>

lemma count_up_spec:
  assumes c: "load_int cont s = Some c" "0 \<le> c" "c < INT_MAX"
    and rg: "user_region s cont 4" "user_region s buff 128" "cells s cont 4 \<inter> cells s buff 128 = {}"
  defines "d \<equiv> decimal (nat (c + 1))"
  shows "\<exists>m. count_up cont buff s = Some (int (length d), s\<lparr>ram := m\<rparr>) \<and> length d \<le> 10 \<and>
    user_bytes (s\<lparr>ram := m\<rparr>) buff (length d) = d \<and> load_int cont (s\<lparr>ram := m\<rparr>) = Some (c + 1) \<and>
    (\<forall>w. translate w s \<notin> cells s cont 4 \<union> cells s buff 128 \<longrightarrow> load_byte w (s\<lparr>ram := m\<rparr>) = load_byte w s)"
proof -
  obtain m2 where 2: "store_int cont (c + 1) s = Some (s\<lparr>ram := m2\<rparr>)"
    "load_bytes cont 0 4 (s\<lparr>ram := m2\<rparr>) = Some (word_bytes (to_u32 (c + 1)))"
    "\<And>w. translate w s \<notin> cells s cont 4 \<Longrightarrow> load_byte w (s\<lparr>ram := m2\<rparr>) = load_byte w s"
    by (rule store_array [of s cont 4 "word_bytes (to_u32 (c + 1))"])
      (use rg(1) in \<open>simp_all add: store_int_def word_bytes_def\<close>)
  define b where "b = d @ 0 # drop (length d + 1) (user_bytes (s\<lparr>ram := m2\<rparr>) buff 128)"
  have n: "length d \<le> 10" unfolding d_def by (rule decimal_length) (use c(2,3) in simp_all)
  have itoa: "itoa (c + 1) (user_bytes (s\<lparr>ram := m2\<rparr>) buff 128) = Some b"
    using itoa_eq [of "nat (c + 1)" "user_bytes (s\<lparr>ram := m2\<rparr>) buff 128"] n c(2)
    by (simp add: user_bytes_def b_def d_def)
  have "takeWhile (\<lambda>c. c \<noteq> 0) b = d"
    unfolding b_def d_def using decimal_nonzero [of "nat (c + 1)"] by (subst takeWhile_append2) auto
  then have len: "strlen b = Some (int (length d))" by (simp add: strlen_eq b_def)
  have reg2: "user_region (s\<lparr>ram := m2\<rparr>) buff 128" and lb: "length b = 128"
    using rg(2) n by (simp_all add: user_bytes_def b_def)
  obtain m3 where 3: "store_bytes buff 0 b (s\<lparr>ram := m2\<rparr>) = Some (s\<lparr>ram := m3\<rparr>)"
    "load_bytes buff 0 128 (s\<lparr>ram := m3\<rparr>) = Some b"
    "\<And>w. translate w s \<notin> cells s buff 128 \<Longrightarrow> load_byte w (s\<lparr>ram := m3\<rparr>) = load_byte w (s\<lparr>ram := m2\<rparr>)"
    by (rule store_array [OF reg2 lb]) simp
  have "user_bytes (s\<lparr>ram := m3\<rparr>) buff 128 = b" using 3(2) region_loaded [of "s\<lparr>ram := m3\<rparr>" buff 128] rg(2) by simp
  then have out: "user_bytes (s\<lparr>ram := m3\<rparr>) buff (length d) = d"
    using user_bytes_part [of "length d" 128 "s\<lparr>ram := m3\<rparr>" buff] n by (simp add: b_def)
  have "translate (cont + of_nat j) s \<notin> cells s buff 128" if "j < 4" for j
    using that rg(3) by (auto simp: cells_def)
  then have "load_at cont (s\<lparr>ram := m3\<rparr>) j = load_at cont (s\<lparr>ram := m2\<rparr>) j" if "j < 4" for j
    using that 3(3) by (simp add: load_at_def)
  then have "user_bytes (s\<lparr>ram := m3\<rparr>) cont 4 = user_bytes (s\<lparr>ram := m2\<rparr>) cont 4" by (simp add: user_bytes_def)
  then have "load_bytes cont 0 4 (s\<lparr>ram := m3\<rparr>) = Some (word_bytes (to_u32 (c + 1)))"
    using 2(2) rg(1) by (simp add: region_loaded)
  then have "load_int cont (s\<lparr>ram := m3\<rparr>) = Some (c + 1)"
    using c(2,3) by (simp add: load_int_def bytes_word_bytes to_s32_to_u32 int_ok_def)
  moreover have "count_up cont buff s = Some (int (length d), s\<lparr>ram := m3\<rparr>)"
    using c 2(1) 3(1) itoa len region_loaded [OF reg2] by (simp add: count_up_def int_ok_def)
  ultimately show ?thesis using n out 2(3) 3(3) by (intro exI [of _ m3]) simp
qed

lemma load_int_same:
  assumes "undisturbed s s'" and "ram s' = ram s"
  shows "load_int va s' = load_int va s"
proof -
  have "load_bytes va i n s' = load_bytes va i n s" for i n
    by (induction n arbitrary: i) (simp_all add: undisturbed_load [OF assms])
  then show ?thesis by (simp add: load_int_def)
qed

text \<open>
  The counter is free and no process waits for it: the process adds one to the shared variable,
  prints the new count and a new line, leaves the semaphore as it was, and exits.
\<close>

lemma count_and_print:
  assumes esp: "tss_esp0 s = KERNEL_ESP (syms s) (cur s)" and ok: "sched_ok s qs"
    and q: "qs (SemQueue 0) = Some []" and sem: "0 < counter (semaphores s 0)" "int_ok (counter (semaphores s 0))"
    and scr: "on_screen s" and c: "load_int cont s = Some c" "0 \<le> c" "c < INT_MAX"
    and rg: "user_region s cont 4" "user_region s buff 128" "cells s cont 4 \<inter> cells s buff 128 = {}"
    and nl: "load_byte newline s = Some 10" "translate newline s \<notin> cells s cont 4 \<union> cells s buff 128"
    and acc: "buff \<noteq> 0" "access_ok VERIFY_READ buff 10 = 1" "newline \<noteq> 0" "access_ok VERIFY_READ newline 1 = 1"
  shows "\<exists>p' s'. printeja cont buff newline p s = libc_exit p' s' \<and> errno p' = errno p \<and>
    port_e9 s' = port_e9 s @ decimal (nat (c + 1)) @ [10] \<and> load_int cont s' = Some (c + 1) \<and>
    semaphores s' = semaphores s \<and> undisturbed s s'"
proof -
  let ?d = "decimal (nat (c + 1))"
  obtain u1 s1 where 1: "libc_sem_wait 0 p s = Some (Return (0, \<lparr>regs = u1, errno = errno p\<rparr>), s1)"
    "undisturbed s s1" "semaphores s1 = (semaphores s)(0 := (semaphores s 0)\<lparr>counter := counter (semaphores s 0) - 1\<rparr>)"
    "ram s1 = ram s" "port_e9 s1 = port_e9 s" "on_screen s1 = on_screen s"
    using sem_wait_call [OF esp, of 0 p] sem(1) by auto
  note r1 = undisturbed_region [OF 1(2)] undisturbed_translate [OF 1(2)]
  obtain m where m: "count_up cont buff s1 = Some (int (length ?d), s1\<lparr>ram := m\<rparr>)" "length ?d \<le> 10"
    "user_bytes (s1\<lparr>ram := m\<rparr>) buff (length ?d) = ?d" "load_int cont (s1\<lparr>ram := m\<rparr>) = Some (c + 1)"
    "\<forall>w. translate w s \<notin> cells s cont 4 \<union> cells s buff 128 \<longrightarrow> load_byte w (s1\<lparr>ram := m\<rparr>) = load_byte w s1"
    using count_up_spec [of cont s1 c buff] c rg load_int_same [OF 1(2,4)] by (auto simp: r1)
  define s2 where "s2 = s1\<lparr>ram := m\<rparr>"
  have u2: "undisturbed s s2" using undisturbed_trans [OF 1(2)] by (simp add: s2_def)
  have b2: "user_region s2 buff (length ?d)" "load_byte newline s2 = Some 10"
    using user_region_part [OF rg(2), of "length ?d"] m(2,5) nl undisturbed_load [OF 1(2,4)]
    by (simp_all add: s2_def r1)
  have "access_ok VERIFY_READ buff (of_nat (length ?d)) = 1"
    using acc(2) m(2) by (simp add: access_ok_range unat_of_nat_u32)
  then obtain u3 s3 where 3: "libc_write 1 buff (int (length ?d)) \<lparr>regs = u1, errno = errno p\<rparr> s2 =
      Some (Return (int (length ?d), \<lparr>regs = u3, errno = errno p\<rparr>), s3)" "port_e9 s3 = port_e9 s @ ?d"
    "ram s3 = ram s2" "semaphores s3 = semaphores s1" "on_screen s3" "undisturbed s2 s3"
    using write_call [OF undisturbed_esp0 [OF u2 esp] _ b2(1), of "\<lparr>regs = u1, errno = errno p\<rparr>"] scr acc(1) m(2,3) 1(5,6)
    by (auto simp: s2_def on_screen_def)
  have u3: "undisturbed s s3" by (rule undisturbed_trans [OF u2 3(6)])
  have nl3: "load_byte newline s3 = Some 10" using undisturbed_load [OF 3(6,3)] b2(2) by simp
  then have "user_region s3 newline 1" "user_bytes s3 newline 1 = [10]"
    using byte_region [of newline s3] by (simp_all add: user_bytes_def load_at_def)
  then obtain u4 s4 where 4: "libc_write 1 newline 1 \<lparr>regs = u3, errno = errno p\<rparr> s3 =
      Some (Return (1, \<lparr>regs = u4, errno = errno p\<rparr>), s4)" "port_e9 s4 = port_e9 s3 @ [10]"
    "ram s4 = ram s3" "semaphores s4 = semaphores s3" "undisturbed s3 s4"
    using write_call [OF undisturbed_esp0 [OF u3 esp] 3(5), of newline 1 "\<lparr>regs = u3, errno = errno p\<rparr>"] acc(3,4)
    by auto
  have u4: "undisturbed s s4" by (rule undisturbed_trans [OF u3 4(5)])
  obtain u5 s5 where 5: "libc_sem_signal 0 \<lparr>regs = u4, errno = errno p\<rparr> s4 =
      Some (Return (0, \<lparr>regs = u5, errno = errno p\<rparr>), s5)" "undisturbed s4 s5"
    "semaphores s5 = semaphores s" "ram s5 = ram s4" "port_e9 s5 = port_e9 s4"
    using sem_signal_call [OF undisturbed_esp0 [OF u4 esp], of 0 qs "\<lparr>regs = u4, errno = errno p\<rparr>"]
      undisturbed_sched_ok [OF u4] ok q sem(2) 1(3) 3(4) 4(4) by auto
  have "load_int cont s5 = Some (c + 1)"
    using load_int_same [OF 5(2,4)] load_int_same [OF 4(5,3)] load_int_same [OF 3(6,3)] m(4) by (simp add: s2_def)
  moreover have "printeja cont buff newline p s = libc_exit \<lparr>regs = u5, errno = errno p\<rparr> s5"
    using 1(1) m(1) 3(1) 4(1) 5(1) by (simp add: printeja_def s2_def)
  ultimately show ?thesis
    using 3(2) 4(2) 5(3,5) undisturbed_trans [OF u4 5(2)]
    by (intro exI [of _ "\<lparr>regs = u5, errno = errno p\<rparr>"] exI [of _ s5]) simp
qed

end
