(* ===== verification/LibcTheorems.thy ===== *)
theory LibcTheorems
  imports UserCounter EntryTheorems InputTheorems
begin

text \<open>
  The properties of the user library: number printing, string length, the messages of the error
  numbers, and what a program sees of the calls.
\<close>

section \<open>Properties\<close>

text \<open>
  C39: \<open>itoa\<close> of a number that is not negative writes its decimal digits, a terminating zero, and
  nothing else, when the array is longer than the digits: \<open>strlen\<close> finds as many characters as there
  are digits, at most 10 for an int, and reading them as a decimal number gives the argument back.
\<close>

theorem itoa_prints:
  assumes "0 \<le> a" and "a \<le> INT_MAX" and "length (decimal (nat a)) < length b"
  shows "\<exists>b'. itoa a b = Some b' \<and> length b' = length b \<and>
    strlen b' = Some (int (length (decimal (nat a)))) \<and> length (decimal (nat a)) \<le> 10 \<and>
    decimal_value (takeWhile (\<lambda>c. c \<noteq> 0) b') = nat a \<and>
    drop (length (decimal (nat a)) + 1) b' = drop (length (decimal (nat a)) + 1) b"
proof -
  let ?d = "decimal (nat a)" and ?b = "decimal (nat a) @ 0 # drop (length (decimal (nat a)) + 1) b"
  have "itoa a b = Some ?b" using itoa_eq [of "nat a" b] assms(1,3) by simp
  moreover have tw: "takeWhile (\<lambda>c. c \<noteq> 0) ?b = ?d"
    using decimal_nonzero [of "nat a"] by (subst takeWhile_append2) auto
  moreover have "strlen ?b = Some (int (length ?d))" unfolding strlen_eq tw by simp
  moreover have "length ?d \<le> 10" by (rule decimal_length) (use assms in simp_all)
  ultimately show ?thesis using assms(3) by (intro exI [of _ ?b]) simp
qed

theorem itoa_prints_witness:
  "\<exists>b'. itoa 1234567890 (replicate 128 7) = Some b' \<and> strlen b' = Some (int (length (decimal 1234567890))) \<and>
    decimal_value (takeWhile (\<lambda>c. c \<noteq> 0) b') = 1234567890"
proof -
  have "length (decimal (nat 1234567890)) \<le> 10" by (rule decimal_length) simp_all
  then show ?thesis using itoa_prints [of 1234567890 "replicate 128 7"] by auto
qed

text \<open>
  \<open>strlen\<close> stops at the first zero of the array and returns its index; without a zero in the
  array it reads past the end.
\<close>

theorem strlen_stops:
  "strlen a = (if 0 \<in> set a then Some (int (length (takeWhile (\<lambda>c. c \<noteq> 0) a))) else None)"
  by (rule strlen_eq)

text \<open>
  Every error number of \<open>errno.h\<close> is an index of \<open>sys_errlist\<close> with a message of its own, other
  than the filler, and the numbers that the kernel returns have the messages they should have.
\<close>

theorem errno_messages:
  "list_all (\<lambda>(name, n). n < length sys_errlist \<and> sys_errlist ! n \<noteq> ''(null)'') errno_table \<and>
    length sys_errlist = 135 \<and>
    map (\<lambda>e. sys_errlist ! nat e) [EBADF, EAGAIN, ENOMEM, EACCES, EFAULT, EINVAL, ENOSYS, ENAVAIL] =
      [''Bad file descriptor'', ''Resource temporarily unavailable'', ''Cannot allocate memory'',
       ''Permission denied'', ''Bad address'', ''Invalid argument'', ''Function not implemented'',
       ''No XENIX semaphores available''] \<and>
    map (\<lambda>name. map_option int (map_of errno_table name))
      [''EBADF'', ''EAGAIN'', ''ENOMEM'', ''EACCES'', ''EFAULT'', ''EINVAL'', ''ENOSYS'', ''ENAVAIL''] =
      map Some [EBADF, EAGAIN, ENOMEM, EACCES, EFAULT, EINVAL, ENOSYS, ENAVAIL]"
  unfolding errno_values by code_simp

text \<open>
  C18: \<open>fork\<close> of the library returns twice: the process number of the child in the father and, when
  the child runs for the first time, 0 in the child, with the other registers and \<open>errno\<close> as before.
\<close>

theorem libc_fork_twice:
  assumes "tss_esp0 s = KERNEL_ESP (syms s) (cur s)" and "fork_ready s qs i j c fs rs k"
    and "0 \<le> to_s32 (nextPid s + 1)"
  shows "\<exists>s'. libc_fork p s = Some (Return (to_s32 (nextPid s + 1),
        p\<lparr>regs := (regs p)\<lparr>r_eax := nextPid s + 1\<rparr>\<rparr>), s') \<and>
    sched_ok s' (qs(Freequeue \<mapsto> fs, Readyqueue \<mapsto> rs @ [c])) \<and>
    (\<forall>s''. kept c s' s'' \<longrightarrow> cur s'' = c \<longrightarrow> (\<exists>u s3. resume show_clock s'' = Some (Return (Some u), s3) \<and>
      libc_done u p = Some (0, p\<lparr>regs := (regs p)\<lparr>r_eax := 0\<rparr>\<rparr>)))"
proof -
  let ?u = "(regs p)\<lparr>r_eax := 2\<rparr>"
  have eax: "to_s32 (r_eax ?u) = 2" by (simp add: to_s32_small)
  obtain s' where s': "system_call_handler ?u s = Some (Return (?u\<lparr>r_eax := nextPid s + 1\<rparr>), s')"
    "sched_ok s' (qs(Freequeue \<mapsto> fs, Readyqueue \<mapsto> rs @ [c]))"
    "user_context s' c = ?u" "syms s' = syms s"
    "kernel_esp (task_of s' c) = Esp (stack_addr (syms s) c SLOT_ebp)"
    "stack (tasks s' c) 1006 = ret_from_fork_at (syms s)"
    "stack (tasks s' c) 1007 = syscall_ret_at (syms s)"
    using call_fork [OF assms(1) eax assms(2)] by blast
  have same: "p\<lparr>regs := (regs p)\<lparr>r_eax := v\<rparr>\<rparr> =
      \<lparr>regs = (regs p)\<lparr>r_eax := v, r_ebx := r_ebx (regs p)\<rparr>, errno = errno p\<rparr>" for v
    by (rule uproc.equality, rule user_regs.equality) simp_all
  have father: "libc_fork p s = Some (Return (to_s32 (nextPid s + 1),
        p\<lparr>regs := (regs p)\<lparr>r_eax := nextPid s + 1\<rparr>\<rparr>), s')"
    using trap_returns [of "\<lambda>u. u\<lparr>r_eax := 2\<rparr>", OF s'(1)] assms(3) by (simp add: libc_fork_def same)
  have "\<exists>u s3. resume show_clock s'' = Some (Return (Some u), s3) \<and>
      libc_done u p = Some (0, p\<lparr>regs := (regs p)\<lparr>r_eax := 0\<rparr>\<rparr>)" if "kept c s' s''" "cur s'' = c" for s''
  proof -
    have "\<exists>s3. resume show_clock s'' = Some (Return (Some ((user_context s' c)\<lparr>r_eax := 0\<rparr>)), s3)"
      by (rule resume_kept [OF _ _ _ that]) (simp_all add: s'(4-7))
    moreover have "libc_done (?u\<lparr>r_eax := 0\<rparr>) p = Some (0, p\<lparr>regs := (regs p)\<lparr>r_eax := 0\<rparr>\<rparr>)"
      by (simp add: libc_done_def same to_s32_small)
    ultimately show ?thesis using s'(3) by auto
  qed
  with father s'(2) show ?thesis by blast
qed

definition sample_proc :: uproc where
  "sample_proc = \<lparr>regs = sample_regs 77, errno = 0\<rparr>"

theorem libc_fork_twice_witness:
  "\<exists>s' u s3. libc_fork sample_proc sample = Some (Return (14, \<lparr>regs = sample_regs 14, errno = 0\<rparr>), s') \<and>
    resume (\<lambda>s. s) (s'\<lparr>cur := 7\<rparr>) = Some (Return (Some u), s3) \<and>
    libc_done u sample_proc = Some (0, \<lparr>regs = sample_regs 0, errno = 0\<rparr>)"
proof -
  have n: "nextPid sample + 1 = 14" "to_s32 14 = 14"
    using sample_first by (simp_all add: first_process_def to_s32_small)
  have p: "sample_proc\<lparr>regs := (regs sample_proc)\<lparr>r_eax := v\<rparr>\<rparr> = \<lparr>regs = sample_regs v, errno = 0\<rparr>" for v
    by (simp add: sample_proc_def sample_regs_def)
  have "0 \<le> to_s32 (nextPid sample + 1)" by (simp add: n)
  from libc_fork_twice [where p = sample_proc and show_clock = "\<lambda>s. s",
      OF sample_esp0 first_fork_ready [OF sample_first] this] obtain s' where s':
    "libc_fork sample_proc sample = Some (Return (14, \<lparr>regs = sample_regs 14, errno = 0\<rparr>), s')"
    "\<forall>s''. kept 7 s' s'' \<longrightarrow> cur s'' = 7 \<longrightarrow> (\<exists>u s3. resume (\<lambda>s. s) s'' = Some (Return (Some u), s3) \<and>
      libc_done u sample_proc = Some (0, \<lparr>regs = sample_regs 0, errno = 0\<rparr>))"
    unfolding n p by blast
  have "kept 7 s' (s'\<lparr>cur := 7\<rparr>)" by (simp add: kept_def)
  with s' show ?thesis by fastforce
qed

text \<open>
  When the kernel has no free task or no memory for a child, \<open>fork\<close> of the library returns -1
  and leaves \<open>ENOMEM\<close> in \<open>errno\<close>; the register EAX apart, the registers are as before.
\<close>

theorem libc_fork_fails:
  assumes "tss_esp0 s = KERNEL_ESP (syms s) (cur s)" and "sched_ok s qs" and "qs Freequeue = Some fs"
    and "fs = [] \<or> card (avail (phys_mem s)) < 20 \<and> 256 \<notin> avail (phys_mem s)"
  shows "\<exists>s'. libc_fork p s = Some (Return (-1,
      \<lparr>regs = (regs p)\<lparr>r_eax := to_u32 (- ENOMEM)\<rparr>, errno = ENOMEM\<rparr>), s')"
proof -
  let ?u = "(regs p)\<lparr>r_eax := 2\<rparr>"
  have "to_s32 (r_eax ?u) = 2" by (simp add: to_s32_small)
  then obtain s' where "system_call_handler ?u s = Some (Return (?u\<lparr>r_eax := to_u32 (- ENOMEM)\<rparr>), s')"
    using call_fork_fails [OF assms(1) _ assms(2-4)] by blast
  then have "system_call_handler ?u s = Some (Return (?u\<lparr>r_eax := to_u32 (- 12)\<rparr>), s')" by simp
  from trap_fails [of "\<lambda>u. u\<lparr>r_eax := 2\<rparr>", OF this] have "\<exists>s'. libc_fork p s = Some (Return (-1,
      \<lparr>regs = ?u\<lparr>r_eax := to_u32 (- 12), r_ebx := r_ebx (regs p)\<rparr>, errno = 12\<rparr>), s')"
    by (simp add: libc_fork_def)
  moreover have "?u\<lparr>r_eax := v, r_ebx := r_ebx (regs p)\<rparr> = (regs p)\<lparr>r_eax := v\<rparr>" for v
    by (rule user_regs.equality) simp_all
  ultimately show ?thesis by simp
qed

theorem libc_fork_fails_witness:
  "\<exists>s'. libc_fork sample_proc (sample\<lparr>phys_mem := \<lambda>_. 1\<rparr>) = Some (Return (-1,
      \<lparr>regs = sample_regs (to_u32 (-12)), errno = 12\<rparr>), s')"
proof -
  let ?s = "sample\<lparr>phys_mem := \<lambda>_. 1\<rparr>"
  have "avail (\<lambda>_. 1) = {}" by (auto simp: avail_def)
  moreover have "sched_ok ?s first_queues" using sample_input(1) by (simp add: sched_ok_def)
  moreover have "tss_esp0 ?s = KERNEL_ESP (syms ?s) (cur ?s)" using sample_esp0 by simp
  moreover have "(regs sample_proc)\<lparr>r_eax := v\<rparr> = sample_regs v" for v
    by (simp add: sample_proc_def sample_regs_def)
  ultimately show ?thesis
    using libc_fork_fails [of ?s first_queues "[7, 6, 5, 4, 3, 2, 1, 0]" sample_proc]
    by (simp add: first_queues_def)
qed

text \<open>
  \<open>inner\<close> and \<open>outer\<close> return the binomial sums for every argument that is not negative, as long
  as these fit in a long, and overflow exactly when they do not.
\<close>

theorem user_sums:
  assumes "0 \<le> n"
  shows "inner n = c_int (n * (n - 1) div 2) \<and> outer n = c_int (n * (n - 1) * (n - 2) div 6)"
  using inner_eq [OF assms] outer_eq [OF assms] by (simp add: tri_def tet_def)

theorem user_sums_witness: "inner 65536 = Some 2147450880 \<and> outer 2345 = Some 2146453540 \<and> outer 2346 = None"
  using user_sums [of 65536] user_sums [of 2345] user_sums [of 2346] by (simp add: c_int_def int_ok_def)

text \<open>
  C17: The user program echoes: when five characters were typed before it reads and nobody else waits
  for the keyboard, its two calls return, it prints exactly these characters in the order they were
  typed, and takes them out of the ring.
\<close>

theorem user_main_echoes:
  assumes "tss_esp0 s = KERNEL_ESP (syms s) (cur s)" and "sched_ok s qs" and "qs Keyboardqueue = Some []"
    and "cb_ok (cb s)" and "5 \<le> length (contents (cb s))" and "user_region s buf 5" and "on_screen s"
    and "buf \<noteq> 0" and "access_ok VERIFY_WRITE buf 5 = 1" and "access_ok VERIFY_READ buf 5 = 1"
  shows "\<exists>p' s'. user_main buf p s = Some (Return p', s') \<and> errno p' = errno p \<and>
    port_e9 s' = port_e9 s @ take 5 (contents (cb s)) \<and> contents (cb s') = drop 5 (contents (cb s))"
proof -
  obtain u1 s1 where 1: "libc_read 0 buf 5 p s = Some (Return (5, \<lparr>regs = u1, errno = errno p\<rparr>), s1)"
    "contents (cb s1) = drop 5 (contents (cb s))" "user_bytes s1 buf 5 = take 5 (contents (cb s))"
    "user_region s1 buf 5" "tss_esp0 s1 = KERNEL_ESP (syms s1) (cur s1)" "port_e9 s1 = port_e9 s"
    "on_screen s1"
    using read_call [OF assms(1-5) _ assms(6,8), of p] assms(7,9) by auto
  obtain u2 s2 where "libc_write 1 buf 5 \<lparr>regs = u1, errno = errno p\<rparr> s1 =
      Some (Return (5, \<lparr>regs = u2, errno = errno p\<rparr>), s2)"
    "port_e9 s2 = port_e9 s1 @ user_bytes s1 buf 5" "cb s2 = cb s1"
    using write_call [OF 1(5,7,4), of "\<lparr>regs = u1, errno = errno p\<rparr>"] assms(8,10) by auto
  with 1 show ?thesis by (simp add: user_main_def)
qed

definition sample_typed5 :: kstate where
  "sample_typed5 = (the (key_presses (sample_keys @ [0x13, 0x14]) sample))
     \<lparr>scr_x := 0, scr_y := 0, tss_esp0 := KERNEL_ESP sample_syms 8\<rparr>"

theorem user_main_echoes_witness:
  "\<exists>p' s'. user_main 0x108000 sample_proc sample_typed5 = Some (Return p', s') \<and>
    port_e9 s' = port_e9 sample_typed5 @ [0x71, 0x77, 0x65, 0x72, 0x74]"
proof -
  have "\<forall>k \<in> set (sample_keys @ [0x13, 0x14]). pressed k" by (simp add: sample_keys_def pressed_def)
  from typing_ahead [OF sample_input(1) first_queues_values(1) sample_input(2) this]
  obtain s where s: "key_presses (sample_keys @ [0x13, 0x14]) sample = Some s"
    "sched_ok s first_queues" "input_frame sample s" "cb_ok (cb s)"
    "contents (cb s) = take (capacity (cb sample)) (contents (cb sample) @ map key_char (sample_keys @ [0x13, 0x14]))"
    by blast
  define t where "t = s\<lparr>scr_x := 0, scr_y := 0, tss_esp0 := KERNEL_ESP sample_syms 8\<rparr>"
  have eq: "sample_typed5 = t" using s(1) by (simp add: sample_typed5_def t_def)
  have c: "contents (cb t) = [0x71, 0x77, 0x65, 0x72, 0x74]"
    using s(5) by (simp add: t_def sample_input sample_keys_def key_char_def char_map_def)
  have "translate va t = translate va sample" for va
    by (rule translate_same) (use s(3) in \<open>simp_all add: t_def input_frame_def\<close>)
  then have r: "user_region t 0x108000 5" using sample_region [of 5] by (simp add: user_region_def)
  have ok: "sched_ok t first_queues" using s(2) by (simp add: t_def sched_ok_def task_of_def)
  have esp: "tss_esp0 t = KERNEL_ESP (syms t) (cur t)"
    using s(3) by (simp add: t_def input_frame_def sample_y sample_input)
  have scr: "on_screen t" "cb_ok (cb t)" using s(4) by (simp_all add: t_def on_screen_def)
  have acc: "access_ok VERIFY_WRITE 0x108000 5 = 1" "access_ok VERIFY_READ 0x108000 5 = 1"
    by (simp_all add: access_ok_range)
  show ?thesis
    using user_main_echoes [OF esp ok first_queues_values(1) scr(2) _ r scr(1) _ acc, of sample_proc]
    unfolding eq c by auto
qed

text \<open>
  C19: Counting under a semaphore: when semaphore 0 is free and no process waits for it, \<open>printeja\<close> adds
  one to the shared variable, prints the new count in decimal and a new line, leaves the semaphore and
  the queues as they were, and exits. It makes five system calls, and none of the four before the exit
  blocks or fails.
\<close>

theorem printeja_prints:
  assumes "tss_esp0 s = KERNEL_ESP (syms s) (cur s)" and "sched_ok s qs"
    and "qs (SemQueue 0) = Some []" and "0 < counter (semaphores s 0)" "int_ok (counter (semaphores s 0))"
    and "on_screen s" and "load_int cont s = Some c" "0 \<le> c" "c < INT_MAX"
    and "user_region s cont 4" "user_region s buff 128" "cells s cont 4 \<inter> cells s buff 128 = {}"
    and "load_byte newline s = Some 10" "translate newline s \<notin> cells s cont 4 \<union> cells s buff 128"
    and "buff \<noteq> 0" "access_ok VERIFY_READ buff 10 = 1" "newline \<noteq> 0" "access_ok VERIFY_READ newline 1 = 1"
  shows "\<exists>p' s'. printeja cont buff newline p s = libc_exit p' s' \<and> errno p' = errno p \<and>
    port_e9 s' = port_e9 s @ decimal (nat (c + 1)) @ [10] \<and> load_int cont s' = Some (c + 1) \<and>
    semaphores s' = semaphores s \<and> undisturbed s s'"
  by (rule count_and_print [OF assms])

text \<open>
  The counting process on a concrete state: a page full of tens, in which the variable holds
  168430090 and the string is at offset 200.
\<close>

theorem printeja_prints_witness:
  "\<exists>s p' s'. printeja 0x108000 0x108010 0x1080C8 sample_proc s = libc_exit p' s' \<and>
    port_e9 s' = port_e9 s @ decimal 168430091 @ [10] \<and> load_int 0x108000 s' = Some 168430091"
proof -
  note f = sample_first [unfolded first_process_def]
  have "owner (semaphores sample 0) = -1" using f by simp
  from sem_init_spec [of 0 sample first_queues 1, OF _ this] obtain s1 where
    s1: "sched_ok s1 (first_queues(SemQueue 0 \<mapsto> []))"
      "s1 = sample\<lparr>semaphores := (semaphores sample)(0 := \<lparr>counter = 1, owner = PID (task_of sample (cur sample))\<rparr>),
        lists := lists s1\<rparr>"
    using f by (auto simp: first_queues_def boot_queues_def to_s32_small)
  define s where "s = s1\<lparr>ram := \<lambda>_ _. 10, scr_x := 0, scr_y := 0\<rparr>"
  have fr: "syms s = syms sample" "cr3 s = cr3 sample" "dir_pages s = dir_pages sample"
    "pagusr_table s = pagusr_table sample" "tss_esp0 s = tss_esp0 sample" "cur s = cur sample" "ram s = (\<lambda>_ _. 10)"
    "semaphores s 0 = \<lparr>counter = 1, owner = PID (task_of sample (cur sample))\<rparr>" "on_screen s"
    unfolding s_def by (subst s1(2), simp add: on_screen_def)+
  have ok: "sched_ok s (first_queues(SemQueue 0 \<mapsto> []))" using s1(1) by (simp add: s_def sched_ok_def task_of_def)
  have "translate va s = translate va sample" for va by (rule translate_same [OF fr(1-4)])
  then have reg: "user_region s 0x108000 4096" using sample_region [of 4096] by (simp add: user_region_def)
  have byte: "load_at 0x108000 s i = Some 10" if "i < 4096" for i
    using reg that by (auto simp: user_region_def load_at_def load_byte_def fr(7))
  have "[0..<4] = [0, 1, 2, 3 :: nat]" by (simp add: upt_rec)
  then have "load_int 0x108000 s = Some 168430090"
    using load_bytes_eq [of 4 "0x108000" s 0] byte by (simp add: load_int_def bytes_word_def to_s32_small)
  moreover have "load_byte 0x1080C8 s = Some 10" using byte [of 200] by (simp add: load_at_def)
  moreover have "user_region s 0x108000 4" "user_region s 0x108010 128"
    using region_offset(1) [OF reg, of 0 4] region_offset(1) [OF reg, of 16 128] by simp_all
  moreover have "cells s 0x108000 4 \<inter> cells s 0x108010 128 = {}" using parts_apart [OF reg, of 0 4 16 128] by simp
  moreover have "translate 0x1080C8 s \<notin> cells s 0x108000 4 \<union> cells s 0x108010 128"
    using parts_apart [OF reg, of 0 4 200 1] parts_apart [OF reg, of 16 128 200 1] by (auto simp: cells_def [of s "0x1080C8"] lessThan_Suc)
  ultimately show ?thesis
    using printeja_prints [of s "first_queues(SemQueue 0 \<mapsto> [])" "0x108000" 168430090 "0x108010" "0x1080C8" sample_proc]
      ok fr sample_esp0 by (auto simp: int_ok_def access_ok_range)
qed

end
