(* ===== verification/BuildImage.thy ===== *)
theory BuildImage
  imports Platform
begin

text \<open>
  The tool that puts the disk image together (\<open>build.c\<close>): the boot sector, the kernel and the user
  program one after the other, and then the sizes, written over the start of the kernel's image,
  where \<open>main\<close> of the kernel finds them. The files are a map from names; the standard output is a
  file that can be positioned. \<open>die\<close> is the left side of the result. Messages to the standard error
  are not modelled, nor are failures of the operating system other than a missing or short file.
\<close>

section \<open>Errors and files\<close>

datatype build_error =
    Usage
  | Unable_to_open string
  | Unable_to_read_header string
  | Non_Minix_header string
  | Illegal_data_segment string
  | Illegal_bss_segment string
  | Illegal_symbol_table string
  | Boot_not_512_bytes
  | No_boot_flag
  | Unexpected_EOF string

definition die :: "build_error \<Rightarrow> build_error + 'a" where
  "die e = Inl e"

definition usage :: "build_error + 'a" where
  "usage = die Usage"

definition sum_bind :: "build_error + 'a \<Rightarrow> ('a \<Rightarrow> build_error + 'b) \<Rightarrow> build_error + 'b" where
  "sum_bind r f = (case r of Inl e \<Rightarrow> Inl e | Inr x \<Rightarrow> f x)"

lemma sum_bind_simps [simp]: "sum_bind (Inl e) f = Inl e" "sum_bind (Inr x) f = f x"
  by (simp_all add: sum_bind_def)

text \<open>The output: its bytes and the file position.\<close>

type_synonym outfile = "Byte list \<times> nat"

definition out_write :: "Byte list \<Rightarrow> outfile \<Rightarrow> outfile" where
  "out_write bs out =
     (let f = fst out; pos = snd out; g = f @ replicate (pos - length f) 0
      in (take pos g @ bs @ drop (pos + length bs) g, pos + length bs))"

definition out_seek :: "nat \<Rightarrow> outfile \<Rightarrow> outfile" where
  "out_seek pos out = (fst out, pos)"

section \<open>The tool\<close>

definition MINIX_HEADER_LEN :: nat where "MINIX_HEADER_LEN = 32"

definition minix_hdr :: "Byte list" where
  "minix_hdr = [0x01, 0x03, 0x10, 0x04, 0x20, 0x00, 0x00, 0x00]"

text \<open>\<open>lb[k]\<close>, a word of the header; the result is what is left of the file to read.\<close>

definition hdr_word :: "Byte list \<Rightarrow> nat \<Rightarrow> DWord" where
  "hdr_word f k = dword_at (\<lambda>a. f ! a) (4 * k)"

definition minix_open :: "(string \<Rightarrow> Byte list option) \<Rightarrow> string \<Rightarrow> build_error + Byte list" where
  "minix_open files name =
     (case files name of
        None \<Rightarrow> die (Unable_to_open name)
      | Some f \<Rightarrow>
          if length (take MINIX_HEADER_LEN f) \<noteq> MINIX_HEADER_LEN then die (Unable_to_read_header name)
          else if take (length minix_hdr) f \<noteq> minix_hdr \<or> hdr_word f 5 \<noteq> 0 then die (Non_Minix_header name)
          else if hdr_word f 3 \<noteq> 0 then die (Illegal_data_segment name)
          else if hdr_word f 4 \<noteq> 0 then die (Illegal_bss_segment name)
          else if hdr_word f 7 \<noteq> 0 then die (Illegal_symbol_table name)
          else Inr (drop MINIX_HEADER_LEN f))"

text \<open>The copy loop, by blocks of the size of \<open>buf\<close>, with \<open>sz\<close> bytes to go.\<close>

function copy_file :: "string \<Rightarrow> Byte list \<Rightarrow> nat \<Rightarrow> outfile \<Rightarrow> build_error + outfile" where
  "copy_file name f sz out =
     (if 0 < sz
      then let l = (if 1024 < sz then 1024 else sz); bs = take l f
           in if length bs \<noteq> l then die (Unexpected_EOF name)
              else copy_file name (drop l f) (sz - l) (out_write bs out)
      else Inr out)"
  by pat_completeness auto
termination
  by (relation "measure (\<lambda>(name, f, sz, out). sz)") auto

declare copy_file.simps [simp del]

text \<open>Open, \<open>fstat\<close> and copy: the size is the length of the file, in 32 bits.\<close>

definition append_file :: "(string \<Rightarrow> Byte list option) \<Rightarrow> string \<Rightarrow> outfile \<Rightarrow> build_error + (DWord \<times> outfile)" where
  "append_file files name out =
     (case files name of
        None \<Rightarrow> die (Unable_to_open name)
      | Some f \<Rightarrow> let sz = of_nat (length f)
                 in sum_bind (copy_file name f (unat sz) out) (\<lambda>out. Inr (sz, out)))"

definition boot_sector :: "Byte list \<Rightarrow> build_error + Byte list" where
  "boot_sector rest =
     (let buf = take 1024 rest
      in if length buf \<noteq> 512 then die Boot_not_512_bytes
         else if buf ! 510 \<noteq> 0x55 \<or> buf ! 511 \<noteq> 0xaa then die No_boot_flag
         else Inr (buf[508 := 0, 509 := 0]))"

definition size_word :: "DWord \<Rightarrow> Byte list" where
  "size_word n = [ucast (n AND 0xff), ucast (drop_bit 8 n AND 0xff), ucast (drop_bit 16 n AND 0xff), 0]"

definition image_paras :: "DWord \<Rightarrow> DWord \<Rightarrow> DWord" where
  "image_paras sys_size usr_size = (sys_size + usr_size + 15) div 16"

definition build_main :: "(string \<Rightarrow> Byte list option) \<Rightarrow> string list \<Rightarrow> build_error + Byte list" where
  "build_main files argv =
     (if length argv \<noteq> 4 then usage
      else sum_bind (minix_open files (argv ! 1)) (\<lambda>rest.
           sum_bind (boot_sector rest) (\<lambda>buf.
           let out = out_write buf ([], 0) in
           sum_bind (append_file files (argv ! 2) out) (\<lambda>(sys_size, out).
           sum_bind (append_file files (argv ! 3) out) (\<lambda>(usr_size, out).
           let out = out_seek 500 out;
               im_size = image_paras sys_size usr_size;
               out = out_write [ucast (im_size AND 0xff), ucast (drop_bit 8 im_size AND 0xff)] out;
               out = out_write (size_word sys_size) (out_seek 512 out);
               out = out_write (size_word usr_size) (out_seek 516 out);
               out = out_write (size_word 0x7E1A) (out_seek 520 out)
           in Inr (fst out))))))"

section \<open>What the steps do\<close>

lemma out_write_end: "out_write bs (f, length f) = (f @ bs, length f + length bs)"
  by (simp add: out_write_def)

lemma out_write_over:
  "pos + length bs \<le> length f \<Longrightarrow> out_write bs (f, pos) = (take pos f @ bs @ drop (pos + length bs) f, pos + length bs)"
  by (simp add: out_write_def)

lemma copy_file_eq:
  "copy_file name f (length f) (g, length g) = Inr (g @ f, length g + length f)"
proof (induction "length f" arbitrary: f g rule: less_induct)
  case less
  let ?l = "if 1024 < length f then 1024 else length f"
  show ?case
  proof (cases "f = []")
    case True
    then show ?thesis by (simp add: copy_file.simps)
  next
    case False
    then have d: "length (drop ?l f) < length f" "length f - ?l = length (drop ?l f)" by auto
    have "copy_file name f (length f) (g, length g) =
        copy_file name (drop ?l f) (length (drop ?l f)) (g @ take ?l f, length (g @ take ?l f))"
      using False d(2) by (subst copy_file.simps) (simp add: Let_def out_write_end)
    also have "\<dots> = Inr ((g @ take ?l f) @ drop ?l f, length (g @ take ?l f) + length (drop ?l f))"
      by (rule less.hyps [OF d(1)])
    finally show ?thesis by simp
  qed
qed

text \<open>A well-formed boot file.\<close>

definition boot_file_ok :: "Byte list \<Rightarrow> bool" where
  "boot_file_ok f \<longleftrightarrow> length f = 544 \<and> take 8 f = minix_hdr \<and>
     (\<forall>k \<in> {3, 4, 5, 7}. hdr_word f k = 0) \<and> f ! 542 = 0x55 \<and> f ! 543 = 0xaa"

definition boot_of :: "Byte list \<Rightarrow> Byte list" where
  "boot_of f = (drop 32 f)[508 := 0, 509 := 0]"

lemma length_minix_hdr [simp]: "length minix_hdr = 8"
  by (simp add: minix_hdr_def)

lemma boot_accepted:
  assumes "files name = Some f" and "boot_file_ok f"
  shows "minix_open files name = Inr (drop 32 f)" and "boot_sector (drop 32 f) = Inr (boot_of f)"
  using assms
  by (simp_all add: minix_open_def boot_file_ok_def MINIX_HEADER_LEN_def boot_sector_def boot_of_def)

lemma append_file_eq:
  assumes "files name = Some f" and "length f < 2 ^ 32"
  shows "append_file files name (g, length g) = Inr (of_nat (length f), (g @ f, length g + length f))"
  using assms copy_file_eq [of name f g] by (simp add: append_file_def unat_of_nat_u32)

text \<open>The image that a successful run writes.\<close>

definition header_words :: "nat \<Rightarrow> nat \<Rightarrow> Byte list" where
  "header_words ssz usz = size_word (of_nat ssz) @ size_word (of_nat usz) @ size_word 0x7E1A"

lemma build_image:
  assumes "files b = Some bf" "files s = Some sf" "files u = Some uf"
    and boot: "boot_file_ok bf" and sizes: "length sf < 2 ^ 32" "length uf < 2 ^ 32" "12 \<le> length sf"
  shows "build_main files [prog, b, s, u] = Inr (
    take 500 (boot_of bf) @ take 2 (size_word (image_paras (of_nat (length sf)) (of_nat (length uf)))) @
    drop 502 (boot_of bf) @ header_words (length sf) (length uf) @ drop 12 sf @ uf)"
proof -
  let ?bt = "boot_of bf"
  have lb: "length ?bt = 512" using boot by (simp add: boot_of_def boot_file_ok_def)
  have r: "minix_open files b = Inr (drop 32 bf)" "boot_sector (drop 32 bf) = Inr ?bt"
    using boot_accepted [of files b bf] assms(1) boot by simp_all
  define w where "w = take 2 (size_word (image_paras (of_nat (length sf)) (of_nat (length uf))))"
  have lw: "length w = 2" "length (size_word v) = 4" for v by (simp_all add: w_def size_word_def)
  have weq: "[ucast (im AND 0xff), ucast (drop_bit 8 im AND 0xff)] = take 2 (size_word im)" for im
    by (simp add: size_word_def)
  have app: "append_file files s (?bt, 512) = Inr (of_nat (length sf), (?bt @ sf, 512 + length sf))"
    "append_file files u (?bt @ sf, 512 + length sf) = Inr (of_nat (length uf), ((?bt @ sf) @ uf, 512 + length sf + length uf))"
    using append_file_eq [of files s sf ?bt] append_file_eq [of files u uf "?bt @ sf"] assms(2,3) sizes lb
    by simp_all
  have over: "out_write v (out_seek k out) = (x @ v @ z, k + length v)"
    if "fst out = x @ y @ z" "length x = k" "length v = length y" for v x y z k and out :: outfile
    using that by (simp add: out_seek_def out_write_over)
  define a c d e where acd: "a = take 4 sf" "c = take 4 (drop 4 sf)" "d = take 4 (drop 8 sf)" "e = drop 12 sf"
  have sf: "sf = a @ c @ d @ e"
  proof -
    have "drop 4 (drop 4 sf) = drop 8 sf" "drop 4 (drop 8 sf) = drop 12 sf" by simp_all
    then show ?thesis unfolding acd by (metis append_take_drop_id)
  qed
  have la: "length a = 4" "length c = 4" "length d = 4" using sizes(3) by (simp_all add: acd)
  define h where "h = take 500 ?bt @ w @ drop 502 ?bt"
  have lh: "length h = 512" using lw lb by (simp add: h_def)
  have bt: "?bt = take 500 ?bt @ take 2 (drop 500 ?bt) @ drop 502 ?bt"
  proof -
    have "drop 2 (drop 500 ?bt) = drop 502 ?bt" by simp
    then show ?thesis by (metis append_take_drop_id)
  qed
  let ?w1 = "size_word (of_nat (length sf))" and ?w2 = "size_word (of_nat (length uf))"
  have s1: "out_write w (out_seek 500 ((?bt @ sf) @ uf, 512 + length sf + length uf)) = (h @ a @ c @ d @ e @ uf, 502)"
    using over [of "((?bt @ sf) @ uf, 512 + length sf + length uf)" "take 500 ?bt" "take 2 (drop 500 ?bt)"
      "drop 502 ?bt @ sf @ uf" 500 w] bt lb lw sf by (simp add: h_def)
  have s2: "out_write ?w1 (out_seek 512 (h @ a @ c @ d @ e @ uf, 502)) = (h @ ?w1 @ c @ d @ e @ uf, 516)"
    using over [of "(h @ a @ c @ d @ e @ uf, 502)" h a "c @ d @ e @ uf" 512 ?w1] la lh lw by simp
  have s3: "out_write ?w2 (out_seek 516 (h @ ?w1 @ c @ d @ e @ uf, 516)) = (h @ ?w1 @ ?w2 @ d @ e @ uf, 520)"
    using over [of "(h @ ?w1 @ c @ d @ e @ uf, 516)" "h @ ?w1" c "d @ e @ uf" 516 ?w2] la lh lw by simp
  have s4: "out_write (size_word 0x7E1A) (out_seek 520 (h @ ?w1 @ ?w2 @ d @ e @ uf, 520)) =
      (h @ ?w1 @ ?w2 @ size_word 0x7E1A @ e @ uf, 524)"
    using over [of "(h @ ?w1 @ ?w2 @ d @ e @ uf, 520)" "h @ ?w1 @ ?w2" d "e @ uf" 520 "size_word 0x7E1A"] la lh lw by simp
  have first: "out_write ?bt ([], 0) = (?bt, 512)" using lb by (simp add: out_write_def)
  have "build_main files [prog, b, s, u] = Inr (h @ ?w1 @ ?w2 @ size_word 0x7E1A @ e @ uf)"
    using s1 s2 s3 s4 by (simp add: build_main_def Let_def r app first weq w_def)
  then show ?thesis by (simp add: h_def w_def header_words_def acd)
qed

end
