(* ===== verification/BuildTheorems.thy ===== *)
theory BuildTheorems
  imports BuildImage MainTheorems
begin

text \<open>
  The properties of the image builder: what it refuses, the sizes that the kernel reads back, and
  the way of the user program from its file to the memory of the first process.
\<close>

section \<open>The sizes in the image\<close>

lemma small_bits: "unat (w :: DWord) < 2 ^ k \<Longrightarrow> k \<le> n \<Longrightarrow> \<not> bit w n"
proof -
  assume "unat w < 2 ^ k" "k \<le> n"
  then have "unat w < 2 ^ n" by (meson less_le_trans one_le_numeral power_increasing)
  then have "unat w div 2 ^ n = 0" by simp
  then have "\<not> bit (unat w) n" by (simp add: bit_iff_odd)
  then show ?thesis by (simp add: bit_unsigned_iff)
qed

lemma size_word_bits:
  fixes w :: DWord
  assumes "unat w < 2 ^ 24"
  shows "ucast (ucast (w AND 0xff) :: Byte) OR push_bit 8 (ucast (ucast (drop_bit 8 w AND 0xff) :: Byte)) OR
    push_bit 16 (ucast (ucast (drop_bit 16 w AND 0xff) :: Byte)) = w"
proof (rule bit_word_eqI)
  fix n assume "n < LENGTH(32)"
  then have n: "n < 32" by simp
  have ff: "bit (0xff :: DWord) k \<longleftrightarrow> k < 8" if "k < 32" for k
    using bit_mask_iff [of 8 k, where 'a = "32 word"] that by (simp add: mask_numeral)
  show "bit (ucast (ucast (w AND 0xff) :: Byte) OR push_bit 8 (ucast (ucast (drop_bit 8 w AND 0xff) :: Byte)) OR
    push_bit 16 (ucast (ucast (drop_bit 16 w AND 0xff) :: Byte)) :: DWord) n = bit w n"
    using n ff small_bits [OF assms, of n]
    by (cases "n < 8"; cases "n < 16"; cases "n < 24") (auto simp: bit_simps)
qed

text \<open>A word whose bytes are those of a size, somewhere in memory.\<close>

lemma dword_at_size:
  assumes "unat w < 2 ^ 24" and "map mem [a, a + 1, a + 2, a + 3] = size_word w"
  shows "dword_at mem a = w"
  using assms(2) size_word_bits [OF assms(1)] by (simp add: dword_at_def size_word_def)

text \<open>The loader copies what follows the first sector to \<open>KERNEL_START\<close>.\<close>

definition loaded_image :: "Byte list \<Rightarrow> nat \<Rightarrow> Byte" where
  "loaded_image img a =
     (if KERNEL_START \<le> a \<and> a - KERNEL_START + 512 < length img
      then img ! (a - KERNEL_START + 512) else 0)"

lemma loaded_after:
  assumes "length h = 512"
  shows "loaded_image (h @ xs) (KERNEL_START + i) = (if i < length xs then xs ! i else 0)"
  using assms by (simp add: loaded_image_def nth_append)

lemma loaded_words:
  fixes xs :: "Byte list"
  assumes h: "length h = 512" and z: "ssz + usz < 2 ^ 24"
  defines "mem \<equiv> loaded_image (h @ header_words ssz usz @ xs)"
  shows "dword_at mem p_sys_size = of_nat ssz" "dword_at mem p_usr_size = of_nat usz"
    "dword_at mem p_rdtr = 0x7E1A"
proof -
  have l: "length (size_word v) = 4" for v by (simp add: size_word_def)
  have get: "map mem [KERNEL_START + k, KERNEL_START + k + 1, KERNEL_START + k + 2, KERNEL_START + k + 3] = w"
    if eq: "header_words ssz usz @ xs = x @ w @ y" and lx: "length x = k" and lw: "length w = 4" for x w y k
  proof -
    obtain w0 w1 w2 w3 where w: "w = [w0, w1, w2, w3]"
      using lw by (auto simp: numeral_eq_Suc length_Suc_conv)
    have "mem (KERNEL_START + (k + j)) = (x @ w @ y) ! (k + j)" if "j < 4" for j
      unfolding mem_def loaded_after [OF h] eq using that lx lw by simp
    from this [of 0] this [of 1] this [of 2] this [of 3] show ?thesis
      using lx by (simp add: w nth_append add.assoc)
  qed
  have "map mem [KERNEL_START + 0, KERNEL_START + 0 + 1, KERNEL_START + 0 + 2, KERNEL_START + 0 + 3] = size_word (of_nat ssz)"
    by (rule get [of "[]" _ "size_word (of_nat usz) @ size_word 0x7E1A @ xs"]) (simp_all add: header_words_def l)
  then show "dword_at mem p_sys_size = of_nat ssz"
    using z by (intro dword_at_size) (simp_all add: p_sys_size_def unat_of_nat_u32)
  have "map mem [KERNEL_START + 4, KERNEL_START + 4 + 1, KERNEL_START + 4 + 2, KERNEL_START + 4 + 3] = size_word (of_nat usz)"
    by (rule get [of "size_word (of_nat ssz)" _ "size_word 0x7E1A @ xs"]) (simp_all add: header_words_def l)
  then show "dword_at mem p_usr_size = of_nat usz"
    using z by (intro dword_at_size) (simp_all add: p_usr_size_def unat_of_nat_u32)
  have "map mem [KERNEL_START + 8, KERNEL_START + 8 + 1, KERNEL_START + 8 + 2, KERNEL_START + 8 + 3] = size_word 0x7E1A"
    by (rule get [of "size_word (of_nat ssz) @ size_word (of_nat usz)" _ xs]) (simp_all add: header_words_def l)
  then show "dword_at mem p_rdtr = 0x7E1A"
    by (intro dword_at_size) (simp_all add: p_rdtr_def)
qed

lemma loaded_user:
  assumes h: "length h = 512" and z: "length sf + length uf < 2 ^ 24" "12 \<le> length sf"
  shows "image_bytes (loaded_image (h @ header_words (length sf) (length uf) @ drop 12 sf @ uf)) (length uf) = uf"
proof -
  let ?xs = "header_words (length sf) (length uf) @ drop 12 sf @ uf"
  have lh: "length (header_words m n) = 12" for m n by (simp add: header_words_def size_word_def)
  have s: "unat (dword_at (loaded_image (h @ ?xs)) p_sys_size) = length sf"
    using loaded_words(1) [OF h z(1)] z(1) by (simp add: unat_of_nat_u32)
  have "loaded_image (h @ ?xs) (KERNEL_START + length sf + i) = uf ! i" if "i < length uf" for i
  proof -
    have "length (header_words (length sf) (length uf) @ drop 12 sf) = length sf" using lh z(2) by simp
    then have "?xs ! (length sf + i) = uf ! i" using that
      by (metis append.assoc nth_append_length_plus)
    then show ?thesis
      using loaded_after [OF h, of ?xs "length sf + i"] that lh z(2) by (simp add: add.assoc)
  qed
  then show ?thesis
    unfolding image_bytes_def s by (intro nth_equalityI) simp_all
qed

section \<open>Properties\<close>

lemma minix_accepts:
  assumes "minix_open files b = Inr rest" and "boot_sector rest = Inr buf"
  shows "\<exists>f. files b = Some f \<and> boot_file_ok f \<and> buf = boot_of f"
proof -
  from assms(1) obtain f where f: "files b = Some f" "32 \<le> length f" "take 8 f = minix_hdr"
    "hdr_word f 5 = 0" "hdr_word f 3 = 0" "hdr_word f 4 = 0" "hdr_word f 7 = 0" "rest = drop 32 f"
    by (auto simp: minix_open_def die_def MINIX_HEADER_LEN_def split: option.splits if_splits)
  moreover from assms(2) have "length rest = 512" "rest ! 510 = 0x55" "rest ! 511 = 0xaa"
    "buf = rest[508 := 0, 509 := 0]"
    by (auto simp: boot_sector_def die_def Let_def split: if_splits)
  ultimately show ?thesis by (intro exI [of _ f]) (simp add: boot_file_ok_def boot_of_def)
qed

lemma append_accepts:
  "append_file files name out = Inr r \<Longrightarrow> \<exists>f. files name = Some f"
  by (auto simp: append_file_def die_def split: option.splits)

text \<open>
  C40: The tool writes an image only when it got its three file names, the boot file has a Minix
  header without data, bss and symbols, exactly one sector of code and the boot flag, and the other
  two files exist.
\<close>

theorem build_checks:
  assumes "build_main files argv = Inr img"
  shows "length argv = 4 \<and> (\<exists>bf. files (argv ! 1) = Some bf \<and> boot_file_ok bf) \<and>
    files (argv ! 2) \<noteq> None \<and> files (argv ! 3) \<noteq> None"
proof -
  have l: "length argv = 4" using assms by (auto simp: build_main_def usage_def die_def split: if_splits)
  obtain rest where 1: "minix_open files (argv ! 1) = Inr rest"
    using assms l by (cases "minix_open files (argv ! 1)") (simp_all add: build_main_def)
  obtain buf where 2: "boot_sector rest = Inr buf"
    using assms l 1 by (cases "boot_sector rest") (simp_all add: build_main_def)
  obtain r where 3: "append_file files (argv ! 2) (out_write buf ([], 0)) = Inr r"
    using assms l 1 2 by (cases "append_file files (argv ! 2) (out_write buf ([], 0))") (simp_all add: build_main_def)
  obtain q where 4: "append_file files (argv ! 3) (snd r) = Inr q"
    using assms l 1 2 3 by (cases r; cases "append_file files (argv ! 3) (snd r)") (simp_all add: build_main_def)
  show ?thesis
    using l minix_accepts [OF 1 2] append_accepts [OF 3] append_accepts [OF 4] by auto
qed

text \<open>A boot file, a kernel of 20 bytes and a user program of four.\<close>

definition sample_boot :: "Byte list" where
  "sample_boot = minix_hdr @ replicate 24 0 @ replicate 510 0x90 @ [0x55, 0xaa]"

definition sample_files :: "string \<Rightarrow> Byte list option" where
  "sample_files = [''bootsect'' \<mapsto> sample_boot, ''system'' \<mapsto> replicate 20 1, ''user'' \<mapsto> [5, 6, 7, 8]]"

definition sample_argv :: "string list" where
  "sample_argv = [''build'', ''bootsect'', ''system'', ''user'']"

lemma sample_boot_ok: "boot_file_ok sample_boot"
proof -
  have "dword_at (\<lambda>a. sample_boot ! a) (4 * k) = 0" if "k \<in> {3, 4, 5, 7}" for k
    using that by (auto simp: dword_at_def sample_boot_def minix_hdr_def nth_append)
  then show ?thesis
    by (simp add: boot_file_ok_def hdr_word_def) (simp add: sample_boot_def minix_hdr_def nth_append)
qed

lemma sample_build: "\<exists>img. build_main sample_files sample_argv = Inr img"
  unfolding sample_argv_def
  using build_image [of sample_files "''bootsect''" sample_boot "''system''" "replicate 20 1" "''user''" "[5, 6, 7, 8]"]
    sample_boot_ok by (simp add: sample_files_def)

theorem build_checks_witness: "\<exists>bf. sample_files (sample_argv ! 1) = Some bf \<and> boot_file_ok bf"
  using sample_build build_checks [of sample_files sample_argv] by auto

text \<open>
  C16: From the files to the first process: when the builder writes an image and the loader copies
  what follows the boot sector to \<open>KERNEL_START\<close>, \<open>main\<close> finds the sizes there and ends in user
  mode with the bytes of the user program's file, all of them, at the start of user memory. The
  sizes must fit in 24 bits, as the header has no more, and the program in the user pages.
\<close>

theorem built_image_boots:
  assumes "symbols_ok y" and "fresh y (kern m)" and "length buff = 4096"
    and "gdt m = boot_gdt" and "length (idt m) = 256"
    and "files b = Some bf" and "files sn = Some sf" and "files un = Some uf" and "boot_file_ok bf"
    and "12 \<le> length sf" and "length sf + length uf < 2 ^ 24" and "length uf \<le> 114684"
    and "\<And>img. build_main files [prog, b, sn, un] = Inr img \<Longrightarrow> low m = loaded_image img"
  shows "\<exists>img m'. build_main files [prog, b, sn, un] = Inr img \<and>
    kernel_main buff m = Some m' \<and> user_mode m' \<and>
    first_process (enter_user (kern m')) \<and> user_bytes (kern m') 0x100000 (length uf) = uf"
proof -
  define h where "h = take 500 (boot_of bf) @
    take 2 (size_word (image_paras (of_nat (length sf)) (of_nat (length uf)))) @ drop 502 (boot_of bf)"
  let ?img = "h @ header_words (length sf) (length uf) @ drop 12 sf @ uf"
  have img: "build_main files [prog, b, sn, un] = Inr ?img"
    using build_image [of files b bf sn sf un uf prog] assms(6-11) by (simp add: h_def)
  have h: "length h = 512"
    using assms(9) by (simp add: h_def boot_of_def boot_file_ok_def size_word_def)
  have low: "low m = loaded_image ?img" by (rule assms(13) [OF img])
  have sz: "dword_at (low m) p_usr_size = of_nat (length uf)"
    unfolding low by (rule loaded_words(2) [OF h assms(11)])
  have "image_bytes (low m) (length uf) = uf"
    unfolding low by (rule loaded_user [OF h assms(11,10)])
  moreover have "\<exists>m'. kernel_main buff m = Some m' \<and>
    first_process (enter_user (kern m')) \<and>
    user_bytes (kern m') 0x100000 (length uf) = image_bytes (low m) (length uf) \<and>
    user_mode m' \<and> gates_ok m' \<and> tss_loaded m'"
    by (rule main_lemma) (rule assms(1-5) sz assms(12))+
  ultimately show ?thesis using img by auto
qed

theorem built_image_boots_witness:
  "\<exists>img m'. build_main sample_files sample_argv = Inr img \<and>
    kernel_main (replicate 4096 0) (sample_machine\<lparr>low := loaded_image img\<rparr>) = Some m' \<and>
    user_bytes (kern m') 0x100000 4 = [5, 6, 7, 8]"
proof -
  obtain img where img: "build_main sample_files sample_argv = Inr img" using sample_build by blast
  let ?m = "sample_machine\<lparr>low := loaded_image img\<rparr>"
  have m: "fresh sample_syms (kern ?m)" "gdt ?m = boot_gdt" "length (idt ?m) = 256"
    using fresh_loaded [of sample_syms] by (simp_all add: sample_machine_def sample_loaded_def)
  have f: "sample_files ''bootsect'' = Some sample_boot" "sample_files ''system'' = Some (replicate 20 1)"
    "sample_files ''user'' = Some [5, 6, 7, 8]" by (simp_all add: sample_files_def)
  have low: "\<And>i. build_main sample_files [''build'', ''bootsect'', ''system'', ''user''] = Inr i \<Longrightarrow>
      low ?m = loaded_image i"
    using img by (simp add: sample_argv_def)
  have "\<exists>img m'. build_main sample_files [''build'', ''bootsect'', ''system'', ''user''] = Inr img \<and>
    kernel_main (replicate 4096 0) ?m = Some m' \<and> user_mode m' \<and>
    first_process (enter_user (kern m')) \<and> user_bytes (kern m') 0x100000 (length [5, 6, 7, 8 :: Byte]) = [5, 6, 7, 8]"
    by (rule built_image_boots [where y = sample_syms and bf = sample_boot and sf = "replicate 20 1"])
      ((rule sample_syms_ok m f sample_boot_ok | erule low | simp)+)
  moreover have four: "length [5, 6, 7, 8 :: Byte] = 4" by simp
  ultimately show ?thesis using img unfolding four by (auto simp: sample_argv_def)
qed

end
