(* ===== verification/Quiet.thy ===== *)
theory Quiet
  imports EntryProps DeviceProps
begin

text \<open>
  What the operations that only move data leave alone, whatever their arguments: \<open>quiet\<close> relates the
  states before and after a step that changes no queue, no task switch data, no directory, no page
  table and no frame mark, and of the memory of processes only what the current address space maps.
  The lemmas are about every successful run, so they need no assumption on the caller's memory.
\<close>

section \<open>The frame\<close>

text \<open>The frames that the processor can reach in the current address space.\<close>

definition own_frames :: "kstate \<Rightarrow> nat set" where
  "own_frames s = {f. \<exists>va k. translate va s = Some (f, k)}"

lemma own_frames_same:
  assumes "syms s' = syms s" and "cr3 s' = cr3 s" and "dir_pages s' = dir_pages s"
    and "pagusr_table s' = pagusr_table s"
  shows "own_frames s' = own_frames s"
  unfolding own_frames_def translate_same [OF assms] ..

definition quiet :: "kstate \<Rightarrow> kstate \<Rightarrow> bool" where
  "quiet s s' \<longleftrightarrow>
     syms s' = syms s \<and> lists s' = lists s \<and> cur s' = cur s \<and> idle_task s' = idle_task s \<and>
     semaphores s' = semaphores s \<and> dir_pages s' = dir_pages s \<and>
     dir_references s' = dir_references s \<and> cr3 s' = cr3 s \<and> tss_esp0 s' = tss_esp0 s \<and>
     pagusr_table s' = pagusr_table s \<and> phys_mem s' = phys_mem s \<and>
     (\<forall>f. f \<notin> own_frames s \<longrightarrow> ram s' f = ram s f) \<and> (cb_ok (cb s) \<longrightarrow> cb_ok (cb s')) \<and>
     (\<forall>t. state (task_of s' t) = state (task_of s t) \<and>
          dir_pages_baseAddr (task_of s' t) = dir_pages_baseAddr (task_of s t) \<and>
          kernel_esp (task_of s' t) = kernel_esp (task_of s t)) \<and>
     (\<forall>t. t \<noteq> cur s \<longrightarrow> stack (tasks s' t) = stack (tasks s t))"

lemma quiet_refl [simp, intro]: "quiet s s"
  by (simp add: quiet_def)

lemma quiet_own: "quiet s s' \<Longrightarrow> own_frames s' = own_frames s"
  by (rule own_frames_same) (simp_all add: quiet_def)

lemma quiet_trans [trans]: "quiet s s1 \<Longrightarrow> quiet s1 s2 \<Longrightarrow> quiet s s2"
  using quiet_own [of s s1] by (simp add: quiet_def)

lemma quiet_fields [simp, intro]:
  "quiet s (s\<lparr>video := v\<rparr>)" "quiet s (s\<lparr>zeos_ticks := z\<rparr>)" "quiet s (s\<lparr>remaining_ticks := r\<rparr>)"
  "quiet s (s\<lparr>tsc_pos := k\<rparr>)" "cb_ok b \<Longrightarrow> quiet s (s\<lparr>cb := b\<rparr>)"
  "quiet s (charge u t s)" "quiet s (upd_stack (cur s) i w s)" "quiet s (upd_kb f s)"
  "quiet s (set_break pb s)" "quiet s (entered u' s)" "quiet s (called u' s)"
  by (simp_all add: quiet_def task_of_def [of "_\<lparr>video := _\<rparr>"]
      upd_kb_def set_break_def task_of_def [symmetric])

lemmas quiet_video = quiet_fields(1) and quiet_set_break = quiet_fields(9)

lemma quiet_printc [simp, intro]: "quiet s (printc c s)"
  by (simp add: quiet_def printc_def Let_def task_of_def)

lemma quiet_printc_xy [simp, intro]: "quiet s (printc_xy x y c s)"
  by (simp add: quiet_def printc_xy_def printc_def Let_def task_of_def)

lemma quiet_fold_printc [simp, intro]: "quiet s (fold printc cs s)"
  by (induction cs arbitrary: s) (auto intro: quiet_trans [OF quiet_printc])

section \<open>Copies\<close>

text \<open>A property that every write keeps is kept by the copies.\<close>

lemma copy_loop1_keeps:
  assumes "\<And>i b m m'. P m \<Longrightarrow> wr i b m = Some m' \<Longrightarrow> P m'"
    and "copy_loop1 rd wr i sz m = Some m'" and "P m"
  shows "P m'"
  using assms
proof (induction rd wr i sz m rule: copy_loop1.induct)
  case (1 rd wr i sz m)
  from 1(3) show ?case
    by (subst (asm) copy_loop1.simps)
      (use 1(1,2,4) in \<open>auto split: if_splits elim!: bind_eq_SomeE\<close>)
qed

lemma copy_loop4_keeps:
  assumes "\<And>i b m m'. P m \<Longrightarrow> wr i b m = Some m' \<Longrightarrow> P m'"
    and "copy_loop4 rd wr i sz m = Some (j, n, m')" and "P m"
  shows "P m'"
  using assms
proof (induction rd wr i sz m rule: copy_loop4.induct)
  case (1 rd wr i sz m)
  show ?case
  proof (cases "4 < sz")
    case True
    with 1(3) obtain b0 b1 b2 b3 m1 m2 m3 m4 where
      rd: "rd m i = Some b0" "rd m (i + 1) = Some b1" "rd m (i + 2) = Some b2" "rd m (i + 3) = Some b3"
      and wr: "wr i b0 m = Some m1" "wr (i + 1) b1 m1 = Some m2" "wr (i + 2) b2 m2 = Some m3"
        "wr (i + 3) b3 m3 = Some m4"
      and rec: "copy_loop4 rd wr (i + 4) (sz - 4) m4 = Some (j, n, m')"
      by (subst (asm) copy_loop4.simps) (auto elim!: bind_eq_SomeE)
    have "P m1" by (rule 1(2) [OF 1(4) wr(1)])
    then have "P m2" by (rule 1(2) [OF _ wr(2)])
    then have "P m3" by (rule 1(2) [OF _ wr(3)])
    then have "P m4" by (rule 1(2) [OF _ wr(4)])
    with 1(1) [OF True rd wr] 1(2) rec show ?thesis by blast
  next
    case False
    with 1(3,4) show ?thesis by (subst (asm) copy_loop4.simps) simp
  qed
qed

text \<open>Only user memory changes, and of it only what the current address space maps.\<close>

definition ram_only :: "kstate \<Rightarrow> kstate \<Rightarrow> bool" where
  "ram_only s s' \<longleftrightarrow> (\<exists>m. s' = s\<lparr>ram := m\<rparr> \<and> (\<forall>f. f \<notin> own_frames s \<longrightarrow> m f = ram s f))"

lemma ram_only_quiet [intro]: "ram_only s s' \<Longrightarrow> quiet s s'"
  by (auto simp: ram_only_def quiet_def)

lemma store_byte_ram:
  assumes "store_byte va b s = Some s'" and "ram_only r s"
  shows "ram_only r s'"
proof -
  obtain m where m: "s = r\<lparr>ram := m\<rparr>" "\<And>f. f \<notin> own_frames r \<Longrightarrow> m f = ram r f"
    using assms(2) by (auto simp: ram_only_def)
  obtain g k where g: "translate va s = Some (g, k)" "s' = s\<lparr>ram := (ram s)(g := (ram s g)(k := b))\<rparr>"
    using assms(1) by (auto simp: store_byte_def split: if_splits elim!: bind_eq_SomeE)
  then have "g \<in> own_frames r" unfolding own_frames_def by (auto simp: m(1))
  then show ?thesis unfolding ram_only_def g(2)
    by (intro exI [of _ "(ram s)(g := (ram s g)(k := b))"]) (auto simp: m)
qed

lemma store_at_ram: "ram_only r s \<Longrightarrow> store_at va i b s = Some s' \<Longrightarrow> ram_only r s'"
  by (simp add: store_at_def store_byte_ram)

lemma ram_only_refl [simp]: "ram_only s s"
  unfolding ram_only_def by (rule exI [of _ "ram s"]) simp

lemma copy_ram:
  assumes "copy_loop4 rd (store_at va) i n s = Some (j, k, s1)"
    and "copy_loop1 rd (store_at va) j k s1 = Some s'"
  shows "ram_only s s'"
proof -
  have "ram_only s s1"
    by (rule copy_loop4_keeps [where P = "ram_only s", OF store_at_ram assms(1)]) simp_all
  then show ?thesis
    by (rule copy_loop1_keeps [where P = "ram_only s", OF store_at_ram assms(2), rotated -1])
qed

lemma write_user_ram: "write_user bs va n s = Some (r, s') \<Longrightarrow> ram_only s s'"
  unfolding write_user_def copy_to_user_def by (auto elim!: bind_eq_SomeE intro: copy_ram)

lemma move_user_ram: "move_user src dst n s = Some s' \<Longrightarrow> ram_only s s'"
  unfolding move_user_def copy_data_def by (auto elim!: bind_eq_SomeE intro: copy_ram)

section \<open>Page tables\<close>

definition table_only :: "kstate \<Rightarrow> kstate \<Rightarrow> bool" where
  "table_only s s' \<longleftrightarrow> (\<exists>t. s' = s\<lparr>pagusr_table := t\<rparr>)"

lemma table_only_refl [simp]: "table_only s s"
  unfolding table_only_def by (rule exI [of _ "pagusr_table s"]) simp

lemma table_only_trans: "table_only s s1 \<Longrightarrow> table_only s1 s2 \<Longrightarrow> table_only s s2"
  by (auto simp: table_only_def)

lemma set_ss_pag_table: "set_ss_pag PT p f s = Some s' \<Longrightarrow> table_only s s'"
  by (auto simp: set_ss_pag_def upd_pte_def table_only_def split: if_splits elim!: bind_eq_SomeE)

lemma del_ss_pag_table: "del_ss_pag PT p s = Some s' \<Longrightarrow> table_only s s'"
  by (auto simp: del_ss_pag_def upd_pte_def table_only_def split: if_splits elim!: bind_eq_SomeE)

lemma share_pages_table: "share_pages cpt fpt ps s = Some s' \<Longrightarrow> table_only s s'"
  by (induction ps arbitrary: s)
    (auto elim!: bind_eq_SomeE intro: table_only_trans set_ss_pag_table)

lemma map_pages_table: "map_pages PT pfs s = Some s' \<Longrightarrow> table_only s s'"
  by (induction PT pfs s rule: map_pages.induct)
    (auto elim!: bind_eq_SomeE intro: table_only_trans set_ss_pag_table)

section \<open>System calls that only move data\<close>

text \<open>\<open>sys_sbrk\<close> changes only the frame map, the page tables and the break.\<close>

lemma sys_sbrk_maps:
  assumes "sys_sbrk n s = Some (r, s')"
  shows "\<exists>p t. s' = s\<lparr>phys_mem := p, pagusr_table := t\<rparr> \<or> (\<exists>pb. s' = set_break pb (s\<lparr>phys_mem := p, pagusr_table := t\<rparr>))"
proof -
  have same: "s\<lparr>phys_mem := p\<rparr> = s\<lparr>phys_mem := p, pagusr_table := pagusr_table s\<rparr>" for p by simp
  have mp: "\<exists>t. s1 = s\<lparr>phys_mem := p, pagusr_table := t\<rparr>"
    if "map_pages PT pfs (s\<lparr>phys_mem := p\<rparr>) = Some s1" for PT pfs p s1
    using map_pages_table [OF that] by (auto simp: table_only_def)
  have id: "s = s\<lparr>phys_mem := phys_mem s, pagusr_table := pagusr_table s\<rparr>" by simp
  consider "s' = s" | p where "s' = s\<lparr>phys_mem := p\<rparr>" | pb where "s' = set_break pb s"
    | p s1 PT pfs pb where "map_pages PT pfs (s\<lparr>phys_mem := p\<rparr>) = Some s1" "s' = set_break pb s1"
    using assms unfolding sys_sbrk_def Let_def
    by (auto split: if_splits option.splits prod.splits elim!: bind_eq_SomeE)
  then show ?thesis
  proof cases
    case 1
    then show ?thesis using id by metis
  next
    case 2
    then show ?thesis using same by metis
  next
    case 3
    then show ?thesis using id by metis
  next
    case 4
    then show ?thesis using mp [OF 4(1)] by metis
  qed
qed

lemma sys_get_stats_quiet: "sys_get_stats pid st s = Some (r, s') \<Longrightarrow> quiet s s'"
  unfolding sys_get_stats_def
  by (auto split: if_splits option.splits elim!: bind_eq_SomeE dest: write_user_ram)

lemma write_chunk_quiet: "write_chunk buf n a s = Some (r, b, s') \<Longrightarrow> quiet s s'"
  by (auto simp: write_chunk_def sys_write_console_def split: if_splits elim!: bind_eq_SomeE)

lemma write_loop_quiet: "write_loop buf n ret a s = Some (m, r, b, s') \<Longrightarrow> quiet s s'"
proof (induction buf n ret a s rule: write_loop.induct)
  case (1 buf n ret a s)
  show ?case
  proof (cases "int BUFFER_SIZE < n \<and> ret \<noteq> 0")
    case True
    with "1.prems" obtain q b1 s1 where w: "write_chunk buf (int BUFFER_SIZE) a s = Some (q, b1, s1)"
      "write_loop buf (n - int BUFFER_SIZE) q b1 s1 = Some (m, r, b, s')"
      by (subst (asm) write_loop.simps) (auto elim!: bind_eq_SomeE)
    from "1.IH" [OF True w(1) refl refl w(2)] show ?thesis
      by (rule quiet_trans [OF write_chunk_quiet [OF w(1)]])
  qed (use "1.prems" in \<open>auto simp: write_loop.simps\<close>)
qed

lemma sys_write_quiet: "sys_write fd buf n s = Some (r, s') \<Longrightarrow> quiet s s'"
  by (auto simp: sys_write_def Let_def split: if_splits elim!: bind_eq_SomeE
      intro: quiet_trans dest: write_chunk_quiet write_loop_quiet)

section \<open>Reading\<close>

lemma read_buf_ok:
  assumes "circular_buf_read b = Some (r, k, b')" and "cb_ok b"
  shows "cb_ok b'"
  using assms read_empty [of b] read_first [of b] by (cases "contents b") auto

lemma take_key_quiet:
  assumes "circular_buf_read (cb s) = Some (r, k, b)" and "write_user bs va n (s\<lparr>cb := b\<rparr>) = Some (q, s')"
  shows "quiet s s'"
proof -
  have "quiet s (s\<lparr>cb := b\<rparr>)" using read_buf_ok [OF assms(1)] by (simp add: quiet_def)
  also have "quiet (s\<lparr>cb := b\<rparr>) s'" by (rule ram_only_quiet [OF write_user_ram [OF assms(2)]])
  finally show ?thesis .
qed

lemma read_keys_quiet: "read_keys n buf i key s = Some s' \<Longrightarrow> quiet s s'"
  by (induction n arbitrary: i key s)
    (auto elim!: bind_eq_SomeE intro: quiet_trans dest: take_key_quiet)

lemma drain_keys_quiet: "drain_keys buf i key s = Some s' \<Longrightarrow> quiet s s'"
proof (rule drain_keys.raw_induct [where P = "\<lambda>buf i key s s'. quiet s s'"], goal_cases)
  case (1 rec buf i key s s')
  then show ?case
    by (auto split: if_splits elim!: bind_eq_SomeE intro: quiet_trans dest: take_key_quiet)
qed

lemma count_read_quiet: "count_read n s = Some s' \<Longrightarrow> quiet s s'"
  by (auto simp: count_read_def elim!: bind_eq_SomeE)

text \<open>A turn of the reading loop ends with the data moved, or gives up the processor after that.\<close>

lemma read_turn_quiet:
  assumes "read_turn buf n s = Some r"
  shows "(\<exists>s1. r = Inl s1 \<and> quiet s s1) \<or>
    (\<exists>s1 s2. r = Inr s2 \<and> quiet s s1 \<and> yield_to Keyboardqueue (In_read buf n) s1 = Some s2)"
proof -
  have 1: "quiet s s2" if "count_read k s = Some s1" "read_keys m buf 0 None s1 = Some s2" for k m s1 s2
    using quiet_trans [OF count_read_quiet [OF that(1)] read_keys_quiet [OF that(2)]] .
  have 2: "quiet s s2" if "count_read k s = Some s1" "drain_keys buf 0 None s1 = Some s2" for k s1 s2
    using quiet_trans [OF count_read_quiet [OF that(1)] drain_keys_quiet [OF that(2)]] .
  show ?thesis
    using assms 1 2 unfolding read_turn_def
    by (elim bind_eq_SomeE) (fastforce split: if_splits elim!: bind_eq_SomeE)
qed

end
