(* ===== verification/KernelInv.thy ===== *)
theory KernelInv
  imports Quiet BootProps
begin

text \<open>
  The invariant of the whole kernel. Besides \<open>sched_ok\<close> it says that the head of a semaphore's queue
  is a list or was never touched, that every task that is not free has a directory and the reference
  counts are the numbers of such tasks, that the processor runs in the directory and on the kernel
  stack of the current task, and that every other task that is not free can be switched to. It also
  carries a set \<open>P\<close> of tasks that have a place, that is, wait in a queue, run, or are the idle task.
  The lemmas are what the operations do to it.
\<close>

section \<open>The invariant\<close>

definition live :: "queue_map \<Rightarrow> nat set" where
  "live qs = {t. t < NR_TASKS \<and> (\<forall>fs. qs Freequeue = Some fs \<longrightarrow> t \<notin> set fs)}"

text \<open>
  The queues there are. A semaphore that was never initialised has none: its head has no links, and
  its counter is not positive. A destroyed one keeps its queue, whoever waits in it.
\<close>

definition heads_ok :: "kstate \<Rightarrow> queue_map \<Rightarrow> bool" where
  "heads_ok s qs \<longleftrightarrow> qs Blockedqueue = Some [] \<and>
     (\<forall>i \<ge> NR_SEMAPHORES. qs (SemQueue i) = None) \<and>
     (\<forall>i < NR_SEMAPHORES. qs (SemQueue i) = None \<longrightarrow>
        unlinked (lists s) (SemQueue i) \<and> counter (semaphores s i) \<le> 0)"

definition spaces_ok :: "kstate \<Rightarrow> queue_map \<Rightarrow> bool" where
  "spaces_ok s qs \<longleftrightarrow> paging_ok s \<and> (\<forall>t \<in> live qs. \<exists>i. space s t i) \<and>
     (\<forall>i < NR_TASKS. dir_references s i = int (card {t \<in> live qs. space s t i}))"

text \<open>The places in the kernel at which a task can stop.\<close>

definition cont_ok :: "kstate \<Rightarrow> nat \<Rightarrow> kcont \<Rightarrow> bool" where
  "cont_ok s t k \<longleftrightarrow>
     (case k of
        In_sem_wait n \<Rightarrow> 0 \<le> n \<and> n < int NR_SEMAPHORES \<and> idle_task s \<noteq> Some t
      | In_read buf n \<Rightarrow> idle_task s \<noteq> Some t
      | In_clock \<Rightarrow> True
      | In_exit \<Rightarrow> False)"

definition resumable :: "kstate \<Rightarrow> nat \<Rightarrow> bool" where
  "resumable s t \<longleftrightarrow>
     (case kernel_esp (task_of s t) of
        Frames k \<Rightarrow> cont_ok s t k
      | Esp a \<Rightarrow>
          a = stack_addr (syms s) t SLOT_ebp \<and> stack (tasks s t) SLOT_ret = ret_from_fork_at (syms s) \<and>
            stack (tasks s t) 1007 = syscall_ret_at (syms s) \<and> idle_task s \<noteq> Some t \<or>
          a = stack_addr (syms s) t 1022 \<and> stack (tasks s t) 1023 = cpu_idle_at (syms s) \<and>
            idle_task s = Some t)"

definition placed :: "kstate \<Rightarrow> queue_map \<Rightarrow> nat set" where
  "placed s qs = queued qs \<union> {cur s} \<union> set_option (idle_task s)"

definition kernel_inv :: "nat set \<Rightarrow> kstate \<Rightarrow> queue_map \<Rightarrow> bool" where
  "kernel_inv P s qs \<longleftrightarrow> sched_ok s qs \<and> cb_ok (cb s) \<and> heads_ok s qs \<and> spaces_ok s qs \<and>
     P \<subseteq> placed s qs \<and>
     cr3 s = get_DIR (cur s) s \<and> tss_esp0 s = KERNEL_ESP (syms s) (cur s) \<and>
     (\<forall>t \<in> live qs. t \<noteq> cur s \<longrightarrow> resumable s t)"

lemma kernel_invD:
  assumes "kernel_inv P s qs"
  shows "sched_ok s qs" "cb_ok (cb s)" "heads_ok s qs" "spaces_ok s qs" "paging_ok s"
    "P \<subseteq> placed s qs"
    "cr3 s = get_DIR (cur s) s" "tss_esp0 s = KERNEL_ESP (syms s) (cur s)"
    "t \<in> live qs \<Longrightarrow> t \<noteq> cur s \<Longrightarrow> resumable s t"
  using assms by (auto simp: kernel_inv_def spaces_ok_def)

lemma live_iff: "qs Freequeue = Some fs \<Longrightarrow> t \<in> live qs \<longleftrightarrow> t < 10 \<and> t \<notin> set fs"
  by (simp add: live_def)

lemma finite_live [simp]: "finite (live qs)"
  by (rule finite_subset [of _ "{..<10}"]) (auto simp: live_def)

lemma live_after_next [simp]: "live (after_next qs) = live qs"
  by (simp add: live_def)

lemma live_upd_other [simp]: "q \<noteq> Freequeue \<Longrightarrow> live (qs(q \<mapsto> xs)) = live qs"
  by (simp add: live_def)

lemma cur_live: "sched_ok s qs \<Longrightarrow> cur s \<in> live qs"
  using sched_okD(3,5,7) [of s qs] queued_member [of qs Freequeue _ "cur s"] by (auto simp: live_iff)

lemma heads_ok_after_next: "heads_ok s (after_next qs) = heads_ok s qs"
  by (simp add: heads_ok_def)

lemma heads_ok_cong:
  assumes "heads_ok s qs" and "semaphores s' = semaphores s"
    and "\<And>i. unlinked (lists s) (SemQueue i) \<Longrightarrow> unlinked (lists s') (SemQueue i)"
    and "\<And>i. qs' (SemQueue i) = None \<longleftrightarrow> qs (SemQueue i) = None" and "qs' Blockedqueue = qs Blockedqueue"
  shows "heads_ok s' qs'"
  using assms by (simp add: heads_ok_def)

lemma space_unique: "space s t i \<Longrightarrow> space s t j \<Longrightarrow> i = j"
  by (auto simp: space_def dest: dir_addr_inj)

text \<open>Data operations keep it.\<close>

lemma resumable_cong:
  assumes "syms s' = syms s" and "idle_task s' = idle_task s"
    and "kernel_esp (task_of s' t) = kernel_esp (task_of s t)" and "stack (tasks s' t) = stack (tasks s t)"
  shows "resumable s' t = resumable s t"
  unfolding resumable_def cont_ok_def assms ..

lemma spaces_ok_cong:
  assumes "syms s' = syms s" and "dir_pages s' = dir_pages s" and "dir_references s' = dir_references s"
    and "\<And>t. dir_pages_baseAddr (task_of s' t) = dir_pages_baseAddr (task_of s t)"
    and "live qs' = live qs"
  shows "spaces_ok s' qs' = spaces_ok s qs"
  using assms by (simp add: spaces_ok_def paging_ok_def space_def)

lemma sched_ok_quiet: "quiet s s' \<Longrightarrow> sched_ok s qs \<Longrightarrow> sched_ok s' qs"
  by (simp add: sched_ok_def quiet_def)

lemma kernel_inv_quiet:
  assumes "quiet s s'" and "kernel_inv P s qs"
  shows "kernel_inv P s' qs"
proof -
  note q = assms(1) [unfolded quiet_def]
  have "spaces_ok s' qs = spaces_ok s qs" by (rule spaces_ok_cong) (use q in simp_all)
  moreover have "resumable s' t = resumable s t" if "t \<noteq> cur s" for t
    by (rule resumable_cong) (use q that in simp_all)
  ultimately show ?thesis
    using assms(2) q sched_ok_quiet [OF assms(1)]
    by (simp add: kernel_inv_def heads_ok_def placed_def get_DIR_def)
qed

text \<open>The invariant does not look at page tables and frame marks.\<close>

lemma kernel_inv_maps:
  assumes "kernel_inv P s qs"
  shows "kernel_inv P (s\<lparr>phys_mem := pm, pagusr_table := pt\<rparr>) qs" (is "kernel_inv P ?s qs")
proof -
  have "spaces_ok ?s qs = spaces_ok s qs" by (rule spaces_ok_cong) simp_all
  moreover have "resumable ?s t = resumable s t" for t by (rule resumable_cong) simp_all
  moreover have "sched_ok ?s qs = sched_ok s qs" by (simp add: sched_ok_def)
  ultimately show ?thesis using assms by (simp add: kernel_inv_def heads_ok_def placed_def get_DIR_def)
qed

lemma kernel_inv_sbrk:
  assumes "kernel_inv P s qs" and "sys_sbrk n s = Some (r, s')"
  shows "kernel_inv P s' qs"
proof -
  obtain p t where "s' = s\<lparr>phys_mem := p, pagusr_table := t\<rparr> \<or>
      (\<exists>pb. s' = set_break pb (s\<lparr>phys_mem := p, pagusr_table := t\<rparr>))"
    using sys_sbrk_maps [OF assms(2)] by blast
  with kernel_inv_maps [OF assms(1)] kernel_inv_quiet [OF quiet_set_break] show ?thesis by metis
qed

section \<open>Switching to another task\<close>

lemma sched_next_cases:
  assumes "sched_next_rr k s = Some s'"
  obtains n h where "s' = inner_task_switch k n (charge ready_ticks_update (cur s)
      (charge system_ticks_update (cur s) ((set_state n ST_RUN (s\<lparr>lists := h\<rparr>))
        \<lparr>remaining_ticks := get_quantum n (set_state n ST_RUN (s\<lparr>lists := h\<rparr>))\<rparr>)))"
proof -
  obtain e where e: "list_empty (Some Readyqueue) (lists s) = Some e"
    using assms by (auto simp: sched_next_rr_def elim!: bind_eq_SomeE)
  show ?thesis
  proof (cases e)
    case True
    have "s\<lparr>lists := lists s\<rparr> = s" by simp
    with True assms e that [of _ "lists s"] show ?thesis
      by (auto simp: sched_next_rr_def task_switch_def Let_def elim!: bind_eq_SomeE)
  next
    case False
    with assms e that show ?thesis
      by (auto simp: sched_next_rr_def task_switch_def Let_def elim!: bind_eq_SomeE)
  qed
qed

lemma sched_next_facts:
  assumes "sched_next_rr k s = Some s'"
  shows "sched_frame s s' \<and> tss_esp0 s' = KERNEL_ESP (syms s) (cur s') \<and>
    cr3 s' = (if get_DIR_pos (get_DIR (cur s') s) s \<noteq> get_DIR_pos (get_DIR (cur s) s) s
      then get_DIR (cur s') s else cr3 s) \<and>
    (\<forall>t. kernel_esp (task_of s' t) = (if t = cur s then Frames k else kernel_esp (task_of s t)))"
proof -
  obtain n h where s': "s' = inner_task_switch k n (charge ready_ticks_update (cur s)
      (charge system_ticks_update (cur s) ((set_state n ST_RUN (s\<lparr>lists := h\<rparr>))
        \<lparr>remaining_ticks := get_quantum n (set_state n ST_RUN (s\<lparr>lists := h\<rparr>))\<rparr>)))"
    by (rule sched_next_cases [OF assms])
  define r where "r = get_quantum n (set_state n ST_RUN (s\<lparr>lists := h\<rparr>))"
  define s3 where "s3 = charge ready_ticks_update (cur s)
      (charge system_ticks_update (cur s) ((set_state n ST_RUN (s\<lparr>lists := h\<rparr>))\<lparr>remaining_ticks := r\<rparr>))"
  have s3: "sched_frame s s3" "cur s3 = cur s" "cr3 s3 = cr3 s"
    "kernel_esp (task_of s3 t) = kernel_esp (task_of s t)" for t
    by (simp_all add: s3_def sched_frame_def)
  have "s' = inner_task_switch k n s3" by (simp add: s' s3_def r_def)
  moreover have "get_DIR t s3 = get_DIR t s" "get_DIR_pos d s3 = get_DIR_pos d s" for t d
    using s3(1) by (simp_all add: sched_frame_def get_DIR_def get_DIR_pos_def)
  moreover have "cr3 (inner_task_switch k n s3) = (if get_DIR_pos (get_DIR n s3) s3 \<noteq>
      get_DIR_pos (get_DIR (cur s3) s3) s3 then get_DIR n s3 else cr3 s3)"
    by (simp add: inner_task_switch_def Let_def get_DIR_def get_DIR_pos_def)
  moreover have "sched_frame s (inner_task_switch k n s3)"
    by (rule sched_frame_trans [OF s3(1) sched_frame_switch])
  moreover have "syms s3 = syms s" using s3(1) by (simp add: sched_frame_def)
  ultimately show ?thesis using s3 by simp
qed

lemma update_process_facts:
  assumes "update_process_state_rr t d s = Some s'"
  shows "sched_frame s s' \<and> cur s' = cur s \<and> cr3 s' = cr3 s \<and> tss_esp0 s' = tss_esp0 s \<and>
    (\<forall>r. kernel_esp (task_of s' r) = kernel_esp (task_of s r))"
  using assms
  by (auto simp: update_process_state_rr_def sched_frame_def Let_def split: if_splits elim!: bind_eq_SomeE)

text \<open>Neither of the two touches a head that has no links.\<close>

lemma update_process_unlinked_kept:
  assumes "update_process_state_rr t (Some d) s = Some s'" and "unlinked (lists s) (SemQueue i)"
    and "d \<noteq> SemQueue i"
  shows "unlinked (lists s') (SemQueue i)"
proof -
  have "\<exists>g. (g = lists s \<or> list_del (Some (TaskNode t)) (lists s) = Some g) \<and>
    list_add_tail (Some (TaskNode t)) (Some d) g = Some (lists s')"
  proof (cases "state (task_of s t) = ST_RUN")
    case True
    with assms(1) have "list_add_tail (Some (TaskNode t)) (Some d) (lists s) = Some (lists s')"
      by (auto simp: update_process_state_rr_def Let_def split: if_splits elim!: bind_eq_SomeE)
    then show ?thesis by blast
  next
    case False
    with assms(1) obtain g where "list_del (Some (TaskNode t)) (lists s) = Some g"
      "list_add_tail (Some (TaskNode t)) (Some d) g = Some (lists s')"
      by (auto simp: update_process_state_rr_def Let_def split: if_splits elim!: bind_eq_SomeE)
    then show ?thesis by blast
  qed
  then obtain g where g: "g = lists s \<or> list_del (Some (TaskNode t)) (lists s) = Some g"
    and h: "list_add_tail (Some (TaskNode t)) (Some d) g = Some (lists s')" by blast
  from g have "unlinked g (SemQueue i)"
    using assms(2) unlinked_del [of "TaskNode t" "lists s" g "SemQueue i"] by auto
  from unlinked_add(2) [OF h this] assms(3) show ?thesis by simp
qed

lemma sched_next_unlinked_kept:
  assumes "sched_next_rr k s = Some s'" and "unlinked (lists s) (SemQueue i)"
  shows "unlinked (lists s') (SemQueue i)"
proof -
  obtain e where e: "list_empty (Some Readyqueue) (lists s) = Some e"
    using assms by (auto simp: sched_next_rr_def elim!: bind_eq_SomeE)
  have node: "list_head_to_task_struct nx = Some t \<Longrightarrow> nx = Some (TaskNode t)" for nx t
    by (auto simp: list_head_to_task_struct_def split: option.splits lnode.splits)
  show ?thesis
  proof (cases e)
    case True
    with assms(1) e have "lists s' = lists s"
      by (auto simp: sched_next_rr_def task_switch_def Let_def elim!: bind_eq_SomeE)
    with assms(2) show ?thesis by simp
  next
    case False
    with assms(1) e obtain nx t h where "list_del nx (lists s) = Some h" "list_head_to_task_struct nx = Some t" "lists s' = h"
      by (auto simp: sched_next_rr_def task_switch_def Let_def elim!: bind_eq_SomeE)
    with node [of nx t] unlinked_del [of "TaskNode t" "lists s" h "SemQueue i"] assms(2) show ?thesis by simp
  qed
qed

lemma queued_after_next_cover:
  assumes "qs Readyqueue = Some ts"
  shows "queued qs \<subseteq> queued (after_next qs) \<union> {next_of s qs}"
proof
  fix x assume "x \<in> queued qs"
  then obtain q xs where x: "qs q = Some xs" "x \<in> set xs" by (auto simp: queued_def ran_def)
  show "x \<in> queued (after_next qs) \<union> {next_of s qs}"
  proof (cases "q = Readyqueue \<and> hd xs = x")
    case True
    with x show ?thesis by (cases xs) (auto simp: next_of_def)
  next
    case False
    then have "\<exists>ys. after_next qs q = Some ys \<and> x \<in> set ys"
      using x by (cases "q = Readyqueue"; cases xs) (auto simp: after_next_ready)
    then show ?thesis using queued_member by blast
  qed
qed

text \<open>What holds when the current task was put away and the scheduler is about to choose.\<close>

definition parked :: "nat set \<Rightarrow> kstate \<Rightarrow> queue_map \<Rightarrow> bool" where
  "parked P s qs \<longleftrightarrow> cb_ok (cb s) \<and> heads_ok s qs \<and> spaces_ok s qs \<and>
     P \<subseteq> queued qs \<union> set_option (idle_task s) \<and> qs Readyqueue \<noteq> None \<and>
     cr3 s = get_DIR (cur s) s \<and> (\<exists>i. space s (cur s) i) \<and>
     (\<forall>t \<in> live qs. t \<noteq> cur s \<longrightarrow> resumable s t)"

lemma switched:
  assumes pk: "parked P s qs" and k: "cur s \<in> live qs \<Longrightarrow> cont_ok s (cur s) k"
    and run: "sched_next_rr k s = Some s'" and ok: "sched_ok s' (after_next qs)"
    and nx: "cur s' = next_of s qs"
  shows "kernel_inv P s' (after_next qs) \<and> resumable s' (cur s')"
proof -
  note f = sched_next_facts [OF run]
  have fr: "syms s' = syms s" "idle_task s' = idle_task s" "semaphores s' = semaphores s" "cb s' = cb s"
    "dir_pages s' = dir_pages s" "dir_references s' = dir_references s"
    "dir_pages_baseAddr (task_of s' t) = dir_pages_baseAddr (task_of s t)"
    "stack (tasks s' t) = stack (tasks s t)"
    "kernel_esp (task_of s' t) = (if t = cur s then Frames k else kernel_esp (task_of s t))" for t
    using f by (simp_all add: sched_frame_def)
  have live: "cur s' \<in> live qs" using cur_live [OF ok] by simp
  have dirs: "space s' t i = space s t i" for t i using fr by (simp add: space_def)
  have res: "resumable s' t" if t: "t \<in> live qs" for t
  proof (cases "t = cur s")
    case True
    with k t fr show ?thesis by (simp add: resumable_def cont_ok_def split: kcont.splits)
  next
    case False
    have "resumable s' t = resumable s t" by (rule resumable_cong) (use fr False in simp_all)
    with pk t False show ?thesis by (simp add: parked_def)
  qed
  obtain i j where sp: "space s (cur s) i" "space s (cur s') j"
    using pk live unfolding parked_def spaces_ok_def by blast
  have "cr3 s' = get_DIR (cur s') s'"
    using f get_DIR_pos_space [OF sp(1)] get_DIR_pos_space [OF sp(2)] sp pk fr
    by (auto simp: parked_def get_DIR_def space_def)
  moreover have "spaces_ok s' (after_next qs) = spaces_ok s qs"
    by (rule spaces_ok_cong) (use fr in simp_all)
  moreover have "P \<subseteq> placed s' (after_next qs)"
    using pk queued_after_next_cover [of qs] fr unfolding parked_def placed_def nx by fastforce
  moreover have "heads_ok s' (after_next qs)"
    by (rule heads_ok_cong [of s qs]) (use pk fr sched_next_unlinked_kept [OF run] in \<open>simp_all add: parked_def\<close>)
  ultimately show ?thesis
    using ok pk f fr res live by (simp add: kernel_inv_def parked_def)
qed

end
