(* ===== verification/KernelOps.thy ===== *)
theory KernelOps
  imports KernelInv
begin

text \<open>
  The operations keep the invariant of the kernel, whenever they return: the clock tick, the key
  press, the semaphores, reading, and the creation and termination of processes.
\<close>

text \<open>What an operation leaves: the invariant, and a current task that can go on when it switched.\<close>

definition after_ok :: "nat set \<Rightarrow> 'a outcome \<Rightarrow> kstate \<Rightarrow> bool" where
  "after_ok P r s \<longleftrightarrow> (\<exists>qs. kernel_inv P s qs) \<and> (r = Switched \<longrightarrow> resumable s (cur s))"

lemma after_ok_Return: "kernel_inv P s qs \<Longrightarrow> after_ok P (Return v) s"
  by (auto simp: after_ok_def)

lemma after_ok_Switched: "kernel_inv P s qs \<and> resumable s (cur s) \<Longrightarrow> after_ok P Switched s"
  by (auto simp: after_ok_def)

lemma queued_subI:
  assumes "\<And>q xs x. qs q = Some xs \<Longrightarrow> x \<in> set xs \<Longrightarrow> \<exists>r ys. qs' r = Some ys \<and> x \<in> set ys"
  shows "queued qs \<subseteq> queued qs'"
proof
  fix x assume "x \<in> queued qs"
  then obtain q xs where "qs q = Some xs" "x \<in> set xs" by (auto simp: queued_def ran_def)
  from assms [OF this] show "x \<in> queued qs'" using queued_member by metis
qed

section \<open>Giving up the processor\<close>

lemma yield_inv:
  assumes inv: "kernel_inv P s qs" and d: "qs d = Some xs" "d \<noteq> Freequeue" and nb: "d \<noteq> Blockedqueue"
    and busy: "d \<noteq> Readyqueue \<Longrightarrow> idle_task s \<noteq> Some (cur s)"
    and k: "cont_ok s (cur s) k"
  shows "\<exists>s'. yield_to d k s = Some s' \<and> after_ok P Switched s'"
proof -
  note i = kernel_invD [OF inv]
  define qs1 where "qs1 = qs(d \<mapsto> xs @ [cur s])"
  obtain s' where s': "yield_to d k s = Some s'" "sched_ok s' (after_next qs1)" "cur s' = next_of s qs1"
    using yield_to_spec [OF i(1) d busy, of k] unfolding qs1_def by blast
  then obtain s1 where s1: "update_process_state_rr (cur s) (Some d) s = Some s1"
    "sched_next_rr k s1 = Some s'" by (auto simp: yield_to_def elim!: bind_eq_SomeE)
  have f: "syms s1 = syms s" "idle_task s1 = idle_task s" "semaphores s1 = semaphores s"
    "cb s1 = cb s" "dir_pages s1 = dir_pages s" "dir_references s1 = dir_references s"
    "dir_pages_baseAddr (task_of s1 t) = dir_pages_baseAddr (task_of s t)"
    "stack (tasks s1 t) = stack (tasks s t)" "cur s1 = cur s" "cr3 s1 = cr3 s"
    "kernel_esp (task_of s1 t) = kernel_esp (task_of s t)" for t
    using update_process_facts [OF s1(1)] by (simp_all add: sched_frame_def)
  have live: "live qs1 = live qs" using d(2) by (simp add: qs1_def)
  have "spaces_ok s1 qs1 = spaces_ok s qs" by (rule spaces_ok_cong) (use f live in simp_all)
  moreover have "resumable s1 t = resumable s t" for t by (rule resumable_cong) (use f in simp_all)
  moreover have "heads_ok s1 qs1"
    unfolding heads_ok_def
  proof (intro conjI allI impI)
    show "qs1 Blockedqueue = Some []" using i(3) nb by (simp add: heads_ok_def qs1_def)
    show "qs1 (SemQueue j) = None" if "NR_SEMAPHORES \<le> j" for j
      using i(3) d(1) that by (auto simp: heads_ok_def qs1_def)
    fix j assume j: "j < NR_SEMAPHORES" "qs1 (SemQueue j) = None"
    then have "d \<noteq> SemQueue j" "qs (SemQueue j) = None" by (auto simp: qs1_def split: if_splits)
    then show "unlinked (lists s1) (SemQueue j)" "counter (semaphores s1 j) \<le> 0"
      using i(3) j(1) update_process_unlinked_kept [OF s1(1)] by (auto simp: heads_ok_def f(3))
  qed
  moreover have "queued qs \<union> {cur s} \<subseteq> queued qs1"
  proof -
    have "queued qs \<subseteq> queued qs1"
    proof (rule queued_subI)
      show "\<exists>r ys. qs1 r = Some ys \<and> x \<in> set ys" if "qs q = Some zs" "x \<in> set zs" for q zs x
        using that d(1) by (intro exI [of _ q]) (cases "q = d"; auto simp: qs1_def)
    qed
    moreover have "cur s \<in> queued qs1"
      using queued_member [of qs1 d "xs @ [cur s]"] by (simp add: qs1_def)
    ultimately show ?thesis by blast
  qed
  moreover have "\<exists>i. space s1 (cur s1) i"
    using i(4) cur_live [OF i(1)] f by (simp add: spaces_ok_def space_def)
  moreover have "qs1 Readyqueue \<noteq> None" using sched_okD(2) [OF i(1)] by (auto simp: qs1_def)
  ultimately have "parked P s1 qs1"
    using i f live by (auto simp: parked_def placed_def get_DIR_def)
  moreover have "cont_ok s1 (cur s1) k" using k unfolding cont_ok_def f .
  moreover have "next_of s1 qs1 = next_of s qs1" unfolding next_of_def f ..
  ultimately show ?thesis using switched [of P s1 qs1 k s'] s1(2) s'
    by (auto intro: after_ok_Switched)
qed

lemma needs_sched_cases:
  assumes "needs_sched_rr s = Some (n, s')"
  shows "n \<noteq> 0 \<and> s' = s \<or> n = 0 \<and> quiet s s'"
  using assms by (auto simp: needs_sched_rr_def split: if_splits elim!: bind_eq_SomeE)

lemma tick_inv:
  assumes inv: "kernel_inv P s qs" and run: "update_sched_data_rr s = Some (r, s')"
  shows "after_ok P r s'"
proof -
  obtain rs where rs: "qs Readyqueue = Some rs"
    using sched_okD(2) [OF kernel_invD(1) [OF inv]] by blast
  have q: "kernel_inv P (s\<lparr>remaining_ticks := n\<rparr>) qs" for n
    using inv by (rule kernel_inv_quiet [rotated]) simp
  obtain m n s1 where m: "needs_sched_rr (s\<lparr>remaining_ticks := m\<rparr>) = Some (n, s1)"
    "(if n \<noteq> 0 then do { s \<leftarrow> update_process_state_rr (cur s1) (Some Readyqueue) s1;
                         s \<leftarrow> sched_next_rr In_clock s; Some (Switched, s) }
      else Some (Return (), s1)) = Some (r, s')"
    using run by (auto simp: update_sched_data_rr_def elim!: bind_eq_SomeE)
  show ?thesis
  proof (cases "n = 0")
    case True
    with m needs_sched_cases [OF m(1)] kernel_inv_quiet [OF _ q] show ?thesis
      by (auto intro: after_ok_Return)
  next
    case False
    with m needs_sched_cases [OF m(1)] yield_inv [OF q rs, of m In_clock] show ?thesis
      by (auto simp: cont_ok_def yield_to_def elim!: bind_eq_SomeE)
  qed
qed

section \<open>Keys\<close>

lemma key_cases:
  assumes "keyboard_interrupt key s = Some s'" and "key AND 0x80 = 0"
  obtains b c where "pressed key" "s' = (printc_xy 0 0 c s)\<lparr>cb := b\<rparr>"
  | b c t where "pressed key" "update_process_state_rr t (Some Readyqueue) ((printc_xy 0 0 c s)\<lparr>cb := b\<rparr>) = Some s'"
proof -
  have p: "unat (key AND 0x7F) < length char_map"
    using assms by (simp add: keyboard_interrupt_def split: if_splits)
  then have pr: "pressed key" using assms(2) by (simp add: pressed_def length_char_map)
  define c where "c = (if char_map ! unat (key AND 0x7F) = 0 then 0x43 else char_map ! unat (key AND 0x7F))"
  let ?s = "printc_xy 0 0 c s"
  obtain q :: int and b where "(do { e \<leftarrow> list_empty (Some Keyboardqueue) (lists (?s\<lparr>cb := b\<rparr>));
      if e then Some (?s\<lparr>cb := b\<rparr>)
      else do { nx \<leftarrow> list_first (Some Keyboardqueue) (lists (?s\<lparr>cb := b\<rparr>));
                t \<leftarrow> list_head_to_task_struct nx;
                if to_read (kb_data (task_of (?s\<lparr>cb := b\<rparr>) t)) \<le> circular_buf_num_elems (cb (?s\<lparr>cb := b\<rparr>)) \<or> q < 0
                then update_process_state_rr t (Some Readyqueue) (?s\<lparr>cb := b\<rparr>)
                else Some (?s\<lparr>cb := b\<rparr>) } }) = Some s'"
  proof -
    have "keyboard_interrupt key s = do { (q, b) \<leftarrow> circular_buf_put c (cb ?s);
      let s = ?s\<lparr>cb := b\<rparr>;
      e \<leftarrow> list_empty (Some Keyboardqueue) (lists s);
      if e then Some s
      else do { nx \<leftarrow> list_first (Some Keyboardqueue) (lists s);
                t \<leftarrow> list_head_to_task_struct nx;
                if to_read (kb_data (task_of s t)) \<le> circular_buf_num_elems (cb s) \<or> q < 0
                then update_process_state_rr t (Some Readyqueue) s
                else Some s } }"
      using p assms(2) unfolding keyboard_interrupt_def c_def Let_def by simp
    moreover obtain q b where "circular_buf_put c (cb ?s) = Some (q, b)"
      using calculation assms(1) by (cases "circular_buf_put c (cb ?s)") auto
    ultimately show ?thesis using that [where b = b and q = q] assms(1) by (simp add: Let_def)
  qed
  then have "s' = ?s\<lparr>cb := b\<rparr> \<or> (\<exists>t. update_process_state_rr t (Some Readyqueue) (?s\<lparr>cb := b\<rparr>) = Some s')"
    by (auto split: if_splits elim!: bind_eq_SomeE)
  then show ?thesis using that [OF pr] by blast
qed

lemma key_facts:
  assumes "keyboard_interrupt key s = Some s'" and "key AND 0x80 = 0"
  shows "tss_esp0 s' = tss_esp0 s \<and> (\<forall>t. stack (tasks s' t) = stack (tasks s t)) \<and> pressed key"
proof -
  have p: "tss_esp0 (printc_xy a b c s) = tss_esp0 s" "tasks (printc_xy a b c s) = tasks s" for a b c
    by (simp_all add: printc_xy_def printc_def Let_def)
  from assms show ?thesis
  proof (rule key_cases)
    fix b c t
    assume "pressed key" "update_process_state_rr t (Some Readyqueue) ((printc_xy 0 0 c s)\<lparr>cb := b\<rparr>) = Some s'"
    then show ?thesis using update_process_facts [of t _ _ s'] by (simp add: sched_frame_def p)
  qed (simp add: p)
qed

lemma key_unlinked_kept:
  assumes "keyboard_interrupt key s = Some s'" and "key AND 0x80 = 0" and un: "unlinked (lists s) (SemQueue i)"
  shows "unlinked (lists s') (SemQueue i)"
proof -
  have p: "lists (printc_xy a b c s) = lists s" for a b c
    by (simp add: printc_xy_def printc_def Let_def)
  from assms(1,2) show ?thesis
  proof (rule key_cases)
    fix b c t
    assume "update_process_state_rr t (Some Readyqueue) ((printc_xy 0 0 c s)\<lparr>cb := b\<rparr>) = Some s'"
    from update_process_unlinked_kept [OF this] un show ?thesis by (simp add: p)
  qed (use un in \<open>simp add: p\<close>)
qed

lemma key_queues_keep:
  assumes "qs Keyboardqueue = Some ws" and "qs Readyqueue = Some rs"
  shows "queued qs \<subseteq> queued (key_queues s key qs) \<and> live (key_queues s key qs) = live qs \<and>
    (\<forall>i. key_queues s key qs (SemQueue i) = qs (SemQueue i)) \<and>
    key_queues s key qs Blockedqueue = qs Blockedqueue"
proof (cases "key_queues s key qs = qs")
  case False
  then obtain w us where w: "ws = w # us"
    "key_queues s key qs = qs(Keyboardqueue \<mapsto> us, Readyqueue \<mapsto> rs @ [w])"
    using assms by (auto simp: key_queues_def split: list.splits if_splits)
  have "queued qs \<subseteq> queued (key_queues s key qs)"
    unfolding w(2)
  proof (rule queued_subI)
    show "\<exists>r ys. (qs(Keyboardqueue \<mapsto> us, Readyqueue \<mapsto> rs @ [w])) r = Some ys \<and> x \<in> set ys"
      if "qs q = Some xs" "x \<in> set xs" for q xs x
      using that assms w(1) by (intro exI [of _ "if x = w then Readyqueue else q"]) auto
  qed
  with w(2) show ?thesis by simp
qed simp

lemma key_inv:
  assumes inv: "kernel_inv P s qs" and run: "keyboard_interrupt key s = Some s'"
  shows "\<exists>qs'. kernel_inv P s' qs'"
proof (cases "key AND 0x80 = 0")
  case False
  with run inv show ?thesis by (auto simp: keyboard_interrupt_def)
next
  case True
  note i = kernel_invD [OF inv] and f = key_facts [OF run True]
  obtain ws rs where q: "qs Keyboardqueue = Some ws" "qs Readyqueue = Some rs"
    using sched_okD(2,4) [OF i(1)] by blast
  let ?qs = "key_queues s key qs"
  note k = key_queues_keep [OF q, of s key]
  have "pressed key" using f by blast
  from key_press [OF i(1,2) this] run have s': "sched_ok s' ?qs" "input_frame s s'" "cb_ok (cb s')"
    by auto
  then have fr: "syms s' = syms s" "idle_task s' = idle_task s" "semaphores s' = semaphores s"
    "cur s' = cur s" "cr3 s' = cr3 s" "dir_pages s' = dir_pages s" "dir_references s' = dir_references s"
    "dir_pages_baseAddr (task_of s' t) = dir_pages_baseAddr (task_of s t)"
    "kernel_esp (task_of s' t) = kernel_esp (task_of s t)" "stack (tasks s' t) = stack (tasks s t)"
    "tss_esp0 s' = tss_esp0 s" for t
    using f by (simp_all add: input_frame_def)
  have "spaces_ok s' ?qs = spaces_ok s qs" by (rule spaces_ok_cong) (use fr k in simp_all)
  moreover have "resumable s' t = resumable s t" for t by (rule resumable_cong) (use fr in simp_all)
  moreover have "heads_ok s' ?qs"
    by (rule heads_ok_cong [OF i(3)]) (use k fr f key_unlinked_kept [OF run True] in simp_all)
  moreover have "P \<subseteq> placed s' ?qs"
    using i(6) k unfolding placed_def fr by blast
  ultimately have "kernel_inv P s' ?qs"
    using i s' fr k by (simp add: kernel_inv_def get_DIR_def)
  then show ?thesis by blast
qed

section \<open>Semaphores\<close>

lemma kernel_inv_mono: "kernel_inv P s qs \<Longrightarrow> Q \<subseteq> P \<Longrightarrow> kernel_inv Q s qs"
  by (auto simp: kernel_inv_def)

lemma after_ok_mono: "after_ok P r s \<Longrightarrow> Q \<subseteq> P \<Longrightarrow> after_ok Q r s"
  unfolding after_ok_def by (blast intro: kernel_inv_mono)

text \<open>A task is in a queue when walking along the list meets its node.\<close>

definition in_queue :: "kstate \<Rightarrow> lnode \<Rightarrow> nat \<Rightarrow> bool" where
  "in_queue s q t \<longleftrightarrow>
     (case list_for_each NR_TASKS (Some q) (lists s) of
        None \<Rightarrow> False
      | Some ps \<Rightarrow> TaskNode t \<in> set ps)"

definition queue_heads :: "lnode set" where
  "queue_heads = {Freequeue, Readyqueue, Blockedqueue, Keyboardqueue} \<union> SemQueue ` {..<NR_SEMAPHORES}"

lemma in_queue_known:
  assumes ok: "sched_ok s qs" and q: "qs q = Some xs"
  shows "in_queue s q t \<longleftrightarrow> t \<in> set xs"
proof -
  note qs = sched_okD(1) [OF ok]
  have "set xs \<subseteq> {..<10}" using sched_okD(6) [OF ok] queued_member [of qs q xs] q by auto
  then have "length xs \<le> 10"
    using distinct_card [OF queues_distinct [OF qs q]] card_mono [of "{..<10}" "set xs"] by simp
  then have "list_for_each 10 (Some q) (lists s) = Some (map TaskNode xs)"
    by (intro dll_for_each [OF queues_dll [OF qs q]]) simp
  then show ?thesis by (auto simp: in_queue_def)
qed

lemma in_queue_iff:
  assumes inv: "kernel_inv P s qs" and q: "q \<in> queue_heads"
  shows "in_queue s q t \<longleftrightarrow> (\<exists>xs. qs q = Some xs \<and> t \<in> set xs)"
proof (cases "qs q")
  case None
  then obtain i where "q = SemQueue i" "i < 20"
    using q sched_okD(2-4) [OF kernel_invD(1) [OF inv]] kernel_invD(3) [OF inv]
    by (auto simp: queue_heads_def heads_ok_def)
  with kernel_invD(3) [OF inv] None show ?thesis
    by (simp add: heads_ok_def in_queue_def unlinked_unusable)
next
  case (Some xs)
  with in_queue_known [OF kernel_invD(1) [OF inv] Some] show ?thesis by simp
qed

lemma queued_head:
  assumes "kernel_inv P s qs" and "qs q = Some xs"
  shows "q \<in> queue_heads"
proof -
  have "is_head q" using sched_okD(1) [OF kernel_invD(1) [OF assms(1)]] assms(2) by (auto simp: queues_def)
  moreover have "i < 20" if "q = SemQueue i" for i
    using kernel_invD(3) [OF assms(1)] assms(2) that by (auto simp: heads_ok_def not_less [symmetric])
  ultimately show ?thesis by (cases q) (auto simp: queue_heads_def)
qed

text \<open>A task that the kernel can still find.\<close>

definition has_place :: "kstate \<Rightarrow> nat \<Rightarrow> bool" where
  "has_place s t \<longleftrightarrow> t = cur s \<or> idle_task s = Some t \<or> (\<exists>q \<in> queue_heads. in_queue s q t)"

lemma has_place_iff:
  assumes "kernel_inv P s qs"
  shows "has_place s t \<longleftrightarrow> t \<in> placed s qs"
  using in_queue_iff [OF assms, of _ t] queued_head [OF assms]
  by (auto simp: has_place_def placed_def queued_def ran_def)

text \<open>What an operation on one semaphore needs to keep.\<close>

lemma kernel_inv_upd_sem:
  assumes "kernel_inv P s qs" and "qs (SemQueue i) \<noteq> None"
  shows "kernel_inv P (upd_sem i f s) qs"
proof -
  have same: "syms (upd_sem i f s) = syms s" "dir_pages (upd_sem i f s) = dir_pages s"
    "dir_references (upd_sem i f s) = dir_references s" "cb (upd_sem i f s) = cb s"
    "cr3 (upd_sem i f s) = cr3 s" "tss_esp0 (upd_sem i f s) = tss_esp0 s"
    "stack (tasks (upd_sem i f s) t) = stack (tasks s t)" for t
    by (simp_all add: upd_sem_def)
  have "spaces_ok (upd_sem i f s) qs = spaces_ok s qs" by (rule spaces_ok_cong) (simp_all add: same)
  moreover have "resumable (upd_sem i f s) t = resumable s t" for t
    by (rule resumable_cong) (simp_all add: same)
  moreover have "heads_ok (upd_sem i f s) qs"
    using assms by (auto simp: kernel_inv_def heads_ok_def)
  ultimately show ?thesis using assms(1) by (simp add: kernel_inv_def placed_def same get_DIR_def)
qed

text \<open>The semaphore of a call: one with a queue, or one that was never initialised.\<close>

lemma sem_cases:
  assumes "kernel_inv P s qs" and "0 \<le> n" and "n < 20"
  obtains ws where "qs (SemQueue (nat n)) = Some ws"
  | "unlinked (lists s) (SemQueue (nat n))" "counter (semaphores s (nat n)) \<le> 0"
  using kernel_invD(3) [OF assms(1)] assms(2,3) by (cases "qs (SemQueue (nat n))") (auto simp: heads_ok_def)

text \<open>
  The tasks that a call of \<open>sem_init\<close> loses: the semaphore is free, but the queue that it had before it
  was destroyed is not empty.
\<close>

definition lost :: "int \<Rightarrow> kstate \<Rightarrow> nat set" where
  "lost n s = (if 0 \<le> n \<and> n < int NR_SEMAPHORES \<and> owner (semaphores s (nat n)) = -1
     then {t. in_queue s (SemQueue (nat n)) t} else {})"

lemma sem_init_inv:
  assumes inv: "kernel_inv P s qs" and run: "sys_sem_init n v s = Some (r, s')"
  shows "\<exists>qs'. kernel_inv (P - lost n s) s' qs'"
proof (cases "s' = s")
  case False
  note i = kernel_invD [OF inv]
  have n: "0 \<le> n" "n < 20" "owner (semaphores s (nat n)) = -1"
    using run False by (auto simp: sys_sem_init_def Let_def split: if_splits)
  have lt: "nat n < 20" using n by simp
  let ?i = "nat n" and ?qs = "qs(SemQueue (nat n) \<mapsto> [])"
  obtain s2 where s2: "sys_sem_init (int ?i) v s = Some (0, s2)" "sched_ok s2 ?qs"
    "s2 = s\<lparr>semaphores := (semaphores s)(?i := \<lparr>counter = to_s32 v, owner = PID (task_of s (cur s))\<rparr>),
      lists := lists s2\<rparr>"
    using sem_init_spec [OF lt n(3) i(1), of v] by blast
  have "s2 = s'" using s2(1) run n by (simp del: fun_upd_apply)
  with s2(3) have fr: "s' = s\<lparr>semaphores := (semaphores s)
      (?i := \<lparr>counter = to_s32 v, owner = PID (task_of s (cur s))\<rparr>), lists := lists s'\<rparr>" by simp
  define h where "h = lists s'"
  have eq: "s' = s\<lparr>semaphores := (semaphores s)
      (?i := \<lparr>counter = to_s32 v, owner = PID (task_of s (cur s))\<rparr>), lists := h\<rparr>"
    using fr unfolding h_def .
  have h: "INIT_LIST_HEAD (Some (SemQueue ?i)) (lists s) = Some h"
    using run n unfolding h_def by (auto simp: sys_sem_init_def Let_def elim!: bind_eq_SomeE)
  have live: "live ?qs = live qs" by simp
  have "spaces_ok s' ?qs = spaces_ok s qs" by (rule spaces_ok_cong) (simp_all add: eq)
  moreover have "resumable s' t = resumable s t" for t by (rule resumable_cong) (simp_all add: eq)
  moreover have "heads_ok s' ?qs"
    using i(3) n unlinked_init [OF h] by (auto simp: heads_ok_def eq)
  moreover have "P - lost n s \<subseteq> placed s' ?qs"
  proof -
    have "x \<in> placed s' ?qs" if x: "x \<in> placed s qs" "x \<notin> lost n s" for x
    proof (cases "x \<in> queued qs")
      case True
      then obtain q xs where q: "qs q = Some xs" "x \<in> set xs" by (auto simp: queued_def ran_def)
      have "q \<noteq> SemQueue ?i" using x(2) in_queue_known [OF i(1), of q xs x] q n by (auto simp: lost_def)
      with q queued_member [of ?qs q xs x] show ?thesis by (simp add: placed_def)
    qed (use x(1) in \<open>auto simp: placed_def eq\<close>)
    with i(6) show ?thesis by blast
  qed
  moreover have "cur s' = cur s" "idle_task s' = idle_task s" "cb s' = cb s" "cr3 s' = cr3 s"
    "tss_esp0 s' = tss_esp0 s" "syms s' = syms s" "get_DIR t s' = get_DIR t s" for t
    by (simp_all add: eq get_DIR_def)
  moreover have "sched_ok s' ?qs" using s2(2) \<open>s2 = s'\<close> by simp
  ultimately have "kernel_inv (P - lost n s) s' ?qs"
    using i unfolding kernel_inv_def live by auto
  then show ?thesis by blast
next
  case True
  with kernel_inv_mono [OF inv, of "P - lost n s"] show ?thesis by auto
qed

lemma sem_wait_inv:
  assumes inv: "kernel_inv P s qs" and busy: "idle_task s \<noteq> Some (cur s)"
    and run: "sys_sem_wait n s = Some (r, s')"
  shows "after_ok P r s'"
proof (cases "0 \<le> n \<and> n < 20")
  case False
  then show ?thesis using run inv
    by (auto simp: sys_sem_wait_def sem_in_def intro: after_ok_Return split: if_splits)
next
  case True
  let ?i = "nat n"
  show ?thesis
  proof (rule sem_cases [OF inv conjunct1 [OF True] conjunct2 [OF True]])
    assume un: "unlinked (lists s) (SemQueue ?i)" "counter (semaphores s ?i) \<le> 0"
    have "state (task_of s (cur s)) = ST_RUN" by (rule sched_okD(8) [OF kernel_invD(1) [OF inv]])
    with run un True unlinked_unusable(3) [OF un(1)] show ?thesis
      by (auto simp: sys_sem_wait_def sem_in_def update_process_state_rr_def)
  next
    fix ws assume ws: "qs (SemQueue ?i) = Some ws"
    show ?thesis
    proof (cases "0 < counter (semaphores s ?i)")
      case pos: True
      have "kernel_inv P (upd_sem ?i (\<lambda>x. x\<lparr>counter := counter x - 1\<rparr>) s) qs"
        by (rule kernel_inv_upd_sem [OF inv]) (simp add: ws)
      with run pos True show ?thesis
        by (auto simp: sys_sem_wait_def sem_in_def intro: after_ok_Return)
    next
      case False
      have "cont_ok s (cur s) (In_sem_wait n)" using True busy by (simp add: cont_ok_def)
      from yield_inv [OF inv ws _ _ busy this] obtain s2 where
        "yield_to (SemQueue ?i) (In_sem_wait n) s = Some s2" "after_ok P Switched s2" by auto
      with run False True show ?thesis
        by (auto simp: sys_sem_wait_def sem_in_def yield_to_def after_ok_def elim!: bind_eq_SomeE)
    qed
  qed
qed

lemma sem_signal_inv:
  assumes inv: "kernel_inv P s qs" and run: "sys_sem_signal n s = Some (r, s')"
  shows "\<exists>qs'. kernel_inv P s' qs'"
proof (cases "0 \<le> n \<and> n < 20")
  case False
  then show ?thesis using run inv by (auto simp: sys_sem_signal_def sem_in_def split: if_splits)
next
  case True
  let ?i = "nat n"
  have lt: "?i < 20" using True by linarith
  show ?thesis
  proof (rule sem_cases [OF inv conjunct1 [OF True] conjunct2 [OF True]])
    assume "unlinked (lists s) (SemQueue ?i)"
    from unlinked_unusable [OF this] run True show ?thesis by (auto simp: sys_sem_signal_def sem_in_def)
  next
    fix ws assume ws: "qs (SemQueue ?i) = Some ws"
    have "ws = []"
      using lt sem_signal_waiting [of ?i s qs] kernel_invD(1) [OF inv] run True ws by (cases ws) auto
    then obtain c where "s' = upd_sem ?i (\<lambda>x. x\<lparr>counter := c\<rparr>) s"
      using run True queues_empty [OF sched_okD(1) [OF kernel_invD(1) [OF inv]] ws]
      by (auto simp: sys_sem_signal_def sem_in_def elim!: bind_eq_SomeE)
    then show ?thesis using kernel_inv_upd_sem [OF inv, of ?i "\<lambda>x. x\<lparr>counter := c\<rparr>"] ws by auto
  qed
qed

lemma sem_destroy_inv:
  assumes inv: "kernel_inv P s qs" and run: "sys_sem_destroy n s = Some (r, s')"
  shows "\<exists>qs'. kernel_inv P s' qs'"
proof (cases "0 \<le> n \<and> n < 20 \<and> owner (semaphores s (nat n)) = PID (task_of s (cur s))")
  case False
  then show ?thesis using run inv by (auto simp: sys_sem_destroy_def sem_in_def split: if_splits)
next
  case True
  let ?i = "nat n"
  note ok = kernel_invD(1) [OF inv]
  have lt: "?i < 20" and b: "0 \<le> n" "n < 20" using True by linarith+
  show ?thesis
  proof (rule sem_cases [OF inv b])
    assume "unlinked (lists s) (SemQueue ?i)"
    from unlinked_unusable [OF this] run True show ?thesis
      by (auto simp: sys_sem_destroy_def sem_in_def release_all.simps)
  next
    fix ws assume ws: "qs (SemQueue ?i) = Some ws"
    have "ws = []"
      using lt sem_destroy_waiting [of ?i s qs] ok run True ws by (cases ws) auto
    with sem_destroy_idle [OF _ ok, of ?i] run True ws have "s' = upd_sem ?i (\<lambda>x. x\<lparr>owner := -1\<rparr>) s" by auto
    then show ?thesis using kernel_inv_upd_sem [OF inv, of ?i "\<lambda>x. x\<lparr>owner := -1\<rparr>"] ws by auto
  qed
qed

section \<open>Reading\<close>

lemma read_resumed_inv:
  assumes "read_resumed buf n s = Some (r, s')" and "kernel_inv P s qs" and "idle_task s \<noteq> Some (cur s)"
  shows "after_ok P r s'"
proof -
  have "kernel_inv P s qs \<longrightarrow> idle_task s \<noteq> Some (cur s) \<longrightarrow> after_ok P (fst (r, s')) (snd (r, s'))"
  proof (rule read_resumed.raw_induct [where P = "\<lambda>buf n s p. kernel_inv P s qs \<longrightarrow>
      idle_task s \<noteq> Some (cur s) \<longrightarrow> after_ok P (fst p) (snd p)", OF _ assms(1)], intro impI)
    fix rec buf n s p
    assume IH: "\<And>buf n s p. rec buf n s = Some p \<Longrightarrow>
        kernel_inv P s qs \<longrightarrow> idle_task s \<noteq> Some (cur s) \<longrightarrow> after_ok P (fst p) (snd p)"
      and run: "(if 0 < to_read (my_kb s)
        then do { r \<leftarrow> read_turn buf n s;
                  case r of Inl s \<Rightarrow> rec buf n s | Inr s \<Rightarrow> Some (Switched, s) }
        else Some (Return (already_read (my_kb s)), s)) = Some p"
      and inv: "kernel_inv P s qs" and busy: "idle_task s \<noteq> Some (cur s)"
    show "after_ok P (fst p) (snd p)"
    proof (cases "0 < to_read (my_kb s)")
      case False
      with run inv show ?thesis by (auto intro: after_ok_Return)
    next
      case True
      with run obtain t where t: "read_turn buf n s = Some t"
        "(case t of Inl s \<Rightarrow> rec buf n s | Inr s \<Rightarrow> Some (Switched, s)) = Some p"
        by (auto elim!: bind_eq_SomeE)
      consider s1 where "t = Inl s1" "quiet s s1"
        | s1 s2 where "t = Inr s2" "quiet s s1" "yield_to Keyboardqueue (In_read buf n) s1 = Some s2"
        using read_turn_quiet [OF t(1)] by blast
      then show ?thesis
      proof cases
        case 1
        with t(2) IH [of buf n s1 p] kernel_inv_quiet [OF 1(2) inv] busy show ?thesis
          by (auto simp: quiet_def)
      next
        case 2
        note inv1 = kernel_inv_quiet [OF 2(2) inv]
        have busy1: "idle_task s1 \<noteq> Some (cur s1)" using 2(2) busy by (simp add: quiet_def)
        obtain ws where ws: "qs Keyboardqueue = Some ws"
          using sched_okD(4) [OF kernel_invD(1) [OF inv]] by blast
        have "cont_ok s1 (cur s1) (In_read buf n)" using busy1 by (simp add: cont_ok_def)
        from yield_inv [OF inv1 ws _ _ busy1 this] 2(3) have "after_ok P Switched s2" by auto
        with t(2) 2(1) show ?thesis by (auto simp: after_ok_def)
      qed
    qed
  qed
  with assms(2,3) show ?thesis by simp
qed

end
