(* ===== verification/KernelProc.thy ===== *)
theory KernelProc
  imports KernelOps
begin

text \<open>
  Process creation and termination keep the invariant of the kernel. For \<open>sys_fork\<close> this is about
  every run that returns: the lemmas follow the code, whatever the page tables of the caller hold.
\<close>

section \<open>A new task\<close>

text \<open>A task that is taken, copied and made ready leaves the heads without links alone.\<close>

lemma take_free_unlinked:
  assumes "take_free s = Some (c, s')" and "unlinked (lists s) (SemQueue i)"
  shows "unlinked (lists s') (SemQueue i)"
proof -
  obtain l h where l: "list_del l (lists s) = Some h" "list_head_to_task_struct l = Some c" "s' = s\<lparr>lists := h\<rparr>"
    using assms(1) by (auto simp: take_free_def elim!: bind_eq_SomeE)
  then have "l = Some (TaskNode c)" by (auto simp: list_head_to_task_struct_def split: option.splits lnode.splits)
  with l(1,3) assms(2) show ?thesis using unlinked_del [of "TaskNode c" "lists s" h "SemQueue i"] by simp
qed

lemma copy_links_unlinked: "unlinked h (SemQueue i) \<Longrightarrow> unlinked (h(TaskNode c := h x)) (SemQueue i)"
  by (auto simp: unlinked_def)

lemma make_ready_unlinked:
  assumes "make_ready c s = Some (r, s')" and "unlinked (lists s) (SemQueue i)"
  shows "unlinked (lists s') (SemQueue i)"
proof -
  obtain st where st: "init_task_stats c s = Some ((upd_task c (\<lambda>x. x\<lparr>task_stats := st\<rparr>) s)\<lparr>tsc_pos := tsc_pos s + 2\<rparr>)"
    using init_task_stats_spec [of c s] by blast
  obtain h where h: "list_add_tail (Some (TaskNode c)) (Some Readyqueue) (lists s) = Some h" "lists s' = h"
    using assms(1) by (auto simp: make_ready_def st elim!: bind_eq_SomeE)
  from unlinked_add(2) [OF h(1) assms(2)] h(2) show ?thesis by simp
qed

lemma clone_unlinked:
  assumes "sys_clone fn st s = Some (r, s')" and "unlinked (lists s) (SemQueue i)"
  shows "unlinked (lists s') (SemQueue i)"
proof (cases "s' = s")
  case False
  have "\<exists>c s1 d. take_free s = Some (c, s1) \<and> make_ready c (upd_stack c SLOT_esp st (upd_stack c SLOT_eip fn
      (dynamic_link c (upd_task c (\<lambda>x. x\<lparr>PID := to_s32 (nextPid s1 + 1)\<rparr>)
        ((copy_task_union (cur s1) c (s1\<lparr>dir_references := d\<rparr>))\<lparr>nextPid := nextPid s1 + 1\<rparr>))))) = Some (r, s')"
    using assms(1) False
    by (fastforce simp: sys_clone_def getNextPid_def copy_task_union_def Let_def split: if_splits elim!: bind_eq_SomeE)
  then obtain c s1 s2 d where 1: "take_free s = Some (c, s1)" "make_ready c s2 = Some (r, s')"
    and s2: "s2 = upd_stack c SLOT_esp st (upd_stack c SLOT_eip fn
      (dynamic_link c (upd_task c (\<lambda>x. x\<lparr>PID := to_s32 (nextPid s1 + 1)\<rparr>)
        ((copy_task_union (cur s1) c (s1\<lparr>dir_references := d\<rparr>))\<lparr>nextPid := nextPid s1 + 1\<rparr>))))"
    by blast
  have l2: "lists s2 = (lists s1)(TaskNode c := lists s1 (TaskNode (cur s1)))"
    by (simp add: s2 dynamic_link_def copy_task_union_def)
  have "unlinked (lists s2) (SemQueue i)"
    unfolding l2 by (rule copy_links_unlinked [OF take_free_unlinked [OF 1(1) assms(2)]])
  then show ?thesis by (rule make_ready_unlinked [OF 1(2)])
qed (use assms in simp)

lemma new_task_inv:
  assumes inv: "kernel_inv P s qs" and free: "qs Freequeue = Some (c # fs)"
    and ready: "qs Readyqueue = Some rs"
    and q: "queues (lists s') (qs(Freequeue \<mapsto> fs, Readyqueue \<mapsto> rs @ [c]))"
    and same: "syms s' = syms s" "cur s' = cur s" "idle_task s' = idle_task s"
      "semaphores s' = semaphores s" "cb s' = cb s" "dir_pages s' = dir_pages s"
      "cr3 s' = cr3 s" "tss_esp0 s' = tss_esp0 s"
    and other: "\<And>t. t \<noteq> c \<Longrightarrow> tasks s' t = tasks s t"
    and sp: "space s' c j" and refs: "dir_references s' = (dir_references s)(j := dir_references s j + 1)"
    and res: "resumable s' c" and un: "\<And>i. unlinked (lists s) (SemQueue i) \<Longrightarrow> unlinked (lists s') (SemQueue i)"
  shows "kernel_inv P s' (qs(Freequeue \<mapsto> fs, Readyqueue \<mapsto> rs @ [c]))"
proof -
  let ?qs = "qs(Freequeue \<mapsto> fs, Readyqueue \<mapsto> rs @ [c])"
  note i = kernel_invD [OF inv]
  have task: "task_of s' t = task_of s t" if "t \<noteq> c" for t
    using other [OF that] by (simp add: task_of_def)
  have ok: "sched_ok s' ?qs"
    by (rule sched_ok_new_task [OF i(1) free ready q same(2,3)]) (simp add: task)
  have c: "c < 10" "c \<notin> live qs" "c \<noteq> cur s" "c \<notin> set fs"
    using sched_okD(6,7) [OF i(1)] queued_member [of qs Freequeue "c # fs" c] free queues_distinct [OF sched_okD(1) [OF i(1)] free]
    by (auto simp: live_iff [of qs, OF free])
  have live: "live ?qs = insert c (live qs)"
    unfolding live_def using c free by auto
  have spaces: "space s' t i = space s t i" if "t \<noteq> c" for t i
    using task [OF that] same(1) by (simp add: space_def)
  have "{t \<in> live ?qs. space s' t i} = (if i = j then insert c {t \<in> live qs. space s t i}
      else {t \<in> live qs. space s t i})" for i
  proof -
    have 1: "t \<in> live ?qs \<and> space s' t i \<longleftrightarrow> t \<in> live qs \<and> space s t i \<or> t = c \<and> i = j" for t
    proof (cases "t = c")
      case True
      then show ?thesis using sp c(2) space_unique [of s' c i j] unfolding live by auto
    next
      case False
      then show ?thesis using spaces [OF False] unfolding live by simp
    qed
    show ?thesis unfolding 1 by auto
  qed
  then have "card {t \<in> live ?qs. space s' t i} = card {t \<in> live qs. space s t i} + (if i = j then 1 else 0)" for i
    using c(2) by simp
  moreover have "\<exists>i. space s' t i" if "t \<in> live ?qs" for t
    using that i(4) sp spaces unfolding live spaces_ok_def by (cases "t = c") auto
  ultimately have "spaces_ok s' ?qs"
    using i(4) same(1,6) refs by (simp add: spaces_ok_def paging_ok_def)
  moreover have "resumable s' t" if "t \<in> live ?qs" "t \<noteq> cur s" for t
  proof (cases "t = c")
    case False
    then have "resumable s' t = resumable s t"
      by (intro resumable_cong) (simp_all add: same task other)
    with i(9) that False show ?thesis unfolding live by simp
  qed (use res in simp)
  moreover have "queued qs \<subseteq> queued ?qs"
  proof (rule queued_subI)
    show "\<exists>r ys. ?qs r = Some ys \<and> x \<in> set ys" if "qs p = Some xs" "x \<in> set xs" for p xs x
      using that free ready by (intro exI [of _ "if x = c then Readyqueue else p"]) auto
  qed
  then have "placed s qs \<subseteq> placed s' ?qs" using same(2,3) by (auto simp: placed_def)
  moreover have "heads_ok s' ?qs" by (rule heads_ok_cong [OF i(3) same(4) un]) simp_all
  moreover have "get_DIR (cur s) s' = get_DIR (cur s) s" using task [of "cur s"] c(3) by (simp add: get_DIR_def)
  ultimately show ?thesis
    using ok i same unfolding kernel_inv_def by auto
qed

lemma refs_int_ok:
  assumes "kernel_inv P s qs" and "i < 10"
  shows "0 \<le> dir_references s i" and "dir_references s i \<le> 10"
proof -
  have "card {t \<in> live qs. space s t i} \<le> card {..<10 :: nat}"
    by (rule card_mono) (auto simp: live_def)
  moreover have "dir_references s i = int (card {t \<in> live qs. space s t i})"
    using kernel_invD(4) [OF assms(1)] assms(2) by (simp add: spaces_ok_def)
  ultimately show "0 \<le> dir_references s i" "dir_references s i \<le> 10" by simp_all
qed

lemma cur_space:
  assumes "kernel_inv P s qs"
  obtains i where "space s (cur s) i" "i < 10" "0 < dir_references s i"
proof -
  note i = kernel_invD [OF assms]
  have cur: "cur s \<in> live qs" by (rule cur_live [OF i(1)])
  then obtain d where d: "space s (cur s) d" using i(4) by (auto simp: spaces_ok_def)
  then have lt: "d < 10" by (simp add: space_def)
  have "0 < card {t \<in> live qs. space s t d}" using cur d by (subst card_gt_0_iff) auto
  with i(4) lt have "0 < dir_references s d" by (simp add: spaces_ok_def)
  with d lt show ?thesis by (rule that)
qed

section \<open>clone\<close>

lemma clone_inv:
  assumes inv: "kernel_inv P s qs" and run: "sys_clone fn st s = Some (r, s')"
    and w: "stack (tasks s (cur s)) 1007 = syscall_ret_at (syms s)"
  shows "\<exists>qs'. kernel_inv P s' qs'"
proof -
  note i = kernel_invD [OF inv] and ok = kernel_invD(1) [OF inv]
  obtain fs rs where q: "qs Freequeue = Some fs" "qs Readyqueue = Some rs"
    using sched_okD(2,3) [OF ok] by blast
  show ?thesis
  proof (cases "s' = s")
    case False
    obtain d where d: "space s (cur s) d" "d < 10" "0 < dir_references s d" by (rule cur_space [OF inv])
    have "fs \<noteq> []" using queues_empty [OF sched_okD(1) [OF ok] q(1)] run False
      by (auto simp: sys_clone_def)
    then obtain c gs where c: "fs = c # gs" by (cases fs) auto
    have acc: "access_ok VERIFY_WRITE st 4 = 1" "access_ok VERIFY_READ fn 4 = 1"
      using run False queues_empty [OF sched_okD(1) [OF ok] q(1)] c
      by (auto simp: sys_clone_def access_ok_def Let_def split: if_splits)
    have "int_ok (dir_references s d + 1)" using refs_int_ok [OF inv d(2)] by (simp add: int_ok_def)
    then have cr: "clone_ready s qs d c gs rs" using ok d(1) q c by (simp add: clone_ready_def)
    obtain s2 where s2: "sys_clone fn st s = Some (to_s32 (nextPid s + 1), s2)"
      "sched_ok s2 (qs(Freequeue \<mapsto> gs, Readyqueue \<mapsto> rs @ [c]))" "space s2 c d"
      "dir_references s2 = (dir_references s)(d := dir_references s d + 1)"
      "kernel_esp (task_of s2 c) = Esp (stack_addr (syms s) c SLOT_ebp)"
      "stack (tasks s2 c) = (stack (tasks s (cur s)))
        (1005 := 0, 1006 := ret_from_fork_at (syms s), 1019 := fn, 1022 := st)"
      "\<And>t. t \<noteq> c \<Longrightarrow> tasks s2 t = tasks s t" "call_frame s s2"
      using clone_works [OF cr acc] by blast
    have same: "syms s2 = syms s" "cur s2 = cur s" "idle_task s2 = idle_task s" "semaphores s2 = semaphores s"
      "cb s2 = cb s" "dir_pages s2 = dir_pages s" "cr3 s2 = cr3 s" "tss_esp0 s2 = tss_esp0 s"
      using s2(8) by (simp_all add: call_frame_def)
    obtain n where n: "idle_task s = Some n" "\<And>q xs. qs q = Some xs \<Longrightarrow> n \<in> set xs \<Longrightarrow> q = Readyqueue"
      by (rule sched_ok_idle [OF ok]) (rule that; assumption)
    have nc: "n \<noteq> c" using n(2) [OF q(1)] c by auto
    have "resumable s2 c" using s2(5,6) same w n(1) nc by (simp add: resumable_def)
    from new_task_inv [OF inv _ q(2) sched_okD(1) [OF s2(2)] same s2(7,3,4) this clone_unlinked [OF s2(1)]] q(1) c
    have "kernel_inv P s2 (qs(Freequeue \<mapsto> gs, Readyqueue \<mapsto> rs @ [c]))" by simp
    with s2(1) run show ?thesis by auto
  qed (use inv in auto)
qed

section \<open>fork\<close>

text \<open>What filling the new address space changes.\<close>

definition space_only :: "nat \<Rightarrow> kstate \<Rightarrow> kstate \<Rightarrow> bool" where
  "space_only f s s' \<longleftrightarrow> (\<exists>t m. \<exists>a \<in> {cr3 s, get_DIR f s}. s' = s\<lparr>pagusr_table := t, ram := m, cr3 := a\<rparr>)"

lemma space_onlyI:
  "table_only s s' \<Longrightarrow> space_only f s s'" "ram_only s s' \<Longrightarrow> space_only f s s'"
  "space_only f s (s\<lparr>cr3 := get_DIR f s\<rparr>)"
proof -
  have eq: "s = s\<lparr>pagusr_table := pagusr_table s, ram := ram s, cr3 := cr3 s\<rparr>" by simp
  show "table_only s s' \<Longrightarrow> space_only f s s'"
    unfolding table_only_def space_only_def
    by (elim exE) (rule exI, rule exI [of _ "ram s"], rule bexI [of _ "cr3 s"], simp_all)
  show "ram_only s s' \<Longrightarrow> space_only f s s'"
    unfolding ram_only_def space_only_def
    by (elim exE conjE) (rule exI [of _ "pagusr_table s"], rule exI, rule bexI [of _ "cr3 s"], simp_all)
  show "space_only f s (s\<lparr>cr3 := get_DIR f s\<rparr>)"
    unfolding space_only_def
    by (rule exI [of _ "pagusr_table s"], rule exI [of _ "ram s"], rule bexI [of _ "get_DIR f s"]) simp_all
qed

lemma space_only_trans:
  assumes "space_only f s s1" and "space_only f s1 s2"
  shows "space_only f s s2"
proof -
  obtain t1 m1 a1 where 1: "a1 \<in> {cr3 s, get_DIR f s}" "s1 = s\<lparr>pagusr_table := t1, ram := m1, cr3 := a1\<rparr>"
    using assms(1) unfolding space_only_def by blast
  obtain t2 m2 a2 where 2: "a2 \<in> {cr3 s1, get_DIR f s1}" "s2 = s1\<lparr>pagusr_table := t2, ram := m2, cr3 := a2\<rparr>"
    using assms(2) unfolding space_only_def by blast
  have "s2 = s\<lparr>pagusr_table := t2, ram := m2, cr3 := a2\<rparr>"
    unfolding 2(2) 1(2) by (rule kstate.equality) simp_all
  moreover have "a2 \<in> {cr3 s, get_DIR f s}" using 1(1) 2(1) unfolding 1(2) by (auto simp: get_DIR_def)
  ultimately show ?thesis unfolding space_only_def by blast
qed

lemma copy_page_space:
  assumes "copy_page f cpt fpt tmp i g s = Some s'"
  shows "space_only f s s'"
proof -
  obtain s1 s2 s3 s4 where 1: "set_ss_pag cpt (of_nat (PAG_LOG_INIT_DATA + i)) (to_u32 g) s = Some s1"
    "set_ss_pag fpt tmp (to_u32 g) s1 = Some s2"
    "move_user (of_nat ((PAG_LOG_INIT_DATA + i) * PAGE_SIZE)) (tmp * of_nat PAGE_SIZE) (int PAGE_SIZE) s2 = Some s3"
    "del_ss_pag fpt tmp s3 = Some s4" "s' = s4\<lparr>cr3 := get_DIR f s4\<rparr>"
    using assms by (auto simp: copy_page_def simp del: of_nat_mult of_nat_add elim!: bind_eq_SomeE)
  have "space_only f s s2"
    by (rule space_only_trans [OF space_onlyI(1) [OF set_ss_pag_table [OF 1(1)]]
      space_onlyI(1) [OF set_ss_pag_table [OF 1(2)]]])
  moreover have "space_only f s2 s4"
    by (rule space_only_trans [OF space_onlyI(2) [OF move_user_ram [OF 1(3)]]
      space_onlyI(1) [OF del_ss_pag_table [OF 1(4)]]])
  moreover have "space_only f s4 s'" unfolding 1(5) by (rule space_onlyI(3))
  ultimately show ?thesis using space_only_trans by blast
qed

lemma copy_pages_space: "copy_pages f cpt fpt tmp i gs s = Some s' \<Longrightarrow> space_only f s s'"
proof (induction gs arbitrary: i s)
  case Nil
  then show ?case using space_onlyI(1) [of s s f] by simp
next
  case (Cons g gs)
  then show ?case by (auto elim!: bind_eq_SomeE intro: space_only_trans dest: copy_page_space)
qed

lemma fork_space_facts:
  assumes "fork_space f c gs s = Some (fpt, tmp, s')" and "f \<noteq> c" and "get_DIR f s = cr3 s"
  obtains j t m where "j < 10" "dir_references s j = 0"
    "s' = (upd_task c (\<lambda>x. x\<lparr>dir_pages_baseAddr := dir_addr (syms s) j\<rparr>) s)
      \<lparr>dir_references := (dir_references s)(j := 1), pagusr_table := t, ram := m\<rparr>"
proof -
  define j where "j = free_dir_from 0 (dir_references s)"
  define s1 where "s1 = (upd_task c (\<lambda>x. x\<lparr>dir_pages_baseAddr := dir_addr (syms s) j\<rparr>) s)
    \<lparr>dir_references := (dir_references s)(j := 1)\<rparr>"
  have j: "j < 10" using assms(1) by (simp add: fork_space_def allocate_DIR_def Let_def j_def split: if_splits)
  then have zero: "dir_references s j = 0" using free_dir_bounds [of "dir_references s"] by (simp add: j_def)
  have al: "allocate_DIR c s = Some (1, s1)" using allocate_DIR_spec [of s j c] j by (simp add: j_def s1_def)
  obtain cpt s2 s3 where 2: "share_pages cpt fpt [0..<PAG_LOG_INIT_DATA] s1 = Some s2"
    "copy_pages f cpt fpt tmp 0 gs s2 = Some s3" "s' = s3"
    using assms(1) unfolding fork_space_def al Let_def by (auto elim!: bind_eq_SomeE)
  have "space_only f s1 s'"
    using space_only_trans [OF space_onlyI(1) [OF share_pages_table [OF 2(1)]] copy_pages_space [OF 2(2)]]
    by (simp add: 2(3))
  moreover have "get_DIR f s1 = get_DIR f s" "cr3 s1 = cr3 s"
    using assms(2) by (simp_all add: s1_def get_DIR_def)
  ultimately obtain t m where "s' = s1\<lparr>pagusr_table := t, ram := m, cr3 := cr3 s1\<rparr>"
    using assms(3) by (auto simp: space_only_def)
  then have "s' = s1\<lparr>pagusr_table := t, ram := m\<rparr>" by simp
  then show ?thesis unfolding s1_def by (rule that [OF j zero])
qed

text \<open>
  Whatever \<open>sys_fork\<close> returns: nothing but the frame map changed, or there is a new ready task with a
  directory that nobody used.
\<close>

lemma fork_inv:
  assumes inv: "kernel_inv P s qs" and run: "sys_fork s = Some (r, s')"
    and w: "stack (tasks s (cur s)) 1007 = syscall_ret_at (syms s)"
  shows "\<exists>qs'. kernel_inv P s' qs'"
proof -
  note i = kernel_invD [OF inv] and ok = kernel_invD(1) [OF inv]
  obtain fs rs where q: "qs Freequeue = Some fs" "qs Readyqueue = Some rs"
    using sched_okD(2,3) [OF ok] by blast
  obtain ogs pm where al: "alloc_frames 20 (phys_mem s) = (ogs, pm)" by fastforce
  show ?thesis
  proof (cases "fs = [] \<or> ogs = None")
    case True
    then have "s' = s \<or> s' = s\<lparr>phys_mem := pm\<rparr>"
      using run queues_empty [OF sched_okD(1) [OF ok] q(1)] by (cases "fs = []") (auto simp: sys_fork_def layout_values al)
    then show ?thesis using inv kernel_inv_maps [OF inv, of "pagusr_table s" pm] by auto
  next
    case False
    then obtain c fs' gs where c: "fs = c # fs'" "ogs = Some gs" by (cases fs) auto
    define s1 where "s1 = s\<lparr>phys_mem := pm\<rparr>"
    let ?qs = "qs(Freequeue \<mapsto> fs', Readyqueue \<mapsto> rs @ [c])"
    have l1: "lists s1 = lists s" "cur s1 = cur s" by (simp_all add: s1_def)
    have "queues (lists s1) qs" "qs Freequeue = Some (c # fs')"
      using sched_okD(1) [OF ok] q(1) c by (simp_all add: l1)
    from recycle_node [OF this q(2)] obtain h where h: "take_free s1 = Some (c, s1\<lparr>lists := h\<rparr>)"
      "\<And>x. \<exists>h'. list_add_tail (Some (TaskNode c)) (Some Readyqueue) (h(TaskNode c := x)) = Some h' \<and>
        queues h' ?qs" by metis
    define s2 where "s2 = copy_task_union (cur s) c (s1\<lparr>lists := h\<rparr>)"
    have cc: "cur s \<noteq> c" using sched_okD(7) [OF ok] queued_member [of qs Freequeue fs c] q(1) c by auto
    obtain fpt tmp s3 where f3: "fork_space (cur s) c gs s2 = Some (fpt, tmp, s3)"
      and rest: "(let (pid, s) = getNextPid s3;
                     s = upd_task c (\<lambda>x. x\<lparr>PID := pid\<rparr>) s
                  in do { s \<leftarrow> del_ss_pag fpt tmp s; make_ready c (dynamic_link c s) }) = Some (r, s')"
      using run queues_empty [OF sched_okD(1) [OF ok] q(1)] h(1) c
      by (auto simp: sys_fork_def layout_values al Let_def s1_def [symmetric] s2_def l1 elim!: bind_eq_SomeE split: prod.splits)
    have "get_DIR (cur s) s2 = cr3 s2"
      using cc i(7) by (simp add: s2_def s1_def get_DIR_def)
    from fork_space_facts [OF f3 cc this] obtain j t m where s3: "j < 10" "dir_references s2 j = 0"
      "s3 = (upd_task c (\<lambda>x. x\<lparr>dir_pages_baseAddr := dir_addr (syms s2) j\<rparr>) s2)
        \<lparr>dir_references := (dir_references s2)(j := 1), pagusr_table := t, ram := m\<rparr>" by metis
    define s4 where "s4 = upd_task c (\<lambda>x. x\<lparr>PID := to_s32 (nextPid s3 + 1)\<rparr>) (s3\<lparr>nextPid := nextPid s3 + 1\<rparr>)"
    obtain s5 where s5: "del_ss_pag fpt tmp s4 = Some s5" "make_ready c (dynamic_link c s5) = Some (r, s')"
      using rest by (auto simp: getNextPid_def Let_def s4_def elim!: bind_eq_SomeE)
    obtain t' where t': "s5 = s4\<lparr>pagusr_table := t'\<rparr>" using del_ss_pag_table [OF s5(1)] by (auto simp: table_only_def)
    have lists5: "lists (dynamic_link c s5) = h(TaskNode c := h (TaskNode (cur s)))"
      by (simp add: t' s4_def s3(3) s2_def)
    obtain h' where h': "list_add_tail (Some (TaskNode c)) (Some Readyqueue)
        (h(TaskNode c := h (TaskNode (cur s)))) = Some h'" "queues h' ?qs" using h(2) by blast
    obtain stt where s': "s' = (upd_task c (\<lambda>x. x\<lparr>task_stats := stt\<rparr>) (dynamic_link c s5))
        \<lparr>tsc_pos := tsc_pos (dynamic_link c s5) + 2, lists := h'\<rparr>"
      using make_ready_spec [of c "dynamic_link c s5" h'] h'(1) s5(2) unfolding lists5 by auto
    have "kernel_inv P s' ?qs"
    proof (rule new_task_inv [OF inv _ q(2)])
      show "qs Freequeue = Some (c # fs')" using q(1) c by simp
      show "queues (lists s') ?qs" using h'(2) by (simp add: s')
      show sy: "syms s' = syms s" and "cur s' = cur s" and id: "idle_task s' = idle_task s"
        and "semaphores s' = semaphores s" "cb s' = cb s" "dir_pages s' = dir_pages s" "cr3 s' = cr3 s"
        "tss_esp0 s' = tss_esp0 s"
        by (simp_all add: s' t' s4_def s3(3) s2_def s1_def dynamic_link_def copy_task_union_def)
      show "tasks s' t = tasks s t" if "t \<noteq> c" for t
        using that by (simp add: s' t' s4_def s3(3) s2_def s1_def dynamic_link_def copy_task_union_def
            upd_task_def upd_stack_def)
      show "space s' c j"
        using s3(1) by (simp add: space_def s' t' s4_def s3(3) s2_def s1_def)
      show "dir_references s' = (dir_references s)(j := dir_references s j + 1)"
        using s3(2) by (simp add: s' t' s4_def s3(3) s2_def s1_def)
      obtain n where n: "idle_task s = Some n" "\<And>q xs. qs q = Some xs \<Longrightarrow> n \<in> set xs \<Longrightarrow> q = Readyqueue"
        by (rule sched_ok_idle [OF ok]) (rule that; assumption)
      have "n \<noteq> c" using n(2) [OF q(1)] c by auto
      moreover have "kernel_esp (task_of s' c) = Esp (stack_addr (syms s) c SLOT_ebp)"
        "stack (tasks s' c) 1006 = ret_from_fork_at (syms s)" "stack (tasks s' c) 1007 = stack (tasks s (cur s)) 1007"
        by (simp_all add: s' t' s4_def s3(3) s2_def s1_def)
      ultimately show "resumable s' c" using n(1) w sy id by (simp add: resumable_def)
      show "unlinked (lists s') (SemQueue k)" if "unlinked (lists s) (SemQueue k)" for k
      proof (rule make_ready_unlinked [OF s5(2)])
        have "unlinked h (SemQueue k)" using take_free_unlinked [OF h(1), of k] that by (simp add: l1)
        then show "unlinked (lists (dynamic_link c s5)) (SemQueue k)"
          unfolding lists5 by (rule copy_links_unlinked)
      qed
    qed
    then show ?thesis by blast
  qed
qed

section \<open>exit\<close>

lemma exit_inv:
  assumes inv: "kernel_inv P s qs" and busy: "idle_task s \<noteq> Some (cur s)" and run: "sys_exit s = Some (r, s')"
  shows "r = Switched \<and> after_ok P r s'"
proof -
  note i = kernel_invD [OF inv] and ok = kernel_invD(1) [OF inv]
  obtain fs rs where q: "qs Freequeue = Some fs" "qs Readyqueue = Some rs"
    using sched_okD(2,3) [OF ok] by blast
  obtain d where d: "space s (cur s) d" "d < 10" "0 < dir_references s d" by (rule cur_space [OF inv])
  let ?qs = "qs(Freequeue \<mapsto> fs @ [cur s])"
  have refs: "int_ok (dir_references s d - 1)" using refs_int_ok [OF inv d(2)] by (simp add: int_ok_def)
  have s': "r = Switched" "sched_ok s' (after_next ?qs)" "cur s' = next_of s qs"
    using exit_works [OF ok d(1) q(1) busy refs] run by auto
  define s0 where "s0 = upd_task (cur s) (\<lambda>x. x\<lparr>PID := -1\<rparr>)
    (s\<lparr>dir_references := (dir_references s)(d := dir_references s d - 1)\<rparr>)"
  obtain h where h: "sched_next_rr In_exit (s0\<lparr>lists := h\<rparr>) = Some s'"
    "list_add_tail (Some (TaskNode (cur s))) (Some Freequeue) (lists s) = Some h"
    using run refs get_DIR_pos_space [OF d(1)] d(2)
    by (auto simp: sys_exit_def Let_def s0_def elim!: bind_eq_SomeE)
  let ?s = "s0\<lparr>lists := h\<rparr>"
  have cur: "cur s \<in> live qs" by (rule cur_live [OF ok])
  have live: "live ?qs = live qs - {cur s}" using q(1) by (auto simp: live_def)
  have f: "syms ?s = syms s" "idle_task ?s = idle_task s" "semaphores ?s = semaphores s" "cb ?s = cb s"
    "dir_pages ?s = dir_pages s" "cur ?s = cur s" "cr3 ?s = cr3 s"
    "dir_references ?s = (dir_references s)(d := dir_references s d - 1)"
    "dir_pages_baseAddr (task_of ?s t) = dir_pages_baseAddr (task_of s t)"
    "kernel_esp (task_of ?s t) = kernel_esp (task_of s t)" "stack (tasks ?s t) = stack (tasks s t)" for t
    by (simp_all add: s0_def)
  have sp: "space ?s t k = space s t k" for t k unfolding space_def f ..
  have "{t \<in> live ?qs. space ?s t k} = (if k = d then {t \<in> live qs. space s t k} - {cur s}
      else {t \<in> live qs. space s t k})" for k
    unfolding live sp using d(1) space_unique by auto
  then have "int (card {t \<in> live ?qs. space ?s t k}) = int (card {t \<in> live qs. space s t k}) - (if k = d then 1 else 0)" for k
    using cur d(1) card_Suc_Diff1 [of "{t \<in> live qs. space s t d}" "cur s"] by auto
  then have "spaces_ok ?s ?qs"
    using i(4) unfolding spaces_ok_def live by (auto simp: paging_ok_def sp f(1,5,8))
  moreover have "heads_ok ?s ?qs"
    by (rule heads_ok_cong [OF i(3) f(3)]) (use unlinked_add(2) [OF h(2)] in simp_all)
  moreover have "resumable ?s t = resumable s t" for t unfolding resumable_def cont_ok_def f ..
  moreover have "queued qs \<union> {cur s} \<subseteq> queued ?qs"
  proof -
    have "queued qs \<subseteq> queued ?qs"
    proof (rule queued_subI)
      show "\<exists>r ys. ?qs r = Some ys \<and> x \<in> set ys" if "qs p = Some xs" "x \<in> set xs" for p xs x
        using that q by (intro exI [of _ p]) auto
    qed
    then show ?thesis using queued_member [of ?qs Freequeue "fs @ [cur s]"] by auto
  qed
  moreover have "get_DIR (cur s) ?s = get_DIR (cur s) s" unfolding get_DIR_def f ..
  ultimately have "parked P ?s ?qs"
    using i q(2) d(1) unfolding parked_def placed_def f sp live by auto
  moreover have "cur ?s \<notin> live ?qs" unfolding live f by simp
  moreover have "next_of ?s ?qs = next_of s qs" unfolding next_of_def f by simp
  ultimately show ?thesis using switched [of P ?s ?qs In_exit s'] h s' by (auto intro: after_ok_Switched)
qed

end
