(* ===== verification/KernelSteps.thy ===== *)
theory KernelSteps
  imports KernelProc EntryTheorems
begin

text \<open>
  The kernel as a state machine. In user mode the current process stores to its memory, makes a
  system call with any registers, or is interrupted by the clock or a key; when that gave the
  processor to another task, the machine is in the kernel until the new task is back in user mode.
  \<open>kernel_step\<close> is the relation, over the entry points of \<open>Entry\<close>. Interrupts come in user mode and in
  the idle loop only: every gate of \<open>setIdt\<close>, the one of the system calls included, is an interrupt
  gate, which masks them, so that a routine of the kernel is one step. Any process may make any system
  call at any time, on semaphores that were never initialised or were destroyed as well.

  What is no step, and therefore outside of what is said about reachable states:
  \<^item> a store to a frame below 256, by user code or by the kernel through a user pointer. These frames
    hold the kernel, whose memory is not modelled as bytes. The page table of the first process keeps
    user code out of them, the one of a forked child does not: \<open>sys_fork\<close> maps the pages 0 to 263 of
    the child present, writable and accessible to the user.
  \<^item> an operation whose result is None: the code then has no defined behaviour, and what follows is not
    modelled. The processor reports a fault, whose routine prints a message and loops, or, where a null
    pointer can be followed because the directory is one of a forked child, goes on with garbage.
    Examples are \<open>sem_wait\<close> on a semaphore that was never initialised, \<open>sem_signal\<close> and
    \<open>sem_destroy\<close> with a process waiting, the semaphore number 20, a \<open>write\<close> of more than 256 bytes, and
    an \<open>sbrk\<close> whose arrays do not fit on the kernel stack.
  \<^item> an exception, and the trap \<open>0x82\<close> of \<open>libauxjp.a\<close>, which has semaphores of its own.

  The ring of the keyboard has storage of its own in the model; in the code it is the dead array of
  \<open>circular_buffer_init\<close>, in the kernel stacks of the tasks 2 and 3. The clock display of the library
  is a parameter that only draws (\<open>draws\<close>).
\<close>

section \<open>The idle task\<close>

text \<open>
  The idle task runs in kernel mode: an interrupt pushes only three words, at the stack pointer of its
  loop.
\<close>

definition interrupted_idle :: "nat \<Rightarrow> user_regs \<Rightarrow> kstate \<Rightarrow> nat \<times> kstate" where
  "interrupted_idle sp u s = SAVE_ALL u (fold push [r_eflags u, r_cs u, r_eip u] (sp, s))"

definition clock_on_idle ::
  "(kstate \<Rightarrow> kstate) \<Rightarrow> nat \<Rightarrow> user_regs \<Rightarrow> kstate \<Rightarrow> (unit outcome \<times> kstate) option" where
  "clock_on_idle show_clock sp u s =
     do { s \<leftarrow> switch_user_to_system (snd (interrupted_idle sp u s));
          (r, s) \<leftarrow> clock_interrupt show_clock s;
          case r of
            Switched \<Rightarrow> Some (Switched, s)
          | Return _ \<Rightarrow> do { s \<leftarrow> switch_system_to_user s; Some (Return (), s) } }"

definition key_on_idle :: "Byte \<Rightarrow> nat \<Rightarrow> user_regs \<Rightarrow> kstate \<Rightarrow> kstate option" where
  "key_on_idle key sp u s =
     do { s \<leftarrow> switch_user_to_system (snd (interrupted_idle sp u s));
          s \<leftarrow> keyboard_interrupt key s;
          switch_system_to_user s }"

section \<open>The relation\<close>

datatype mode = In_user | In_kernel

fun mode_of :: "'a outcome \<Rightarrow> mode" where
  "mode_of (Return v) = In_user"
| "mode_of Switched = In_kernel"

inductive kernel_step :: "(kstate \<Rightarrow> kstate) \<Rightarrow> mode \<times> kstate \<Rightarrow> mode \<times> kstate \<Rightarrow> bool"
  for show_clock where
  store: "idle_task s \<noteq> Some (cur s) \<Longrightarrow> store_byte va b s = Some s' \<Longrightarrow>
    kernel_step show_clock (In_user, s) (In_user, s')"
| call: "idle_task s \<noteq> Some (cur s) \<Longrightarrow> system_call_handler u s = Some (r, s') \<Longrightarrow>
    kernel_step show_clock (In_user, s) (mode_of r, s')"
| clock: "idle_task s \<noteq> Some (cur s) \<Longrightarrow> clock_handler show_clock u s = Some (r, s') \<Longrightarrow>
    kernel_step show_clock (In_user, s) (mode_of r, s')"
| key: "idle_task s \<noteq> Some (cur s) \<Longrightarrow> keyboard_handler k u s = Some (u', s') \<Longrightarrow>
    kernel_step show_clock (In_user, s) (In_user, s')"
| idle_clock: "idle_task s = Some (cur s) \<Longrightarrow> clock_on_idle show_clock sp u s = Some (o', s') \<Longrightarrow>
    kernel_step show_clock (In_user, s) (mode_of o', s')"
| idle_key: "idle_task s = Some (cur s) \<Longrightarrow> key_on_idle k sp u s = Some s' \<Longrightarrow>
    kernel_step show_clock (In_user, s) (In_user, s')"
| continue: "resume show_clock s = Some (v, s') \<Longrightarrow>
    kernel_step show_clock (In_kernel, s) (mode_of v, s')"

inductive_cases user_stepE: "kernel_step show_clock (In_user, s) (m, s')"

inductive_simps kernel_step_in_kernel: "kernel_step show_clock (In_kernel, s) (m, s')"

section \<open>Entering and leaving\<close>

lemma after_ok_Switched_any: "after_ok P (Switched :: 'a outcome) s \<Longrightarrow> after_ok P (Switched :: 'b outcome) s"
  by (simp add: after_ok_def)

lemma after_ok_return: "quiet s s' \<Longrightarrow> after_ok P (Return v) s \<Longrightarrow> after_ok P (Return w) s'"
  by (simp add: after_ok_def) (blast intro: kernel_inv_quiet)

lemma syscall_return_quiet: "syscall_return sp v s = Some (u, s') \<Longrightarrow> quiet s s'"
  using quiet_trans [of s "upd_stack (cur s) (sp + 6) v s"] by (auto simp: syscall_return_def switch_eqs)

lemma interrupt_return_quiet: "interrupt_return sp s = Some (u, s') \<Longrightarrow> quiet s s'"
  by (auto simp: interrupt_return_def switch_eqs)

lemma push_quiet: "quiet s (snd m) \<Longrightarrow> quiet s (snd (push v m))"
  by (cases m) (auto simp: push_def quiet_def)

lemma fold_push_quiet: "quiet s (snd m) \<Longrightarrow> quiet s (snd (fold push vs m))"
  by (induction vs arbitrary: m) (simp_all add: push_quiet)

lemma interrupted_idle_quiet: "quiet s (snd (interrupted_idle sp u s))"
  unfolding interrupted_idle_def SAVE_ALL_def by (intro fold_push_quiet) simp

text \<open>A clock that only draws on the screen.\<close>

definition draws :: "(kstate \<Rightarrow> kstate) \<Rightarrow> bool" where
  "draws f \<longleftrightarrow> (\<forall>s. \<exists>v. f s = s\<lparr>video := v\<rparr>)"

lemma draws_quiet: "draws f \<Longrightarrow> quiet s (f s)"
  unfolding draws_def by (metis quiet_video)

section \<open>The steps keep the invariant\<close>

lemma call_routine_inv:
  assumes inv: "kernel_inv P s qs" and busy: "idle_task s \<noteq> Some (cur s)"
    and w: "stack (tasks s (cur s)) 1007 = syscall_ret_at (syms s)"
    and run: "call_routine c a1 a2 a3 s = Some (r, s')"
  shows "after_ok (P - (if c = Sys_sem_init then lost (to_s32 a1) s else {})) r s'"
proof (cases "c = Sys_sem_init")
  case True
  with run obtain v where "sys_sem_init (to_s32 a1) a2 s = Some (v, s')" "r = Return (to_u32 v)"
    by (auto simp: call_routine_def)
  with sem_init_inv [OF inv this(1)] True show ?thesis by (auto intro: after_ok_Return)
next
  case False
  have "after_ok P r s'"
  proof -
    have ret: "after_ok P (Return v) s'" if "\<exists>qs'. kernel_inv P s' qs'" for v :: DWord
      using that by (auto intro: after_ok_Return)
    have quiet: "after_ok P (Return v) s'" if "quiet s s'" for v :: DWord
      using kernel_inv_quiet [OF that inv] by (rule after_ok_Return)
    have out: "after_ok P (case o' of Return v \<Rightarrow> Return (to_u32 v) | Switched \<Rightarrow> Switched) s2"
      if "after_ok P o' s2" for o' s2 using that by (simp add: after_ok_def split: outcome.splits)
    show ?thesis
    proof (cases c)
      case Sys_exit
      with run exit_inv [OF inv busy] show ?thesis by (auto simp: call_routine_def after_ok_def)
    next
      case Sys_fork
      with run fork_inv [OF inv _ w] ret show ?thesis by (auto simp: call_routine_def)
    next
      case Sys_clone
      with run clone_inv [OF inv _ w] ret show ?thesis by (auto simp: call_routine_def)
    next
      case Sys_write
      with run quiet show ?thesis by (auto simp: call_routine_def dest: sys_write_quiet)
    next
      case Sys_sbrk
      with run ret kernel_inv_sbrk [OF inv] show ?thesis by (fastforce simp: call_routine_def)
    next
      case Sys_get_stats
      with run quiet show ?thesis by (auto simp: call_routine_def dest: sys_get_stats_quiet)
    next
      case Sys_sem_signal
      with run sem_signal_inv [OF inv] ret show ?thesis by (auto simp: call_routine_def)
    next
      case Sys_sem_destroy
      with run sem_destroy_inv [OF inv] ret show ?thesis by (auto simp: call_routine_def)
    next
      case Sys_sem_wait
      with run obtain v where "sys_sem_wait (to_s32 a1) s = Some (v, s')"
        "r = (case v of Return v \<Rightarrow> Return (to_u32 v) | Switched \<Rightarrow> Switched)"
        by (auto simp: call_routine_def)
      with sem_wait_inv [OF inv busy] Sys_sem_wait out show ?thesis by auto
    next
      case Sys_read
      with run obtain v where v: "sys_read (to_s32 a1) a2 (to_s32 a3) s = Some (v, s')"
        "r = (case v of Return v \<Rightarrow> Return (to_u32 v) | Switched \<Rightarrow> Switched)"
        by (auto simp: call_routine_def)
      have "after_ok P v s'"
      proof (cases "s' = s \<and> v \<noteq> Switched")
        case True
        with inv show ?thesis by (auto simp: after_ok_def)
      next
        case False
        with v(1) have "read_resumed a2 (to_s32 a3) (upd_kb (\<lambda>_. \<lparr>to_read = to_s32 a3, already_read = 0\<rparr>) s)
            = Some (v, s')"
          by (auto simp: sys_read_def sys_read_keyboard_def Let_def split: if_splits)
        from read_resumed_inv [OF this kernel_inv_quiet [OF _ inv]] busy show ?thesis by simp
      qed
      with v(2) out show ?thesis by simp
    qed (use run quiet False in \<open>auto simp: call_routine_def sys_ni_syscall_def sys_gettime_def sys_getpid_def\<close>)
  qed
  with False show ?thesis by simp
qed

text \<open>The tasks that a system call loses: only a call of \<open>sem_init\<close>, number 21, loses any.\<close>

definition forgotten :: "user_regs \<Rightarrow> kstate \<Rightarrow> nat set" where
  "forgotten u s = (if to_s32 (r_eax u) = 21 then lost (to_s32 (r_ebx u)) s else {})"

lemma lost_called [simp]: "lost n (called u s) = lost n s"
proof -
  have "in_queue (called u s) = in_queue s" by (simp add: in_queue_def fun_eq_iff)
  then show ?thesis by (simp add: lost_def)
qed

lemma system_call_inv:
  assumes inv: "kernel_inv P s qs" and busy: "idle_task s \<noteq> Some (cur s)"
    and run: "system_call_handler u s = Some (r, s')"
  shows "after_ok (P - forgotten u s) r s'"
proof -
  note len = sys_call_table_length
  note esp0 = kernel_invD(8) [OF inv]
  let ?n = "to_s32 (r_eax u)"
  show ?thesis
  proof (cases "0 \<le> ?n \<and> ?n < 36")
    case True
    then obtain n where n: "?n = int n" "n < 36" by (metis zero_le_imp_eq_int of_nat_less_iff of_nat_numeral)
    let ?c = "sys_call_table ! n"
    obtain v s1 where v: "call_routine ?c (r_ebx u) (r_ecx u) (r_edx u) (called u s) = Some (v, s1)"
      "(case v of Switched \<Rightarrow> Some (Switched, s1)
        | Return v \<Rightarrow> do { (u', s') \<leftarrow> syscall_return 1008 v s1; Some (Return u', s') }) = Some (r, s')"
      using run unfolding dispatch [OF esp0 n] by (auto elim!: bind_eq_SomeE)
    have "?c = Sys_sem_init \<longleftrightarrow> n = 21"
      using n(2) by (simp add: sys_call_table_def nth_Cons' split: if_splits)
    with n(1) call_routine_inv [OF kernel_inv_quiet [OF _ inv] _ _ v(1)] busy
    have "after_ok (P - forgotten u s) v s1" by (simp add: forgotten_def split: if_splits)
    with v(2) show ?thesis
      using after_ok_return [OF syscall_return_quiet]
      by (auto split: outcome.splits elim!: bind_eq_SomeE intro: after_ok_Switched_any)
  next
    case False
    have "?n \<noteq> 36" using run dispatch_limit [OF esp0, of u] by auto
    with False have "?n < 0 \<or> 36 < ?n" by linarith
    with run obtain u' where u': "syscall_return 1008 (to_u32 (-38)) (entered u s) = Some (u', s')" "r = Return u'"
      by (auto simp: system_call_handler_def save_stack [OF esp0] switch_eqs entered_def [symmetric]
          MAX_SYSCALL_def len elim!: bind_eq_SomeE)
    have "quiet s s'" by (rule quiet_trans [OF _ syscall_return_quiet [OF u'(1)]]) simp
    from kernel_inv_mono [OF kernel_inv_quiet [OF this inv], of "P - forgotten u s"] u'(2) show ?thesis
      by (auto intro: after_ok_Return)
  qed
qed

lemma clock_interrupt_inv:
  assumes inv: "kernel_inv P s qs" and dr: "draws show_clock"
    and run: "clock_interrupt show_clock s = Some (r, s')"
  shows "after_ok P r s'"
proof -
  obtain z v s1 where 1: "update_sched_data_rr (s\<lparr>zeos_ticks := z\<rparr>) = Some (v, s1)"
    "(case v of Switched \<Rightarrow> Some (Switched, s1) | Return _ \<Rightarrow> Some (Return (), show_clock s1)) = Some (r, s')"
    using run by (auto simp: clock_interrupt_def elim!: bind_eq_SomeE)
  have "after_ok P v s1" by (rule tick_inv [OF kernel_inv_quiet [OF _ inv] 1(1)]) simp
  with 1(2) after_ok_return [OF draws_quiet [OF dr]] show ?thesis by (auto split: outcome.splits)
qed

lemma clock_handler_inv:
  assumes inv: "kernel_inv P s qs" and dr: "draws show_clock"
    and run: "clock_handler show_clock u s = Some (r, s')"
  shows "after_ok P r s'"
proof -
  obtain v s1 where 1: "clock_interrupt show_clock (entered u s) = Some (v, s1)"
    "(case v of Switched \<Rightarrow> Some (Switched, s1)
      | Return _ \<Rightarrow> do { (u, s) \<leftarrow> interrupt_return 1008 s1; Some (Return u, s) }) = Some (r, s')"
    using run by (auto simp: clock_handler_def save_stack [OF kernel_invD(8) [OF inv]] switch_eqs
        entered_def [symmetric] elim!: bind_eq_SomeE)
  have "after_ok P v s1" by (rule clock_interrupt_inv [OF kernel_inv_quiet [OF _ inv] dr 1(1)]) simp
  with 1(2) after_ok_return [OF interrupt_return_quiet] show ?thesis
    by (auto split: outcome.splits elim!: bind_eq_SomeE intro: after_ok_Switched_any)
qed

lemma keyboard_handler_inv:
  assumes inv: "kernel_inv P s qs" and run: "keyboard_handler k u s = Some (u', s')"
  shows "\<exists>qs'. kernel_inv P s' qs'"
proof -
  obtain s1 where 1: "keyboard_interrupt k (entered u s) = Some s1" "interrupt_return 1008 s1 = Some (u', s')"
    using run by (auto simp: keyboard_handler_def save_stack [OF kernel_invD(8) [OF inv]] switch_eqs
        entered_def [symmetric] elim!: bind_eq_SomeE)
  obtain qs' where "kernel_inv P s1 qs'"
    using key_inv [OF kernel_inv_quiet [OF _ inv] 1(1)] by auto
  with kernel_inv_quiet [OF interrupt_return_quiet [OF 1(2)]] show ?thesis by blast
qed

lemma idle_entered:
  assumes "kernel_inv P s qs" and "switch_user_to_system (snd (interrupted_idle sp u s)) = Some s1"
  shows "kernel_inv P s1 qs"
proof (rule kernel_inv_quiet [OF _ assms(1)])
  have "quiet (snd (interrupted_idle sp u s)) s1" using assms(2) by (auto simp: switch_eqs)
  with interrupted_idle_quiet show "quiet s s1" by (rule quiet_trans)
qed

lemma idle_clock_inv:
  assumes inv: "kernel_inv P s qs" and dr: "draws show_clock"
    and run: "clock_on_idle show_clock sp u s = Some (r, s')"
  shows "after_ok P r s'"
proof -
  obtain s1 v s2 where 1: "switch_user_to_system (snd (interrupted_idle sp u s)) = Some s1"
    "clock_interrupt show_clock s1 = Some (v, s2)"
    "(case v of Switched \<Rightarrow> Some (Switched, s2)
      | Return _ \<Rightarrow> do { s \<leftarrow> switch_system_to_user s2; Some (Return (), s) }) = Some (r, s')"
    using run unfolding clock_on_idle_def by (auto elim!: bind_eq_SomeE)
  have "after_ok P v s2" by (rule clock_interrupt_inv [OF idle_entered [OF inv 1(1)] dr 1(2)])
  with 1(3) after_ok_return [of s2 "charge system_ticks_update (cur s2) s2"] show ?thesis
    by (auto simp: switch_eqs split: outcome.splits)
qed

lemma idle_key_inv:
  assumes inv: "kernel_inv P s qs" and run: "key_on_idle k sp u s = Some s'"
  shows "\<exists>qs'. kernel_inv P s' qs'"
proof -
  obtain s1 s2 where 1: "switch_user_to_system (snd (interrupted_idle sp u s)) = Some s1"
    "keyboard_interrupt k s1 = Some s2" "switch_system_to_user s2 = Some s'"
    using run unfolding key_on_idle_def by (auto elim!: bind_eq_SomeE)
  obtain qs' where q: "kernel_inv P s2 qs'" using key_inv [OF idle_entered [OF inv 1(1)] 1(2)] by blast
  have "quiet s2 s'" using 1(3) by (auto simp: switch_eqs)
  then show ?thesis using kernel_inv_quiet [OF _ q] by blast
qed

section \<open>Coming back from a switch\<close>

lemma CONTEXT_value [simp]: "CONTEXT = 1008"
  by (simp add: CONTEXT_def)

text \<open>A task that can be resumed is at one of its stopping places.\<close>

lemma resumable_target:
  assumes "resumable s (cur s)" and "paging_ok s"
  obtains n where "switch_target s = Some (Routine (In_sem_wait n))" "0 \<le> n" "n < 20"
  | buf n where "switch_target s = Some (Routine (In_read buf n))" "idle_task s \<noteq> Some (cur s)"
  | "switch_target s = Some (Routine In_clock)"
  | "switch_target s = Some (At_ret_from_fork 1007)" "stack (tasks s (cur s)) 1007 = syscall_ret_at (syms s)"
  | "switch_target s = Some At_cpu_idle" "idle_task s = Some (cur s)"
proof (cases "kernel_esp (task_of s (cur s))")
  case (Frames k)
  with assms that show ?thesis
    by (cases k) (auto simp: resumable_def cont_ok_def switch_target_def)
next
  case (Esp a)
  have "unat (stack_addr (syms s) (cur s) i - task_addr (syms s) (cur s)) div 4 = i" if "i < 1024" for i
    using that by (simp add: stack_addr_def unsigned_of_nat take_bit_nat_eq_self del: of_nat_mult)
  then have at: "switch_target s = (if stack (tasks s (cur s)) (i + 1) = ret_from_fork_at (syms s)
      then Some (At_ret_from_fork (i + 2))
      else if stack (tasks s (cur s)) (i + 1) = cpu_idle_at (syms s) then Some At_cpu_idle else None)"
    if "a = stack_addr (syms s) (cur s) i" "i < 1024" for i
    using Esp that by (simp add: switch_target_def Let_def)
  have "ret_from_fork_at (syms s) \<noteq> cpu_idle_at (syms s)"
    using assms(2) by (simp add: paging_ok_def symbols_ok_def)
  with assms(1) Esp that(4,5) at [of 1005] at [of 1022] show ?thesis
    by (auto simp: resumable_def)
qed

lemma resume_inv:
  assumes inv: "kernel_inv P s qs" and res: "resumable s (cur s)" and dr: "draws show_clock"
    and run: "resume show_clock s = Some (r, s')"
  shows "after_ok P r s'"
proof -
  have ret: "after_ok P (Return v) s'" if "syscall_return sp e s = Some (u, s')" for sp e u and v :: "user_regs option"
    using kernel_inv_quiet [OF syscall_return_quiet [OF that] inv] by (rule after_ok_Return)
  from res kernel_invD(5) [OF inv] show ?thesis
  proof (rule resumable_target)
    fix n assume "switch_target s = Some (Routine (In_sem_wait n))" "0 \<le> n" "n < 20"
    with run ret show ?thesis
      by (auto simp: resume_def sem_wait_resumed_def sem_in_def split: if_splits elim!: bind_eq_SomeE)
  next
    fix buf n assume t: "switch_target s = Some (Routine (In_read buf n))" "idle_task s \<noteq> Some (cur s)"
    with run obtain v s1 where v: "read_resumed buf n s = Some (v, s1)"
      "(case v of Switched \<Rightarrow> Some (Switched, s1)
        | Return v \<Rightarrow> do { (u, s) \<leftarrow> syscall_return CONTEXT (to_u32 v) s1; Some (Return (Some u), s) }) = Some (r, s')"
      by (auto simp: resume_def elim!: bind_eq_SomeE)
    from read_resumed_inv [OF v(1) inv t(2)] v(2) after_ok_return [OF syscall_return_quiet] show ?thesis
      by (auto split: outcome.splits elim!: bind_eq_SomeE intro: after_ok_Switched_any)
  next
    assume t: "switch_target s = Some (Routine In_clock)"
    have q: "quiet s (show_clock s)" by (rule draws_quiet [OF dr])
    have "quiet s s' \<and> r \<noteq> Switched"
      using run t quiet_trans [OF q interrupt_return_quiet] quiet_trans [OF q, of "charge _ _ _"]
      by (auto simp: resume_def switch_eqs split: if_splits elim!: bind_eq_SomeE)
    with kernel_inv_quiet [OF _ inv] show ?thesis by (auto simp: after_ok_def)
  next
    assume "switch_target s = Some (At_ret_from_fork 1007)"
    with run ret show ?thesis by (auto simp: resume_def split: if_splits elim!: bind_eq_SomeE)
  next
    assume "switch_target s = Some At_cpu_idle"
    with run inv show ?thesis by (auto simp: resume_def intro: after_ok_Return)
  qed
qed

section \<open>Reachable states\<close>

definition state_inv :: "nat set \<Rightarrow> mode \<times> kstate \<Rightarrow> bool" where
  "state_inv P ms \<longleftrightarrow> (\<exists>qs. kernel_inv P (snd ms) qs) \<and> (fst ms = In_kernel \<longrightarrow> resumable (snd ms) (cur (snd ms)))"

lemma state_inv_after: "after_ok P r s \<Longrightarrow> state_inv P (mode_of r, s)"
  by (cases r) (auto simp: state_inv_def after_ok_def)

text \<open>A step keeps the invariant, and the places of the tasks unless it is a system call that loses some.\<close>

lemma kernel_step_places:
  assumes "kernel_step show_clock a b" and "draws show_clock" and "state_inv P a"
  shows "state_inv P b \<or> (\<exists>u r. fst a = In_user \<and> system_call_handler u (snd a) = Some (r, snd b) \<and>
    state_inv (P - forgotten u (snd a)) b)"
  using assms(1,3)
proof (induction rule: kernel_step.induct)
  case (store s va b s')
  then have "quiet s s'" using store_byte_ram [of va b s s' s] by auto
  moreover obtain qs where "kernel_inv P s qs" using store by (auto simp: state_inv_def)
  ultimately have "kernel_inv P s' qs" by (rule kernel_inv_quiet)
  then show ?case by (auto simp: state_inv_def)
next
  case (call s u r s')
  then obtain qs where "kernel_inv P s qs" by (auto simp: state_inv_def)
  from state_inv_after [OF system_call_inv [OF this call(1,2)]] call(2) show ?case by auto
next
  case (clock s u r s')
  then obtain qs where "kernel_inv P s qs" by (auto simp: state_inv_def)
  from state_inv_after [OF clock_handler_inv [OF this assms(2) clock(2)]] show ?case by blast
next
  case (key s k u u' s')
  then obtain qs where "kernel_inv P s qs" by (auto simp: state_inv_def)
  from keyboard_handler_inv [OF this key(2)] show ?case by (simp add: state_inv_def)
next
  case (idle_clock s sp u r s')
  then obtain qs where "kernel_inv P s qs" by (auto simp: state_inv_def)
  from state_inv_after [OF idle_clock_inv [OF this assms(2) idle_clock(2)]] show ?case by blast
next
  case (idle_key s k sp u s')
  then obtain qs where "kernel_inv P s qs" by (auto simp: state_inv_def)
  from idle_key_inv [OF this idle_key(2)] show ?case by (simp add: state_inv_def)
next
  case (continue s r s')
  then obtain qs where "kernel_inv P s qs" "resumable s (cur s)" by (auto simp: state_inv_def)
  from state_inv_after [OF resume_inv [OF this assms(2) continue(1)]] show ?case by blast
qed

lemma kernel_step_inv:
  "kernel_step show_clock a b \<Longrightarrow> draws show_clock \<Longrightarrow> state_inv {} a \<Longrightarrow> state_inv {} b"
  using kernel_step_places [of show_clock a b "{}"] by auto

lemma reachable_inv:
  assumes "(kernel_step show_clock)\<^sup>*\<^sup>* a b" and "draws show_clock" and "state_inv {} a"
  shows "state_inv {} b"
  using assms(1)
  by (induction rule: rtranclp_induct) (auto intro: assms(3) kernel_step_inv [OF _ assms(2)])

text \<open>The state in which the first process starts.\<close>

lemma first_process_inv:
  assumes "first_process s"
  shows "kernel_inv {..<NR_TASKS} s first_queues"
proof -
  note f = assms [unfolded first_process_def]
  have free: "first_queues Freequeue = Some [7, 6, 5, 4, 3, 2, 1, 0]"
    by (simp add: first_queues_def)
  have nine: "{..<10 :: nat} = {0, 1, 2, 3, 4, 5, 6, 7, 8, 9}" by auto
  have "live first_queues = {..<10} - set [7, 6, 5, 4, 3, 2, 1, 0]"
    unfolding live_def free by auto
  then have live: "live first_queues = {8, 9}" unfolding nine by auto
  have "{..<NR_TASKS} \<subseteq> placed s first_queues"
    using f unfolding placed_def sched_values nine first_queues_queued by simp
  moreover have "heads_ok s first_queues"
    using f by (simp add: heads_ok_def first_queues_def boot_queues_def)
  moreover have "spaces_ok s first_queues"
  proof -
    have sp: "space s 8 1" "space s 9 0" using f by simp_all
    have iff: "space s 8 i \<longleftrightarrow> i = 1" "space s 9 i \<longleftrightarrow> i = 0" for i
      using sp space_unique by blast+
    have "{t \<in> live first_queues. space s t i} = (if i = 0 then {9} else if i = 1 then {8} else {})" for i
      unfolding live by (auto simp: iff)
    then show ?thesis using f sp unfolding spaces_ok_def live by (auto simp: in_space_def)
  qed
  moreover have "resumable s 9" using f by (simp add: resumable_def)
  ultimately show ?thesis
    using f unfolding kernel_inv_def live by (auto simp: in_space_def space_def get_DIR_def)
qed

lemma reachable_state:
  assumes "first_process s0" and "draws show_clock"
    and "(kernel_step show_clock)\<^sup>*\<^sup>* (In_user, s0) (m, s)"
  obtains qs where "kernel_inv {} s qs" "m = In_kernel \<longrightarrow> resumable s (cur s)"
proof -
  have "state_inv {} (In_user, s0)"
    using kernel_inv_mono [OF first_process_inv [OF assms(1)] empty_subsetI] by (auto simp: state_inv_def)
  from reachable_inv [OF assms(3,2) this] that show ?thesis by (auto simp: state_inv_def)
qed

end
