(* ===== verification/StepTheorems.thy ===== *)
theory StepTheorems
  imports KernelSteps
begin

text \<open>
  The properties of the kernel as a state machine: what holds in every state that the first process
  can lead to by \<open>kernel_step\<close>, in any order of system calls, stores, clock ticks and keys.
  \<open>KernelSteps\<close> says what is no step: stores to kernel frames, behaviour that C leaves undefined,
  exceptions and the trap of the library.
\<close>

section \<open>Two runs\<close>

text \<open>The first process exits, and the idle task gets the processor.\<close>

lemma sample_exit: "\<exists>s'. kernel_step (\<lambda>s. s) (In_user, sample) (In_kernel, s')"
proof -
  note f = sample_first [unfolded first_process_def]
  let ?u = "sample_regs 1"
  have n: "to_s32 (r_eax ?u) = int 1" by (simp add: to_s32_small)
  have "sched_ok (called ?u sample) first_queues" "space (called ?u sample) (cur (called ?u sample)) 1"
    "idle_task (called ?u sample) \<noteq> Some (cur (called ?u sample))"
    "int_ok (dir_references (called ?u sample) 1 - 1)"
    using f by (simp_all add: int_ok_def)
  then obtain s' where s': "sys_exit (called ?u sample) = Some (Switched, s')"
    using exit_works [of "called ?u sample" first_queues 1 "[7, 6, 5, 4, 3, 2, 1, 0]"]
    by (auto simp: first_queues_def)
  have "sys_call_table ! 1 = Sys_exit" by (simp add: sys_call_table_def)
  with dispatch [OF sample_esp0 n] s' have "system_call_handler ?u sample = Some (Switched, s')"
    by (simp add: call_routine_def)
  moreover have "idle_task sample \<noteq> Some (cur sample)" using f by simp
  ultimately have "kernel_step (\<lambda>s. s) (In_user, sample) (mode_of (Switched :: user_regs outcome), s')"
    by (intro kernel_step.call)
  then show ?thesis by auto
qed

lemma sample_exit_reach:
  "\<exists>s'. kernel_step (\<lambda>s. s) (In_user, sample) (In_kernel, s') \<and>
    (kernel_step (\<lambda>s. s))\<^sup>*\<^sup>* (In_user, sample) (In_kernel, s')"
  using sample_exit by (blast intro: r_into_rtranclp)

lemma draws_id: "draws (\<lambda>s. s)"
  unfolding draws_def
proof
  show "\<exists>v. s = s\<lparr>video := v\<rparr>" for s :: kstate by (rule exI [of _ "video s"]) simp
qed

lemma placed_state: "state_inv {t} (m, s) \<Longrightarrow> has_place s t"
  using has_place_iff kernel_invD(6) by (fastforce simp: state_inv_def)

lemma forgotten_by:
  assumes "t \<in> forgotten u s" and "m = In_user" and "system_call_handler u s = Some (r, s')"
  shows "\<exists>u r n. m = In_user \<and> system_call_handler u s = Some (r, s') \<and> to_s32 (r_eax u) = 21 \<and>
    to_s32 (r_ebx u) = int n \<and> n < NR_SEMAPHORES \<and> owner (semaphores s n) = -1 \<and> in_queue s (SemQueue n) t"
  using assms
  by (intro exI [of _ u] exI [of _ r] exI [of _ "nat (to_s32 (r_ebx u))"])
    (auto simp: forgotten_def lost_def split: if_splits)

section \<open>Properties\<close>

text \<open>
  C3: The invariant of the kernel holds in every reachable state: the queues are well-formed lists,
  the marks of the tasks agree with the queues they are in, the head of a semaphore's queue is such a
  list or was never touched, the key ring is well formed, the processor runs in the directory and on
  the kernel stack of the current task, every task that is not free has a directory, and each
  reference count is the number of these tasks in its directory. (The set of tasks that
  \<open>kernel_inv\<close> must find a place for is empty here: see C8.) Reachable is meant by \<open>kernel_step\<close>: as
  long as nobody stores to kernel frames or uses the trap of the library, and the code has a defined
  behaviour.
\<close>

theorem kernel_keeps_invariant:
  assumes "first_process s0" and "draws show_clock"
    and "(kernel_step show_clock)\<^sup>*\<^sup>* (In_user, s0) (m, s)"
  shows "\<exists>qs. kernel_inv {} s qs"
  by (rule reachable_state [OF assms]) blast

theorem kernel_keeps_invariant_witness:
  "\<exists>s' qs. kernel_step (\<lambda>s. s) (In_user, sample) (In_kernel, s') \<and> kernel_inv {} s' qs"
proof -
  obtain s' where s': "kernel_step (\<lambda>s. s) (In_user, sample) (In_kernel, s')"
    "(kernel_step (\<lambda>s. s))\<^sup>*\<^sup>* (In_user, sample) (In_kernel, s')" using sample_exit_reach by blast
  from s'(1) kernel_keeps_invariant [OF sample_first draws_id s'(2)] show ?thesis by blast
qed

text \<open>
  C8: In every reachable state the running task waits in no queue, and no task waits in two. At first
  every task has a place: it runs, is the idle task, or waits in a queue. A step takes no task's place
  away, with one exception, which the code has: a system call \<open>sem_init\<close> for a semaphore without owner in
  whose queue the task waits. (\<open>sem_wait\<close> lets a process wait for a destroyed semaphore.) Reachable
  and step are meant by \<open>kernel_step\<close>: no stores to kernel frames, no trap of the library, defined
  behaviour only.
\<close>

theorem tasks_in_one_place:
  assumes "first_process s0" and "draws show_clock"
    and "(kernel_step show_clock)\<^sup>*\<^sup>* (In_user, s0) (m, s)"
    and "kernel_step show_clock (m, s) (m', s')"
  shows "(\<forall>t < NR_TASKS. has_place s0 t) \<and>
    (\<forall>q \<in> queue_heads. \<not> in_queue s q (cur s)) \<and>
    (\<forall>q \<in> queue_heads. \<forall>r \<in> queue_heads. \<forall>t. in_queue s q t \<and> in_queue s r t \<longrightarrow> q = r) \<and>
    (\<forall>t. has_place s t \<longrightarrow> has_place s' t \<or>
      (\<exists>u r n. m = In_user \<and> system_call_handler u s = Some (r, s') \<and> to_s32 (r_eax u) = 21 \<and>
        to_s32 (r_ebx u) = int n \<and> n < NR_SEMAPHORES \<and> owner (semaphores s n) = -1 \<and>
        in_queue s (SemQueue n) t))"
proof -
  obtain qs where inv: "kernel_inv {} s qs" "m = In_kernel \<longrightarrow> resumable s (cur s)"
    by (rule reachable_state [OF assms(1-3)])
  note ok = sched_okD [OF kernel_invD(1) [OF inv(1)]] and iff = in_queue_iff [OF inv(1)]
  have first: "\<forall>t < NR_TASKS. has_place s0 t"
    using has_place_iff [OF first_process_inv [OF assms(1)]] kernel_invD(6) [OF first_process_inv [OF assms(1)]]
    by auto
  have running: "\<forall>q \<in> queue_heads. \<not> in_queue s q (cur s)"
    using ok(7) iff by (auto simp: queued_def ran_def)
  have one: "\<forall>q \<in> queue_heads. \<forall>r \<in> queue_heads. \<forall>t. in_queue s q t \<and> in_queue s r t \<longrightarrow> q = r"
    using iff queues_disjoint [OF ok(1)] by blast
  have "has_place s' t \<or> (\<exists>u r n. m = In_user \<and> system_call_handler u s = Some (r, s') \<and> to_s32 (r_eax u) = 21 \<and>
      to_s32 (r_ebx u) = int n \<and> n < NR_SEMAPHORES \<and> owner (semaphores s n) = -1 \<and> in_queue s (SemQueue n) t)"
    if t: "has_place s t" for t
  proof -
    have "kernel_inv {t} s qs" using inv(1) t has_place_iff [OF inv(1)] by (simp add: kernel_inv_def)
    then have "state_inv {t} (m, s)" using inv(2) by (auto simp: state_inv_def)
    from kernel_step_places [OF assms(4,2) this] consider "state_inv {t} (m', s')"
      | u r where "m = In_user" "system_call_handler u s = Some (r, s')" "state_inv ({t} - forgotten u s) (m', s')"
      by auto
    then show ?thesis
    proof cases
      case 1
      then show ?thesis by (rule placed_state [THEN disjI1])
    next
      case 2
      show ?thesis
      proof (cases "t \<in> forgotten u s")
        case True
        with 2(1,2) show ?thesis by (intro disjI2) (rule forgotten_by)
      next
        case False
        then have "{t} - forgotten u s = {t}" by auto
        with 2(3) have "state_inv {t} (m', s')" by simp
        then show ?thesis by (rule placed_state [THEN disjI1])
      qed
    qed
  qed
  with first running one show ?thesis by blast
qed

theorem tasks_in_one_place_witness:
  "\<exists>s'. kernel_step (\<lambda>s. s) (In_user, sample) (In_kernel, s') \<and> has_place s' 8"
proof -
  obtain s' where s': "kernel_step (\<lambda>s. s) (In_user, sample) (In_kernel, s')" using sample_exit by blast
  have "\<not> in_queue sample (SemQueue n) 8" for n
    using sample_first unlinked_unusable(4) [of "lists sample" "SemQueue n"]
    by (simp add: first_process_def in_queue_def)
  moreover have "has_place sample 8" using sample_first by (simp add: first_process_def has_place_def)
  ultimately have "has_place s' 8"
    using tasks_in_one_place [OF sample_first draws_id rtranclp.rtrancl_refl s'] by blast
  with s' show ?thesis by blast
qed

text \<open>
  C7: A task switch always arrives: in every reachable state inside the kernel the task that was
  chosen has a place to go on, and it goes on, but for a read, which may still fault on the buffer of
  the process. Reachable is meant by \<open>kernel_step\<close>: no stores to kernel frames, no trap of the
  library, defined behaviour only.
\<close>

theorem switch_arrives:
  assumes "first_process s0" and "draws show_clock"
    and "(kernel_step show_clock)\<^sup>*\<^sup>* (In_user, s0) (In_kernel, s)"
  shows "\<exists>t. switch_target s = Some t \<and> t \<noteq> Routine In_exit \<and>
    (resume show_clock s \<noteq> None \<or> (\<exists>buf n. t = Routine (In_read buf n)))"
proof -
  obtain qs where "kernel_inv {} s qs" "resumable s (cur s)" by (rule reachable_state [OF assms]) simp
  from this(2) kernel_invD(5) [OF this(1)] show ?thesis
    by (rule resumable_target)
      (auto simp: resume_def sem_wait_resumed_def sem_in_def syscall_return_def interrupt_return_def switch_eqs)
qed

theorem switch_arrives_witness:
  "\<exists>s' t. kernel_step (\<lambda>s. s) (In_user, sample) (In_kernel, s') \<and> switch_target s' = Some t \<and> t \<noteq> Routine In_exit"
proof -
  obtain s' where s': "kernel_step (\<lambda>s. s) (In_user, sample) (In_kernel, s')"
    "(kernel_step (\<lambda>s. s))\<^sup>*\<^sup>* (In_user, sample) (In_kernel, s')" using sample_exit_reach by blast
  from s'(1) switch_arrives [OF sample_first draws_id s'(2)] show ?thesis by blast
qed

text \<open>
  C9: The kernel knows whose stack it is on: in every reachable state, for a stack pointer anywhere in
  the kernel stack that the TSS names, \<open>current\<close> is the address of the running task, and of no other
  one. Reachable is meant by \<open>kernel_step\<close>: no stores to kernel frames, no trap of the library,
  defined behaviour only.
\<close>

theorem current_finds_task:
  assumes "first_process s0" and "draws show_clock"
    and "(kernel_step show_clock)\<^sup>*\<^sup>* (In_user, s0) (m, s)" and "0 < d" and "d \<le> 4096"
  shows "current (tss_esp0 s - of_nat d) = task_addr (syms s) (cur s) \<and>
    (\<forall>t < NR_TASKS. current (tss_esp0 s - of_nat d) = task_addr (syms s) t \<longrightarrow> t = cur s)"
proof -
  obtain qs where inv: "kernel_inv {} s qs" by (rule reachable_state [OF assms(1-3)])
  have y: "symbols_ok (syms s)" and c: "cur s < 10"
    using kernel_invD(5) [OF inv] sched_okD(5) [OF kernel_invD(1) [OF inv]] by (simp_all add: paging_ok_def)
  have "current (tss_esp0 s - of_nat d) = task_addr (syms s) (cur s)"
    unfolding kernel_invD(8) [OF inv] by (rule current_task [OF y c assms(4,5)])
  then show ?thesis using task_addr_inj [OF y c] by auto
qed

theorem current_finds_task_witness:
  "\<exists>s'. kernel_step (\<lambda>s. s) (In_user, sample) (In_kernel, s') \<and>
    current (tss_esp0 s' - 64) = task_addr (syms s') (cur s')"
proof -
  obtain s' where s': "kernel_step (\<lambda>s. s) (In_user, sample) (In_kernel, s')"
    "(kernel_step (\<lambda>s. s))\<^sup>*\<^sup>* (In_user, sample) (In_kernel, s')" using sample_exit_reach by blast
  from s'(1) current_finds_task [OF sample_first draws_id s'(2), of 64] show ?thesis by auto
qed

end
