(* ===== verification/SpaceInv.thy ===== *)
theory SpaceInv
  imports KernelSteps
begin

text \<open>
  Whose memory is whose. \<open>maps_ok\<close> is the invariant of page tables and frame marks: the frames of
  mapped pages are marked used, the frame of a data or heap page is mapped nowhere else, and the
  processes have their data pages. \<open>isolated\<close> is what a step leaves alone: the page tables of the
  other address spaces that are in use, and the memory that is neither mapped in the current
  address space nor was free.
\<close>

section \<open>The invariant of the page tables\<close>

definition mapped :: "kstate \<Rightarrow> nat \<Rightarrow> nat \<Rightarrow> bool" where
  "mapped s d p \<longleftrightarrow> d < NR_TASKS \<and> p < TOTAL_PAGES \<and> pagusr_table s d p \<noteq> 0"

definition owned :: "kstate \<Rightarrow> nat \<Rightarrow> nat \<Rightarrow> bool" where
  "owned s d p \<longleftrightarrow> mapped s d p \<and> PAG_LOG_INIT_DATA \<le> p"

definition frames_once :: "kstate \<Rightarrow> bool" where
  "frames_once s \<longleftrightarrow>
     (\<forall>d p. mapped s d p \<longrightarrow> phys_mem s (frame_of s d p) \<noteq> FREE_FRAME) \<and>
     (\<forall>d p. owned s d p \<longrightarrow> NUM_PAG_KERNEL \<le> frame_of s d p) \<and>
     (\<forall>d p e q. owned s d p \<longrightarrow> mapped s e q \<longrightarrow> frame_of s d p = frame_of s e q \<longrightarrow> d = e \<and> p = q)"

text \<open>The idle task has a directory of its own; every other directory in use has its data pages.\<close>

definition dirs_in_use :: "kstate \<Rightarrow> bool" where
  "dirs_in_use s \<longleftrightarrow>
     (\<exists>n k. idle_task s = Some n \<and> space s n k \<and> dir_references s k = 1 \<and>
       (\<forall>i < NR_TASKS. i \<noteq> k \<longrightarrow> dir_references s i \<noteq> 0 \<longrightarrow> data_pages_ok s i))"

definition maps_ok :: "kstate \<Rightarrow> bool" where
  "maps_ok s \<longleftrightarrow> phys_mem s 0 \<noteq> FREE_FRAME \<and> phys_mem s NUM_PAG_KERNEL \<noteq> FREE_FRAME \<and>
     frames_once s \<and> dirs_in_use s"

lemma maps_okD:
  assumes "maps_ok s"
  shows "phys_mem s 0 \<noteq> 0" "256 \<notin> avail (phys_mem s)"
    "mapped s d p \<Longrightarrow> phys_mem s (frame_of s d p) \<noteq> 0" "owned s d p \<Longrightarrow> 256 \<le> frame_of s d p"
    "owned s d p \<Longrightarrow> mapped s e q \<Longrightarrow> frame_of s d p = frame_of s e q \<Longrightarrow> d = e \<and> p = q"
    "dirs_in_use s" "frames_once s"
  using assms unfolding maps_ok_def frames_once_def avail_def by simp_all

lemma owned_mapped: "owned s d p \<Longrightarrow> mapped s d p"
  by (simp add: owned_def)

lemma owned_iff: "owned s d p \<longleftrightarrow> mapped s d p \<and> 264 \<le> p"
  by (simp add: owned_def)

section \<open>Steps that leave the page tables alone\<close>

definition same_maps :: "kstate \<Rightarrow> kstate \<Rightarrow> bool" where
  "same_maps s s' \<longleftrightarrow> syms s' = syms s \<and> idle_task s' = idle_task s \<and> dir_pages s' = dir_pages s \<and>
     pagusr_table s' = pagusr_table s \<and> phys_mem s' = phys_mem s \<and>
     (\<forall>n. idle_task s = Some n \<longrightarrow>
        dir_pages_baseAddr (task_of s' n) = dir_pages_baseAddr (task_of s n))"

text \<open>No reference count changes, and only memory of the current address space does.\<close>

definition moved :: "kstate \<Rightarrow> kstate \<Rightarrow> bool" where
  "moved s s' \<longleftrightarrow> same_maps s s' \<and> dir_references s' = dir_references s \<and>
     (\<forall>f. f \<notin> own_frames s \<longrightarrow> ram s' f = ram s f)"

definition still :: "kstate \<Rightarrow> kstate \<Rightarrow> bool" where
  "still s s' \<longleftrightarrow> same_maps s s' \<and> dir_references s' = dir_references s \<and> ram s' = ram s"

lemma still_moved: "still s s' \<Longrightarrow> moved s s'"
  by (simp add: still_def moved_def)

lemma still_refl [simp]: "still s s"
  by (simp add: still_def same_maps_def)

lemma moved_refl [simp]: "moved s s"
  by (simp add: still_moved)

lemma still_trans: "still s s1 \<Longrightarrow> still s1 s2 \<Longrightarrow> still s s2"
  by (simp add: still_def same_maps_def)

lemma moved_still: "moved s s1 \<Longrightarrow> still s1 s2 \<Longrightarrow> moved s s2"
  by (simp add: still_def moved_def same_maps_def)

lemma quiet_moved: "quiet s s' \<Longrightarrow> moved s s'"
  by (simp add: quiet_def moved_def same_maps_def)

lemma quiet_then_moved: "quiet s s1 \<Longrightarrow> moved s1 s2 \<Longrightarrow> moved s s2"
  using quiet_moved [of s s1] quiet_own [of s s1] by (simp add: moved_def same_maps_def)

lemma sched_frame_still: "sched_frame s s' \<Longrightarrow> still s s'"
  by (simp add: sched_frame_def still_def same_maps_def)

lemma input_frame_still: "input_frame s s' \<Longrightarrow> still s s'"
  by (simp add: input_frame_def still_def same_maps_def)

text \<open>The invariant only looks at what these steps keep, and at which counts are zero.\<close>

lemma maps_ok_cong:
  assumes ok: "maps_ok s" and m: "same_maps s s'"
    and idle: "\<And>n k. idle_task s = Some n \<Longrightarrow> space s n k \<Longrightarrow> dir_references s' k = dir_references s k"
    and used: "\<And>i. i < 10 \<Longrightarrow> dir_references s' i \<noteq> 0 \<Longrightarrow> dir_references s i \<noteq> 0"
  shows "maps_ok s'"
proof -
  note e = m [unfolded same_maps_def]
  have fr: "frame_of s' d p = frame_of s d p" for d p using e by (simp add: frame_of_def)
  have "mapped s' d p = mapped s d p" "owned s' d p = owned s d p" for d p
    using e by (simp_all add: owned_def mapped_def)
  then have "frames_once s'" using maps_okD(7) [OF ok] e unfolding frames_once_def fr by simp
  moreover have "dirs_in_use s'"
  proof -
    obtain n k where n: "idle_task s = Some n" "space s n k" "dir_references s k = 1"
      "\<And>i. i < 10 \<Longrightarrow> i \<noteq> k \<Longrightarrow> dir_references s i \<noteq> 0 \<Longrightarrow> data_pages_ok s i"
      using maps_okD(6) [OF ok] unfolding dirs_in_use_def by auto
    have "data_pages_ok s' i = data_pages_ok s i" for i
      using e unfolding data_pages_ok_def fr by simp
    with n idle [OF n(1,2)] used e show ?thesis
      unfolding dirs_in_use_def by (intro exI [of _ n] exI [of _ k]) (auto simp: space_def)
  qed
  ultimately show ?thesis using ok e by (simp add: maps_ok_def)
qed

lemma maps_ok_moved: "moved s s' \<Longrightarrow> maps_ok s \<Longrightarrow> maps_ok s'"
  by (rule maps_ok_cong) (simp_all add: moved_def)

section \<open>What a step may touch\<close>

definition isolated :: "kstate \<Rightarrow> kstate \<Rightarrow> bool" where
  "isolated s s' \<longleftrightarrow> syms s' = syms s \<and> dir_pages s' = dir_pages s \<and>
     (\<forall>f. f \<notin> own_frames s \<longrightarrow> f \<notin> avail (phys_mem s) \<longrightarrow> ram s' f = ram s f) \<and>
     (\<forall>i < NR_TASKS. dir_references s i \<noteq> 0 \<longrightarrow> dir_addr (syms s) i \<noteq> cr3 s \<longrightarrow>
        pagusr_table s' i = pagusr_table s i)"

definition keeps_spaces :: "kstate \<Rightarrow> kstate \<Rightarrow> bool" where
  "keeps_spaces s s' \<longleftrightarrow> isolated s s' \<and> maps_ok s'"

lemma moved_keeps: "moved s s' \<Longrightarrow> maps_ok s \<Longrightarrow> keeps_spaces s s'"
  using maps_ok_moved [of s s'] by (simp add: keeps_spaces_def isolated_def moved_def same_maps_def)

lemma keeps_then_still: "keeps_spaces s s1 \<Longrightarrow> still s1 s2 \<Longrightarrow> keeps_spaces s s2"
  using maps_ok_moved [OF still_moved, of s1 s2]
  by (simp add: keeps_spaces_def isolated_def still_def same_maps_def)

lemma quiet_then_keeps: "quiet s s1 \<Longrightarrow> keeps_spaces s1 s2 \<Longrightarrow> keeps_spaces s s2"
  using quiet_own [of s s1] by (simp add: keeps_spaces_def isolated_def quiet_def)

lemma maps_ok_quiet: "quiet s s1 \<Longrightarrow> maps_ok s \<Longrightarrow> maps_ok s1"
  by (rule maps_ok_moved [OF quiet_moved])

section \<open>Operations that only move data or tasks\<close>

lemma sched_next_still: "sched_next_rr k s = Some s' \<Longrightarrow> still s s'"
  using sched_next_facts [of k s s'] by (simp add: sched_frame_still)

lemma update_process_still: "update_process_state_rr t d s = Some s' \<Longrightarrow> still s s'"
  using update_process_facts [of t d s s'] by (simp add: sched_frame_still)

lemma yield_still: "yield_to d k s = Some s' \<Longrightarrow> still s s'"
  by (auto simp: yield_to_def elim!: bind_eq_SomeE intro: still_trans update_process_still sched_next_still)

lemma needs_sched_still: "needs_sched_rr s = Some (n, s') \<Longrightarrow> still s s'"
  by (auto simp: needs_sched_rr_def still_def same_maps_def split: if_splits elim!: bind_eq_SomeE)

lemma tick_still:
  assumes "update_sched_data_rr s = Some (r, s')"
  shows "still s s'"
proof -
  obtain m n s1 where m: "needs_sched_rr (s\<lparr>remaining_ticks := m\<rparr>) = Some (n, s1)"
    "s' = s1 \<or> (\<exists>s2. update_process_state_rr (cur s1) (Some Readyqueue) s1 = Some s2 \<and>
      sched_next_rr In_clock s2 = Some s')"
    using assms by (auto simp: update_sched_data_rr_def split: if_splits elim!: bind_eq_SomeE)
  have "still s (s\<lparr>remaining_ticks := m\<rparr>)" by (simp add: still_def same_maps_def)
  then have "still s s1" by (rule still_trans) (rule needs_sched_still [OF m(1)])
  with m(2) show ?thesis
    using still_trans update_process_still sched_next_still by metis
qed

lemma key_still:
  assumes "keyboard_interrupt key s = Some s'"
  shows "still s s'"
proof (cases "key AND 0x80 = 0")
  case False
  with assms show ?thesis by (auto simp: keyboard_interrupt_def)
next
  case True
  have p: "still s ((printc_xy 0 0 c s)\<lparr>cb := b\<rparr>)" for b c
    by (simp add: still_def same_maps_def printc_xy_def printc_def Let_def task_of_def)
  from assms True show ?thesis
    by (rule key_cases) (use p still_trans [OF p update_process_still] in auto)
qed

lemma upd_sem_still [simp]: "still s (upd_sem i f s)"
  by (simp add: still_def same_maps_def upd_sem_def task_of_def)

lemma sem_init_still: "sys_sem_init n v s = Some (r, s') \<Longrightarrow> still s s'"
  by (auto simp: sys_sem_init_def Let_def still_def same_maps_def upd_sem_def task_of_def
      split: if_splits elim!: bind_eq_SomeE)

lemma sem_wait_still: "sys_sem_wait n s = Some (r, s') \<Longrightarrow> still s s'"
  using still_trans [OF update_process_still sched_next_still]
  by (fastforce simp: sys_sem_wait_def Let_def split: if_splits elim!: bind_eq_SomeE)

lemma lists_still [simp]: "still s (s\<lparr>lists := h\<rparr>)"
  by (simp add: still_def same_maps_def)

lemma unlock_still:
  "update_process_state_rr t d (s\<lparr>lists := h\<rparr>) = Some s' \<Longrightarrow> still s s'"
  by (rule still_trans [OF lists_still update_process_still])

lemma sem_signal_still: "sys_sem_signal n s = Some (r, s') \<Longrightarrow> still s s'"
  by (auto simp: sys_sem_signal_def Let_def split: if_splits elim!: bind_eq_SomeE intro: unlock_still)

lemma release_all_still: "release_all q s = Some s' \<Longrightarrow> still s s'"
proof (rule release_all.raw_induct [where P = "\<lambda>q s s'. still s s'"], goal_cases)
  case (1 rec q s s')
  then show ?case
    by (auto split: if_splits elim!: bind_eq_SomeE) (rule still_trans [OF unlock_still], assumption, blast)
qed

lemma sem_destroy_still: "sys_sem_destroy n s = Some (r, s') \<Longrightarrow> still s s'"
  by (auto simp: sys_sem_destroy_def Let_def split: if_splits elim!: bind_eq_SomeE
      intro: still_trans [OF upd_sem_still release_all_still])

lemma read_resumed_moved:
  assumes "read_resumed buf n s = Some (r, s')"
  shows "moved s s'"
proof -
  have "moved s (snd (r, s'))"
  proof (rule read_resumed.raw_induct [where P = "\<lambda>buf n s p. moved s (snd p)", OF _ assms])
    fix rec buf n s p
    assume IH: "\<And>buf n s p. rec buf n s = Some p \<Longrightarrow> moved s (snd p)"
      and run: "(if 0 < to_read (my_kb s)
        then do { r \<leftarrow> read_turn buf n s;
                  case r of Inl s \<Rightarrow> rec buf n s | Inr s \<Rightarrow> Some (Switched, s) }
        else Some (Return (already_read (my_kb s)), s)) = Some p"
    show "moved s (snd p)"
    proof (cases "0 < to_read (my_kb s)")
      case True
      with run obtain t where t: "read_turn buf n s = Some t"
        "(case t of Inl s \<Rightarrow> rec buf n s | Inr s \<Rightarrow> Some (Switched, s)) = Some p"
        by (auto elim!: bind_eq_SomeE)
      consider s1 where "t = Inl s1" "quiet s s1"
        | s1 s2 where "t = Inr s2" "quiet s s1" "yield_to Keyboardqueue (In_read buf n) s1 = Some s2"
        using read_turn_quiet [OF t(1)] by blast
      then show ?thesis
      proof cases
        case 1
        with t(2) have "rec buf n s1 = Some p" by simp
        from quiet_then_moved [OF 1(2) IH [OF this]] show ?thesis .
      next
        case 2
        with t(2) moved_still [OF quiet_moved [OF 2(2)] yield_still [OF 2(3)]] show ?thesis by auto
      qed
    qed (use run in auto)
  qed
  then show ?thesis by simp
qed

lemma sys_read_moved:
  assumes "sys_read fd buf n s = Some (r, s')"
  shows "moved s s'"
proof (cases "s' = s")
  case False
  with assms have "read_resumed buf n (upd_kb (\<lambda>_. \<lparr>to_read = n, already_read = 0\<rparr>) s) = Some (r, s')"
    by (auto simp: sys_read_def sys_read_keyboard_def Let_def split: if_splits)
  then show ?thesis by (rule quiet_then_moved [rotated, OF read_resumed_moved]) simp
qed simp

section \<open>clone and exit\<close>

text \<open>A process never runs in the directory of the idle task.\<close>

lemma cur_not_idle_dir:
  assumes inv: "kernel_inv P s qs" and busy: "idle_task s = Some n" "n \<noteq> cur s"
    and k: "space s n k" "dir_references s k = 1"
  shows "\<not> space s (cur s) k"
proof
  assume cur: "space s (cur s) k"
  note i = kernel_invD [OF inv]
  obtain fs where fs: "qs Freequeue = Some fs" using sched_okD(3) [OF i(1)] by blast
  obtain m where "idle_task s = Some m" "m < 10"
    "\<And>q xs. qs q = Some xs \<Longrightarrow> m \<in> set xs \<Longrightarrow> q = Readyqueue"
    by (rule sched_ok_idle [OF i(1)]) (rule that; assumption)
  with busy(1) fs have "n \<in> live qs" by (auto simp: live_iff)
  with cur_live [OF i(1)] cur k(1) have "{n, cur s} \<subseteq> {t \<in> live qs. space s t k}" by auto
  then have "card {n, cur s} \<le> card {t \<in> live qs. space s t k}" by (rule card_mono [rotated]) simp
  moreover have "k < 10" using k(1) by (simp add: space_def)
  then have "dir_references s k = int (card {t \<in> live qs. space s t k})"
    using i(4) by (simp add: spaces_ok_def)
  ultimately show False using k(2) busy(2) by simp
qed

lemma idle_dir_kept:
  assumes "kernel_inv P s qs" and "maps_ok s" and "idle_task s \<noteq> Some (cur s)" and "space s (cur s) d"
    and "idle_task s = Some n" and "space s n k"
  shows "d \<noteq> k"
proof -
  obtain m j where "idle_task s = Some m" "space s m j" "dir_references s j = 1"
    using maps_okD(6) [OF assms(2)] unfolding dirs_in_use_def by blast
  with assms(5,6) space_unique have "dir_references s k = 1" by auto
  with cur_not_idle_dir [OF assms(1,5) _ assms(6)] assms(3-5) show ?thesis by auto
qed

lemma isolated_same: "same_maps s s' \<Longrightarrow> ram s' = ram s \<Longrightarrow> isolated s s'"
  by (simp add: same_maps_def isolated_def)

lemma clone_keeps:
  assumes inv: "kernel_inv P s qs" and maps: "maps_ok s" and busy: "idle_task s \<noteq> Some (cur s)"
    and run: "sys_clone fn st s = Some (r, s')"
  shows "keeps_spaces s s'"
proof (cases "s' = s")
  case True
  with maps show ?thesis by (simp add: moved_keeps)
next
  case False
  note ok = kernel_invD(1) [OF inv]
  obtain fs rs where q: "qs Freequeue = Some fs" "qs Readyqueue = Some rs"
    using sched_okD(2,3) [OF ok] by blast
  obtain d where d: "space s (cur s) d" "d < 10" "0 < dir_references s d" by (rule cur_space [OF inv])
  have "fs \<noteq> []" using queues_empty [OF sched_okD(1) [OF ok] q(1)] run False
    by (auto simp: sys_clone_def)
  then obtain c gs where c: "fs = c # gs" by (cases fs) auto
  have acc: "access_ok VERIFY_WRITE st 4 = 1" "access_ok VERIFY_READ fn 4 = 1"
    using run False queues_empty [OF sched_okD(1) [OF ok] q(1)] c
    by (auto simp: sys_clone_def access_ok_def Let_def split: if_splits)
  have "int_ok (dir_references s d + 1)" using refs_int_ok [OF inv d(2)] by (simp add: int_ok_def)
  then have cr: "clone_ready s qs d c gs rs" using ok d(1) q c by (simp add: clone_ready_def)
  have s': "dir_references s' = (dir_references s)(d := dir_references s d + 1)"
    "\<And>t. t \<noteq> c \<Longrightarrow> tasks s' t = tasks s t" "call_frame s s'" "pagusr_table s' = pagusr_table s"
    "ram s' = ram s" "phys_mem s' = phys_mem s"
    using clone_works [OF cr acc] run by auto
  have "n \<noteq> c" if "idle_task s = Some n" for n
    using sched_ok_idle [OF ok] that q(1) c by (metis list.set_intros(1) lnode.distinct(1) option.inject)
  then have m: "same_maps s s'" using s' by (simp add: same_maps_def call_frame_def task_of_def)
  have "maps_ok s'"
  proof (rule maps_ok_cong [OF maps m])
    show "dir_references s' k = dir_references s k" if "idle_task s = Some n" "space s n k" for n k
      using idle_dir_kept [OF inv maps busy d(1) that] s'(1) by simp
    show "dir_references s i \<noteq> 0" if "dir_references s' i \<noteq> 0" for i
      using that d(3) s'(1) by (cases "i = d") simp_all
  qed
  with isolated_same [OF m s'(5)] show ?thesis by (simp add: keeps_spaces_def)
qed

lemma exit_keeps:
  assumes inv: "kernel_inv P s qs" and maps: "maps_ok s" and busy: "idle_task s \<noteq> Some (cur s)"
    and run: "sys_exit s = Some (r, s')"
  shows "keeps_spaces s s'"
proof -
  obtain d where d: "space s (cur s) d" "d < 10" "0 < dir_references s d" by (rule cur_space [OF inv])
  define s0 where "s0 = upd_task (cur s) (\<lambda>x. x\<lparr>PID := -1\<rparr>)
    (s\<lparr>dir_references := (dir_references s)(d := dir_references s d - 1)\<rparr>)"
  have "int_ok (dir_references s d - 1)" using refs_int_ok [OF inv d(2)] by (simp add: int_ok_def)
  then obtain h where h: "sched_next_rr In_exit (s0\<lparr>lists := h\<rparr>) = Some s'"
    using run get_DIR_pos_space [OF d(1)] d(2)
    by (auto simp: sys_exit_def Let_def s0_def elim!: bind_eq_SomeE)
  have st: "still s0 s'" by (rule still_trans [OF lists_still sched_next_still [OF h]])
  have m: "same_maps s s0" "ram s0 = ram s" by (simp_all add: same_maps_def s0_def)
  have "maps_ok s0"
  proof (rule maps_ok_cong [OF maps m(1)])
    show "dir_references s0 k = dir_references s k" if "idle_task s = Some n" "space s n k" for n k
      using idle_dir_kept [OF inv maps busy d(1) that] by (simp add: s0_def)
    show "dir_references s i \<noteq> 0" if "dir_references s0 i \<noteq> 0" for i
      using that d(3) by (cases "i = d") (simp_all add: s0_def)
  qed
  with isolated_same [OF m] have "keeps_spaces s s0" by (simp add: keeps_spaces_def)
  then show ?thesis using st by (rule keeps_then_still)
qed

end
