(* ===== verification/SpaceGrow.thy ===== *)
theory SpaceGrow
  imports SpaceInv
begin

text \<open>
  New pages: \<open>sys_sbrk\<close> and \<open>sys_fork\<close> map frames that were free, so that the invariant of the page
  tables holds afterwards and no other address space is touched.
\<close>

section \<open>Adding pages\<close>

lemma frame_of_entry:
  assumes "pagusr_table s d p = set_ss_pag_entry (of_nat f)" and "f < 1024"
  shows "frame_of s d p = f"
  using assms by (simp add: frame_of_def unsigned_take_bit_eq take_bit_nat_eq_self)

lemma pbase_in_range: "take_bit 20 (get_pbase_addr e) = get_pbase_addr e"
  by (simp add: get_pbase_addr_def field_get_def)

text \<open>
  The pages \<open>N\<close> get the frames \<open>G\<close>; a page below the data pages may get the frame of another one or
  frame 0; the other pages are as before.
\<close>

lemma frames_once_extend:
  assumes ok: "maps_ok s" and G: "G \<subseteq> avail (phys_mem s)"
    and marks: "phys_mem s' = (\<lambda>f. if f \<in> G then 1 else phys_mem s f)"
    and new: "\<And>d p. (d, p) \<in> N \<Longrightarrow> frame_of s' d p \<in> G" "inj_on (\<lambda>(d, p). frame_of s' d p) N"
    and low: "\<And>d p. mapped s' d p \<Longrightarrow> (d, p) \<notin> N \<Longrightarrow> p < 264 \<Longrightarrow>
      frame_of s' d p = 0 \<or> (\<exists>e q. q < 264 \<and> mapped s e q \<and> frame_of s' d p = frame_of s e q)"
    and high: "\<And>d p. mapped s' d p \<Longrightarrow> (d, p) \<notin> N \<Longrightarrow> 264 \<le> p \<Longrightarrow>
      mapped s d p \<and> frame_of s' d p = frame_of s d p"
  shows "frames_once s'"
proof -
  note m = maps_okD [OF ok]
  have free: "phys_mem s f = 0 \<and> 256 \<le> f" if "f \<in> G" for f using that G by (auto simp: avail_def)
  have old: "phys_mem s (frame_of s' d p) \<noteq> 0" if "mapped s' d p" "(d, p) \<notin> N" for d p
  proof (cases "p < 264")
    case True
    with low [OF that] m(1,3) show ?thesis by auto
  next
    case False
    with high [OF that] m(3) show ?thesis by auto
  qed
  have "phys_mem s' (frame_of s' d p) \<noteq> 0" if "mapped s' d p" for d p
    using new(1) [of d p] old [OF that] marks by (cases "(d, p) \<in> N") auto
  moreover have "256 \<le> frame_of s' d p" if "owned s' d p" for d p
    using that new(1) [of d p] free high [of d p] m(4) [of d p]
    by (cases "(d, p) \<in> N") (auto simp: owned_iff)
  moreover have "d = e \<and> p = q"
    if o: "owned s' d p" and mp: "mapped s' e q" and eq: "frame_of s' d p = frame_of s' e q" for d p e q
  proof (cases "(d, p) \<in> N \<or> (e, q) \<in> N")
    case True
    have "phys_mem s (frame_of s' d p) = 0" using True free new(1) [of d p] new(1) [of e q] eq by auto
    then have "(d, p) \<in> N" "(e, q) \<in> N"
      using old [of d p] old [of e q] o mp eq by (auto simp: owned_iff)
    with new(2) eq show ?thesis by (auto simp: inj_on_def)
  next
    case False
    have h: "mapped s d p" "frame_of s' d p = frame_of s d p" "264 \<le> p"
      using o False high [of d p] by (auto simp: owned_iff)
    then have own: "owned s d p" by (simp add: owned_iff)
    show ?thesis
    proof (cases "q < 264")
      case True
      with low [OF mp] False consider "frame_of s' e q = 0"
        | e' q' where "q' < 264" "mapped s e' q'" "frame_of s' e q = frame_of s e' q'" by auto
      then show ?thesis
      proof cases
        case 1
        with m(4) [OF own] h(2) eq show ?thesis by simp
      next
        case 2
        with m(5) [OF own 2(2)] h eq show ?thesis by simp
      qed
    next
      case qF: False
      with high [OF mp] False have "mapped s e q" "frame_of s' e q = frame_of s e q" by auto
      with m(5) [OF own] h(2) eq show ?thesis by simp
    qed
  qed
  ultimately show ?thesis unfolding frames_once_def by simp
qed

lemma dirs_in_use_extend:
  assumes "dirs_in_use s" and "syms s' = syms s" "idle_task s' = idle_task s"
    and "\<And>n k. idle_task s = Some n \<Longrightarrow> space s n k \<Longrightarrow>
      dir_pages_baseAddr (task_of s' n) = dir_pages_baseAddr (task_of s n) \<and> dir_references s' k = dir_references s k"
    and "\<And>i. i < 10 \<Longrightarrow> dir_references s' i \<noteq> 0 \<Longrightarrow>
      data_pages_ok s' i \<or> dir_references s i \<noteq> 0 \<and> (\<forall>p. 264 \<le> p \<longrightarrow> p < 284 \<longrightarrow> pagusr_table s' i p = pagusr_table s i p)"
  shows "dirs_in_use s'"
proof -
  obtain n k where n: "idle_task s = Some n" "space s n k" "dir_references s k = 1"
    "\<And>i. i < 10 \<Longrightarrow> i \<noteq> k \<Longrightarrow> dir_references s i \<noteq> 0 \<Longrightarrow> data_pages_ok s i"
    using assms(1) unfolding dirs_in_use_def by auto
  have "data_pages_ok s' i" if i: "i < 10" "i \<noteq> k" "dir_references s' i \<noteq> 0" for i
    using assms(5) [OF i(1,3)] n(4) [OF i(1,2)] by (auto simp: data_pages_ok_def frame_of_def)
  with n assms(2,3) assms(4) [OF n(1,2)] show ?thesis
    unfolding dirs_in_use_def by (intro exI [of _ n] exI [of _ k]) (auto simp: space_def)
qed

lemma marks_stay:
  assumes "maps_ok s" and "G \<subseteq> avail (phys_mem s)" and "phys_mem s' = (\<lambda>f. if f \<in> G then 1 else phys_mem s f)"
  shows "phys_mem s' 0 \<noteq> FREE_FRAME" and "phys_mem s' NUM_PAG_KERNEL \<noteq> FREE_FRAME"
  using assms by (auto simp: maps_ok_def)

section \<open>sbrk\<close>

lemma sbrk_cases:
  assumes "sys_sbrk n s = Some (v, s')"
  obtains "s' = s" | pb where "s' = set_break pb s"
  | k pm where "alloc_frames k (phys_mem s) = (None, pm)" "s' = s\<lparr>phys_mem := pm\<rparr>"
  | k gs pm pt r where "alloc_frames k (phys_mem s) = (Some gs, pm)" "get_PT (cur s) (s\<lparr>phys_mem := pm\<rparr>) = Some pt"
      "pt_row (syms s) pt = Some r"
      "length (free_pages_from 284 k (pagusr_table s r)) \<noteq> k \<and> s' = s\<lparr>phys_mem := pm\<rparr> \<or>
       length (free_pages_from 284 k (pagusr_table s r)) = k \<and>
        (\<exists>s1 pb. map_pages pt (zip (free_pages_from 284 k (pagusr_table s r)) gs) (s\<lparr>phys_mem := pm\<rparr>) = Some s1 \<and>
          s' = set_break pb s1)"
proof -
  define pb where "pb = program_break (task_of s (cur s))"
  define fut where "fut = pb + to_u32 n"
  define k where "k = PH_PAGE_int (to_s32 fut) - PH_PAGE_int (to_s32 (pb - 1))"
  consider "s' = s" | "s' = set_break fut s"
    | "0 < k" "(case alloc_frames (nat k) (phys_mem s) of
        (None, pm) \<Rightarrow> Some (to_u32 (- ENOMEM), s\<lparr>phys_mem := pm\<rparr>)
      | (Some new_frames, pm) \<Rightarrow>
          do { let s = s\<lparr>phys_mem := pm\<rparr>;
               current_pt \<leftarrow> get_PT (cur s) s;
               r \<leftarrow> pt_row (syms s) current_pt;
               let new_log_pages = free_pages_from (PAG_LOG_INIT_DATA + NUM_PAG_DATA) (nat k) (pagusr_table s r);
               if length new_log_pages \<noteq> nat k then Some (to_u32 (- EAGAIN), s)
               else do { s \<leftarrow> map_pages current_pt (zip new_log_pages new_frames) s;
                         Some (pb, set_break fut s) } }) = Some (v, s')"
    using assms unfolding sys_sbrk_def Let_def pb_def [symmetric] fut_def [symmetric] k_def [symmetric]
    by (simp split: if_splits)
  then show ?thesis
  proof cases
    case 3
    obtain r pm where al: "alloc_frames (nat k) (phys_mem s) = (r, pm)" by fastforce
    show ?thesis
    proof (cases r)
      case None
      with 3(2) al that(3) show ?thesis by simp
    next
      case (Some gs)
      with 3(2) al obtain pt q where "get_PT (cur s) (s\<lparr>phys_mem := pm\<rparr>) = Some pt" "pt_row (syms s) pt = Some q"
        "(if length (free_pages_from 284 (nat k) (pagusr_table s q)) \<noteq> nat k then s' = s\<lparr>phys_mem := pm\<rparr>
          else \<exists>s1. map_pages pt (zip (free_pages_from 284 (nat k) (pagusr_table s q)) gs) (s\<lparr>phys_mem := pm\<rparr>) = Some s1 \<and>
            s' = set_break fut s1)"
        by (auto simp: Let_def split: if_splits elim!: bind_eq_SomeE)
      with that(4) [of "nat k" gs pm pt q] al Some show ?thesis by (auto split: if_splits)
    qed
  qed (use that in auto)
qed

lemma alloc_frames_result:
  assumes "alloc_frames k pm = (r, pm')" and "256 \<notin> avail pm"
  shows "r = None \<and> pm' = pm \<or> (\<exists>gs. r = Some (map int gs) \<and> pm' = (\<lambda>f. if f \<in> set gs then 1 else pm f) \<and>
    length gs = k \<and> distinct gs \<and> set gs \<subseteq> avail pm)"
  using assms alloc_frames_fails [of pm k] alloc_frames_succeeds [of k pm, unfolded frame_marks]
  by (cases "k \<le> card (avail pm)") auto

text \<open>Frames that are taken and not mapped.\<close>

lemma keeps_lost_frames:
  assumes ok: "maps_ok s" and G: "G \<subseteq> avail (phys_mem s)"
  shows "keeps_spaces s (s\<lparr>phys_mem := \<lambda>f. if f \<in> G then 1 else phys_mem s f\<rparr>)" (is "keeps_spaces s ?s")
proof -
  have fr: "frame_of ?s d p = frame_of s d p" "mapped ?s d p = mapped s d p" for d p
    by (simp_all add: frame_of_def mapped_def)
  have "frames_once ?s"
    by (rule frames_once_extend [OF ok G, of _ "{}"]) (use fr in auto)
  moreover have "dirs_in_use ?s" by (rule dirs_in_use_extend [OF maps_okD(6) [OF ok]]) auto
  ultimately have "maps_ok ?s" using marks_stay [OF ok G, of ?s] by (simp add: maps_ok_def)
  then show ?thesis by (simp add: keeps_spaces_def isolated_def)
qed

lemma sbrk_keeps:
  assumes inv: "kernel_inv P s qs" and ok: "maps_ok s" and run: "sys_sbrk n s = Some (v, s')"
  shows "keeps_spaces s s'"
  using run
proof (cases rule: sbrk_cases)
  case 1
  with ok show ?thesis by (simp add: moved_keeps)
next
  case (2 pb)
  with ok show ?thesis using moved_keeps [OF quiet_moved] by blast
next
  case (3 k pm)
  with alloc_frames_result [OF 3(1) maps_okD(2) [OF ok]] ok show ?thesis by (simp add: moved_keeps)
next
  case (4 k gs0 pm pt r)
  obtain gs where gs: "gs0 = map int gs" "pm = (\<lambda>f. if f \<in> set gs then 1 else phys_mem s f)"
    "length gs = k" "distinct gs" "set gs \<subseteq> avail (phys_mem s)"
    using alloc_frames_result [OF 4(1) maps_okD(2) [OF ok]] by auto
  obtain d where d: "space s (cur s) d" "d < 10" "0 < dir_references s d" by (rule cur_space [OF inv])
  have "paging_ok (s\<lparr>phys_mem := pm\<rparr>)" "space (s\<lparr>phys_mem := pm\<rparr>) (cur s) d"
    using kernel_invD(5) [OF inv] d(1) by (simp_all add: paging_ok_def space_def)
  from get_PT_space [OF this] 4(2,3) d(2) have pt: "pt = pt_addr (syms s) d" "r = d" by auto
  let ?ps = "free_pages_from 284 k (pagusr_table s d)"
  show ?thesis
  proof (cases "length ?ps = k")
    case False
    with 4(4) keeps_lost_frames [OF ok gs(5)] show ?thesis by (simp add: pt gs(2))
  next
    case True
    have ps: "p < 1024" "284 \<le> p" "pagusr_table s d p = 0" if "p \<in> set ?ps" for p
    proof -
      have "p \<in> set (filter (\<lambda>p. pagusr_table s d p = 0) [284..<1024])"
        using that unfolding free_pages_from_eq by (rule in_set_takeD)
      then show "p < 1024" "284 \<le> p" "pagusr_table s d p = 0" by (simp_all del: upt_rec_numeral)
    qed
    have dist: "distinct ?ps" unfolding free_pages_from_eq by (intro distinct_take distinct_filter) simp
    have len: "length ?ps = length gs" using True gs(3) by simp
    obtain t pb where t: "s' = set_break pb (s\<lparr>phys_mem := pm, pagusr_table := t\<rparr>)"
      "\<And>q p. t q p = (if q = d \<and> p \<in> set ?ps
        then set_ss_pag_entry (to_u32 (the (map_of (zip ?ps (map int gs)) p))) else pagusr_table s q p)"
      using 4(4) True map_pages_spec [of "s\<lparr>phys_mem := pm\<rparr>" pt d ?ps "map int gs"] ps(1) dist len d(2)
      by (auto simp: pt gs(1))
    have f: "syms s' = syms s" "idle_task s' = idle_task s" "dir_pages s' = dir_pages s" "ram s' = ram s"
      "dir_references s' = dir_references s" "phys_mem s' = pm" "pagusr_table s' = t"
      "dir_pages_baseAddr (task_of s' x) = dir_pages_baseAddr (task_of s x)" for x
      by (simp_all add: t(1) set_break_def)
    have entry: "frame_of s' d (?ps ! j) = gs ! j" if "j < length gs" for j
    proof (rule frame_of_entry)
      have "map_of (zip ?ps (map int gs)) (?ps ! j) = Some (map int gs ! j)"
        using that len dist by (intro map_of_zip_nth) auto
      then show "pagusr_table s' d (?ps ! j) = set_ss_pag_entry (of_nat (gs ! j))"
        using that len by (simp add: f t(2) to_u32_def)
      show "gs ! j < 1024" using gs(5) that avail_less nth_mem by blast
    qed
    let ?N = "{d} \<times> set ?ps"
    have "frames_once s'"
    proof (rule frames_once_extend [OF ok gs(5), of s' ?N])
      show "frame_of s' e p \<in> set gs" if "(e, p) \<in> ?N" for e p
        using that entry len by (auto simp: in_set_conv_nth)
      show "inj_on (\<lambda>(e, p). frame_of s' e p) ?N"
        using entry len gs(4) by (auto simp: inj_on_def in_set_conv_nth nth_eq_iff_index_eq)
      show "mapped s e p \<and> frame_of s' e p = frame_of s e p" if "mapped s' e p" "(e, p) \<notin> ?N" for e p
        using that by (auto simp: mapped_def frame_of_def f t(2) split: if_splits)
      then show "frame_of s' e p = 0 \<or> (\<exists>e' q. q < 264 \<and> mapped s e' q \<and> frame_of s' e p = frame_of s e' q)"
        if "mapped s' e p" "(e, p) \<notin> ?N" "p < 264" for e p using that by blast
    qed (simp add: f gs(2))
    moreover have "dirs_in_use s'"
    proof (rule dirs_in_use_extend [OF maps_okD(6) [OF ok]])
      have "t i p = pagusr_table s i p" if "p < 284" for i p
        using ps(2) [of p] that by (auto simp: t(2))
      then show "data_pages_ok s' i \<or> dir_references s i \<noteq> 0 \<and>
          (\<forall>p. 264 \<le> p \<longrightarrow> p < 284 \<longrightarrow> pagusr_table s' i p = pagusr_table s i p)"
        if "dir_references s' i \<noteq> 0" for i
        using that by (simp add: f)
    qed (simp_all add: f)
    ultimately have "maps_ok s'"
      using marks_stay [OF ok gs(5), of s'] by (simp add: maps_ok_def f gs(2))
    moreover have "t i = pagusr_table s i" if "dir_addr (syms s) i \<noteq> cr3 s" for i
    proof -
      have "i \<noteq> d" using that kernel_invD(7) [OF inv] d(1) by (auto simp: get_DIR_def space_def)
      then show ?thesis by (simp add: fun_eq_iff t(2))
    qed
    ultimately show ?thesis by (simp add: keeps_spaces_def isolated_def f)
  qed
qed

section \<open>fork\<close>

text \<open>While a task is free, a directory is free: nine tasks are in at most nine directories.\<close>

lemma free_dir_exists:
  assumes inv: "kernel_inv P s qs" and free: "qs Freequeue = Some (c # fs)"
  shows "free_dir_from 0 (dir_references s) < 10"
proof (rule ccontr)
  assume "\<not> free_dir_from 0 (dir_references s) < 10"
  then have "dir_references s i \<noteq> 0" if "i < 10" for i
    using free_dir_bounds [of "dir_references s"] that by auto
  then have "{t \<in> live qs. space s t i} \<noteq> {}" if "i < 10" for i
    using kernel_invD(4) [OF inv] that unfolding spaces_ok_def sched_values by fastforce
  then have "\<forall>i \<in> {..<10}. \<exists>t. t \<in> live qs \<and> space s t i" by blast
  then obtain f where f: "\<forall>i \<in> {..<10}. f i \<in> live qs \<and> space s (f i) i" by (rule bchoice [THEN exE])
  have live: "t \<in> live qs \<longleftrightarrow> t < 10 \<and> t \<notin> set (c # fs)" for t using free by (rule live_iff)
  have "inj_on f {..<10}" using f space_unique by (intro inj_onI) metis
  moreover have "f ` {..<10} \<subseteq> {..<10} - {c}" using f by (auto simp: live)
  ultimately have "card {..<10 :: nat} \<le> card ({..<10} - {c})" by (intro card_inj_on_le) auto
  moreover have "c < 10" using sched_okD(6) [OF kernel_invD(1) [OF inv]] queued_member [of qs Freequeue "c # fs" c] free by auto
  ultimately show False by simp
qed

text \<open>So in a state that satisfies the invariants only tasks, frames and pages can be missing.\<close>

lemma fork_ready_intro:
  assumes inv: "kernel_inv P s qs" and ok: "maps_ok s" and busy: "idle_task s \<noteq> Some (cur s)"
    and q: "qs Freequeue = Some (c # fs)" "qs Readyqueue = Some rs"
    and mem: "20 \<le> card (avail (phys_mem s))" and i: "space s (cur s) i"
    and page: "284 \<le> p" "p < 1024" "pagusr_table s i p = 0"
  obtains j k where "fork_ready s qs i j c fs rs k" "dir_references s j = 0" "idle_task s \<noteq> Some c"
proof -
  note v = kernel_invD [OF inv]
  obtain i' where "space s (cur s) i'" "0 < dir_references s i'" by (rule cur_space [OF inv])
  then have used: "0 < dir_references s i" using space_unique [OF i] by auto
  have i10: "i < 10" using i by (simp add: space_def)
  define j where "j = free_dir_from 0 (dir_references s)"
  have j: "j < 10" using free_dir_exists [OF inv q(1)] by (simp add: j_def)
  then have zero: "dir_references s j = 0" using free_dir_bounds [of "dir_references s"] by (simp add: j_def)
  define k where "k = (LEAST p. 284 \<le> p \<and> p < 1024 \<and> pagusr_table s i p = 0)"
  have k: "284 \<le> k \<and> k < 1024 \<and> pagusr_table s i k = 0"
    unfolding k_def by (rule LeastI [of _ p]) (use page in simp)
  have first: "pagusr_table s i p' \<noteq> 0" if "284 \<le> p'" "p' < k" for p'
    using not_less_Least [of p' "\<lambda>p. 284 \<le> p \<and> p < 1024 \<and> pagusr_table s i p = 0"] that k
    unfolding k_def [symmetric] by auto
  obtain n k' where n: "idle_task s = Some n" "space s n k'"
    "\<And>d. d < 10 \<Longrightarrow> d \<noteq> k' \<Longrightarrow> dir_references s d \<noteq> 0 \<Longrightarrow> data_pages_ok s d"
    using maps_okD(6) [OF ok] unfolding dirs_in_use_def by auto
  have "i \<noteq> k'" by (rule idle_dir_kept [OF inv ok busy i n(1,2)])
  then have dp: "data_pages_ok s i" using n(3) i10 used by auto
  have "mapped s i p'" if "264 \<le> p'" "p' < 284" for p'
    using dp that i10 by (auto simp: data_pages_ok_def mapped_def dest: entry_present_nonzero)
  then have "phys_mem s (frame_of s i p') \<noteq> 0" if "264 \<le> p'" "p' < 284" for p'
    using maps_okD(3) [OF ok] that by blast
  moreover have "in_space s i" using v(5,7) i i10 by (simp add: in_space_def space_def get_DIR_def)
  moreover have "j \<noteq> i" using zero used by auto
  ultimately have "fork_ready s qs i j c fs rs k"
    using v(1) i q mem j k first dp j_def unfolding fork_ready_def by simp
  moreover have "idle_task s \<noteq> Some c"
    using sched_ok_idle [OF v(1)] q(1) by (metis list.set_intros(1) lnode.distinct(1) option.inject)
  ultimately show ?thesis using that zero by blast
qed

text \<open>A fork that fills an address space found a free page of the father.\<close>

lemma fork_space_page:
  assumes run: "fork_space f c gs s = Some v" and gs: "gs \<noteq> []" and fc: "f \<noteq> c"
    and pok: "paging_ok s" and sp: "space s f i" and used: "dir_references s i \<noteq> 0"
  obtains p where "284 \<le> p" "p < 1024" "pagusr_table s i p = 0"
proof -
  define j where "j = free_dir_from 0 (dir_references s)"
  have j: "j < 10" using run by (simp add: fork_space_def allocate_DIR_def Let_def j_def split: if_splits)
  then have zero: "dir_references s j = 0" using free_dir_bounds [of "dir_references s"] by (simp add: j_def)
  with used have ji: "j \<noteq> i" by auto
  define s1 where "s1 = (upd_task c (\<lambda>x. x\<lparr>dir_pages_baseAddr := dir_addr (syms s) j\<rparr>) s)
    \<lparr>dir_references := (dir_references s)(j := 1)\<rparr>"
  have al: "allocate_DIR c s = Some (1, s1)" using allocate_DIR_spec [of s j c] j by (simp add: j_def s1_def)
  have i: "i < 10" using sp by (simp add: space_def)
  have s1: "paging_ok s1" "syms s1 = syms s" "pagusr_table s1 = pagusr_table s"
    using pok by (simp_all add: s1_def paging_ok_def)
  have "space s1 c j" "space s1 f i" using j sp fc by (simp_all add: s1_def space_def)
  note pts = get_PT_space [OF s1(1) this(1)] get_PT_space [OF s1(1) this(2)]
  have rows: "pt_row (syms s1) (pt_addr (syms s) j) = Some j" "pt_row (syms s1) (pt_addr (syms s) i) = Some i"
    using i j by (simp_all add: s1)
  obtain t1 where t1: "share_pages (pt_addr (syms s) j) (pt_addr (syms s) i) [0..<264] s1
      = Some (s1\<lparr>pagusr_table := t1\<rparr>)"
    "\<And>q p. t1 q p = (if q = j \<and> p < 264
        then set_ss_pag_entry (get_pbase_addr (pagusr_table s i p)) else pagusr_table s q p)"
    using share_pages_spec [OF rows, of "[0..<264]"] ji by (auto simp: s1)
  have row: "t1 i = pagusr_table s i" using ji t1(2) by (simp add: fun_eq_iff)
  define tmp where "tmp = tmp_logpage (pagusr_table s i)"
  have "copy_pages f (pt_addr (syms s) j) (pt_addr (syms s) i) tmp 0 gs (s1\<lparr>pagusr_table := t1\<rparr>) \<noteq> None"
    using run unfolding fork_space_def al layout_values
    by (auto simp: pts t1(1) rows [unfolded s1(2)] s1(2) row tmp_def [symmetric] Let_def simp del: upt_rec_numeral elim!: bind_eq_SomeE)
  then have "unat tmp < 1024"
    using gs by (cases gs) (auto simp: copy_page_def set_ss_pag_def s1(2) i split: bind_splits if_splits)
  then have "find (\<lambda>p. pagusr_table s i p = 0) [284..<1024] \<noteq> None"
    unfolding tmp_def tmp_logpage_def layout_values by (cases "find (\<lambda>p. pagusr_table s i p = 0) [284..<1024]")
      (simp_all add: unsigned_minus_1_eq_mask mask_eq_exp_minus_1 del: upt_rec_numeral)
  then obtain k where "find (\<lambda>p. pagusr_table s i p = 0) [284..<1024] = Some k" by blast
  then have "284 \<le> k" "k < 1024" "pagusr_table s i k = 0"
    by (auto simp: find_Some_iff simp del: upt_rec_numeral)
  then show ?thesis by (rule that)
qed

lemma fork_run_ready:
  assumes inv: "kernel_inv P s qs" and ok: "maps_ok s" and busy: "idle_task s \<noteq> Some (cur s)"
    and run: "sys_fork s = Some (r, s')" and ch: "s' \<noteq> s"
  obtains i j c fs rs k where "fork_ready s qs i j c fs rs k" "dir_references s j = 0" "idle_task s \<noteq> Some c"
proof -
  note v = kernel_invD [OF inv] and sok = kernel_invD(1) [OF inv]
  obtain fs rs where q: "qs Freequeue = Some fs" "qs Readyqueue = Some rs"
    using sched_okD(2,3) [OF sok] by blast
  have mem: "fs \<noteq> []" "20 \<le> card (avail (phys_mem s))"
    using fork_fails [OF sok q(1)] maps_okD(2) [OF ok] run ch by fastforce+
  then obtain c fs' where c: "fs = c # fs'" by (cases fs) auto
  obtain i where i: "space s (cur s) i" "i < 10" "0 < dir_references s i" by (rule cur_space [OF inv])
  obtain gs pm where gs: "alloc_frames 20 (phys_mem s) = (Some gs, pm)" "gs \<noteq> []"
    using alloc_frames_succeeds [OF mem(2)] by fastforce
  define s1 where "s1 = s\<lparr>phys_mem := pm\<rparr>"
  have cc: "cur s \<noteq> c" using sched_okD(7) [OF sok] queued_member [of qs Freequeue fs c] q(1) c by auto
  have "queues (lists s1) qs" "qs Freequeue = Some (c # fs')"
    using sched_okD(1) [OF sok] q(1) c by (simp_all add: s1_def)
  from take_free_spec [OF this] obtain h where h: "take_free s1 = Some (c, s1\<lparr>lists := h\<rparr>)" by blast
  define s2 where "s2 = copy_task_union (cur s) c (s1\<lparr>lists := h\<rparr>)"
  have "fork_space (cur s) c gs s2 \<noteq> None"
    using run queues_empty [OF sched_okD(1) [OF sok] q(1)] c gs(1) h
    by (auto simp: sys_fork_def s1_def s2_def Let_def elim!: bind_eq_SomeE)
  then obtain w where w: "fork_space (cur s) c gs s2 = Some w" by blast
  have s2: "dir_references s2 = dir_references s" "pagusr_table s2 = pagusr_table s" "paging_ok s2"
    "space s2 (cur s) i"
    using v(5) i(1) cc by (simp_all add: s2_def s1_def paging_ok_def space_def)
  have "dir_references s2 i \<noteq> 0" using i s2(1) by simp
  then obtain p where p: "284 \<le> p" "p < 1024" "pagusr_table s i p = 0"
    using fork_space_page [OF w gs(2) cc s2(3,4)] unfolding s2(2) by blast
  have "qs Freequeue = Some (c # fs')" using q(1) c by simp
  then obtain j k where "fork_ready s qs i j c fs' rs k" "dir_references s j = 0" "idle_task s \<noteq> Some c"
    by (rule fork_ready_intro [OF inv ok busy _ q(2) mem(2) i(1) p])
  then show ?thesis by (rule that)
qed

lemma fork_keeps:
  assumes inv: "kernel_inv P s qs" and ok: "maps_ok s" and busy: "idle_task s \<noteq> Some (cur s)"
    and run: "sys_fork s = Some (r, s')"
  shows "keeps_spaces s s'"
proof (cases "s' = s")
  case True
  with ok show ?thesis by (simp add: moved_keeps)
next
  case False
  obtain i j c fs rs k where rdy: "fork_ready s qs i j c fs rs k"
    and zero: "dir_references s j = 0" and nc: "idle_task s \<noteq> Some c"
    by (rule fork_run_ready [OF inv ok busy run False])
  note f = fork_readyD [OF rdy]
  obtain gs where gs: "\<And>t. t \<noteq> c \<Longrightarrow> tasks s' t = tasks s t" "length gs = 20" "distinct gs"
    "set gs \<subseteq> avail (phys_mem s)" "phys_mem s' = (\<lambda>f. if f \<in> set gs then 1 else phys_mem s f)"
    "child_table s i gs (pagusr_table s j) (pagusr_table s' j)"
    "\<And>q. q \<noteq> j \<Longrightarrow> pagusr_table s' q = pagusr_table s q" "pages_copied s i gs (ram s')"
    "dir_references s' = (dir_references s)(j := 1)" "call_frame s s'"
    using fork_works [OF rdy] run by auto
  have same: "syms s' = syms s" "idle_task s' = idle_task s" "dir_pages s' = dir_pages s"
    using gs(10) by (simp_all add: call_frame_def)
  have new: "frame_of s' j (264 + x) = gs ! x" "gs ! x \<in> set gs" "256 \<le> gs ! x" if "x < 20" for x
  proof -
    show m: "gs ! x \<in> set gs" using that gs(2) by simp
    then show "256 \<le> gs ! x" using gs(4) avail_less by blast
    have "pagusr_table s' j (264 + x) = set_ss_pag_entry (of_nat (gs ! x))"
      using gs(6) that by (simp add: child_table_def)
    then show "frame_of s' j (264 + x) = gs ! x"
      by (rule frame_of_entry) (use m gs(4) avail_less in blast)
  qed
  have split: "\<exists>x < 20. p = 264 + x" if "264 \<le> p" "p < 284" for p :: nat
    using that by (intro exI [of _ "p - 264"]) auto
  let ?N = "{j} \<times> {264..<284}"
  have "frames_once s'"
  proof (rule frames_once_extend [OF ok gs(4,5), of ?N])
    show "frame_of s' d p \<in> set gs" if "(d, p) \<in> ?N" for d p
      using that split [of p] new by auto
    show "inj_on (\<lambda>(d, p). frame_of s' d p) ?N"
    proof -
      have "p = q" if "264 \<le> p" "p < 284" "264 \<le> q" "q < 284" "frame_of s' j p = frame_of s' j q" for p q
        using that split [of p] split [of q] new gs(2,3) by (auto simp: nth_eq_iff_index_eq)
      then show ?thesis by (auto simp: inj_on_def)
    qed
    fix d p assume m: "mapped s' d p" and nN: "(d, p) \<notin> ?N"
    show "frame_of s' d p = 0 \<or> (\<exists>e q. q < 264 \<and> mapped s e q \<and> frame_of s' d p = frame_of s e q)"
      if low: "p < 264"
    proof (cases "d = j")
      case True
      have e: "frame_of s' j p = frame_of s i p" "p < 1024"
        using gs(6) low by (simp_all add: child_table_def frame_of_def pbase_in_range)
      show ?thesis
      proof (cases "pagusr_table s i p = 0")
        case True
        with e \<open>d = j\<close> show ?thesis by (simp add: frame_of_def)
      next
        case False
        then have "mapped s i p" using e(2) f(5) by (simp add: mapped_def)
        with e low \<open>d = j\<close> show ?thesis by blast
      qed
    next
      case False
      with m gs(7) have "mapped s d p" "frame_of s' d p = frame_of s d p" by (simp_all add: mapped_def frame_of_def)
      with low show ?thesis by blast
    qed
    show "mapped s d p \<and> frame_of s' d p = frame_of s d p" if "264 \<le> p"
    proof (cases "d = j")
      case True
      then have "284 \<le> p" using nN that by auto
      with True m gs(6) show ?thesis by (simp add: mapped_def frame_of_def child_table_def)
    next
      case False
      with m gs(7) show ?thesis by (simp add: mapped_def frame_of_def)
    qed
  qed
  moreover have "dirs_in_use s'"
  proof (rule dirs_in_use_extend [OF maps_okD(6) [OF ok] same(1,2)])
    show "dir_pages_baseAddr (task_of s' n) = dir_pages_baseAddr (task_of s n) \<and>
        dir_references s' k = dir_references s k" if "idle_task s = Some n" "space s n k" for n k
    proof -
      obtain m k' where "idle_task s = Some m" "space s m k'" "dir_references s k' = 1"
        using maps_okD(6) [OF ok] unfolding dirs_in_use_def by blast
      with that space_unique have "dir_references s k = 1" by auto
      with zero have "k \<noteq> j" by auto
      with that nc gs(1) [of n] gs(9) show ?thesis by (auto simp: task_of_def)
    qed
    show "data_pages_ok s' d \<or> dir_references s d \<noteq> 0 \<and>
        (\<forall>p. 264 \<le> p \<longrightarrow> p < 284 \<longrightarrow> pagusr_table s' d p = pagusr_table s d p)"
      if "dir_references s' d \<noteq> 0" for d
    proof (cases "d = j")
      case True
      have "get_present (pagusr_table s' j p) = 1" if "264 \<le> p" "p < 284" for p
        using gs(6) that by (simp add: child_table_def)
      moreover have "256 \<le> frame_of s' j p" if "264 \<le> p" "p < 284" for p
        using split [OF that] new by auto
      ultimately show ?thesis using True by (simp add: data_pages_ok_def)
    next
      case False
      with that gs(7,9) show ?thesis by simp
    qed
  qed
  ultimately have "maps_ok s'"
    using marks_stay [OF ok gs(4,5)] by (simp add: maps_ok_def)
  moreover have "ram s' g = ram s g" if "g \<notin> avail (phys_mem s)" for g
    using that gs(4,8) by (auto simp: pages_copied_def)
  moreover have "pagusr_table s' d = pagusr_table s d" if "dir_references s d \<noteq> 0" for d
    using that zero gs(7) [of d] by auto
  ultimately show ?thesis using same by (simp add: keeps_spaces_def isolated_def)
qed

end
