(* ===== verification/SpaceSteps.thy ===== *)
theory SpaceSteps
  imports SpaceGrow
begin

text \<open>
  Every step of the kernel keeps the address spaces apart: \<open>kernel_step_keeps\<close> combines the lemmas
  about the operations over \<open>kernel_step\<close>, and \<open>space_byte_kept\<close> says what this means for the bytes
  of a process that is not running.
\<close>

section \<open>Entering and leaving\<close>

lemma still_fields [simp]:
  "still s (charge u t s)" "still s (upd_stack t i v s)" "still s (s\<lparr>video := w\<rparr>)"
  by (simp_all add: still_def same_maps_def task_of_def [of "_\<lparr>video := _\<rparr>"] task_of_def [symmetric])

lemma syscall_return_still: "syscall_return sp v s = Some (u, s') \<Longrightarrow> still s s'"
  by (auto simp: syscall_return_def switch_eqs still_def same_maps_def)

lemma interrupt_return_still: "interrupt_return sp s = Some (u, s') \<Longrightarrow> still s s'"
  by (auto simp: interrupt_return_def switch_eqs still_def same_maps_def)

lemma system_to_user_still: "switch_system_to_user s = Some s' \<Longrightarrow> still s s'"
  by (auto simp: switch_eqs)

lemma draws_still: "draws f \<Longrightarrow> still s (f s)"
  unfolding draws_def by (metis still_fields(3))

section \<open>System calls\<close>

lemma call_routine_keeps:
  assumes inv: "kernel_inv P s qs" and ok: "maps_ok s" and busy: "idle_task s \<noteq> Some (cur s)"
    and run: "call_routine c a1 a2 a3 s = Some (r, s')"
  shows "keeps_spaces s s'"
proof -
  have mv: "keeps_spaces s s'" if "moved s s'" using that ok by (rule moved_keeps)
  note st = mv [OF still_moved] and qu = mv [OF quiet_moved]
  show ?thesis
  proof (cases c)
    case Sys_exit
    with run exit_keeps [OF inv ok busy] show ?thesis by (auto simp: call_routine_def)
  next
    case Sys_fork
    with run fork_keeps [OF inv ok busy] show ?thesis by (auto simp: call_routine_def)
  next
    case Sys_clone
    with run clone_keeps [OF inv ok busy] show ?thesis by (auto simp: call_routine_def)
  next
    case Sys_sbrk
    with run sbrk_keeps [OF inv ok] show ?thesis by (auto simp: call_routine_def)
  next
    case Sys_write
    with run qu show ?thesis by (auto simp: call_routine_def dest: sys_write_quiet)
  next
    case Sys_get_stats
    with run qu show ?thesis by (auto simp: call_routine_def dest: sys_get_stats_quiet)
  next
    case Sys_read
    with run mv show ?thesis by (auto simp: call_routine_def dest: sys_read_moved)
  next
    case Sys_sem_init
    with run st show ?thesis by (auto simp: call_routine_def dest: sem_init_still)
  next
    case Sys_sem_wait
    with run st show ?thesis by (auto simp: call_routine_def dest: sem_wait_still)
  next
    case Sys_sem_signal
    with run st show ?thesis by (auto simp: call_routine_def dest: sem_signal_still)
  next
    case Sys_sem_destroy
    with run st show ?thesis by (auto simp: call_routine_def dest: sem_destroy_still)
  qed (use run st in \<open>auto simp: call_routine_def sys_ni_syscall_def sys_gettime_def sys_getpid_def\<close>)
qed

lemma system_call_keeps:
  assumes inv: "kernel_inv P s qs" and ok: "maps_ok s" and busy: "idle_task s \<noteq> Some (cur s)"
    and run: "system_call_handler u s = Some (r, s')"
  shows "keeps_spaces s s'"
proof -
  note len = sys_call_table_length
  note esp0 = kernel_invD(8) [OF inv]
  let ?n = "to_s32 (r_eax u)"
  have q: "quiet s (called u s)" "quiet s (entered u s)" by simp_all
  show ?thesis
  proof (cases "0 \<le> ?n \<and> ?n < 36")
    case True
    then obtain n where n: "?n = int n" "n < 36" by (metis zero_le_imp_eq_int of_nat_less_iff of_nat_numeral)
    obtain v s1 where v: "call_routine (sys_call_table ! n) (r_ebx u) (r_ecx u) (r_edx u) (called u s) = Some (v, s1)"
      "(case v of Switched \<Rightarrow> Some (Switched, s1)
        | Return v \<Rightarrow> do { (u', s') \<leftarrow> syscall_return 1008 v s1; Some (Return u', s') }) = Some (r, s')"
      using run unfolding dispatch [OF esp0 n] by (auto elim!: bind_eq_SomeE)
    have "keeps_spaces (called u s) s1"
      by (rule call_routine_keeps [OF kernel_inv_quiet [OF q(1) inv] maps_ok_quiet [OF q(1) ok] _ v(1)])
        (use busy in simp)
    then have "keeps_spaces s s1" by (rule quiet_then_keeps [OF q(1)])
    moreover have "still s1 s'"
      using v(2) syscall_return_still by (auto split: outcome.splits elim!: bind_eq_SomeE)
    ultimately show ?thesis by (rule keeps_then_still)
  next
    case False
    have "?n \<noteq> 36" using run dispatch_limit [OF esp0, of u] by auto
    with False have "?n < 0 \<or> 36 < ?n" by linarith
    with run obtain u' where "syscall_return 1008 (to_u32 (-38)) (entered u s) = Some (u', s')"
      by (auto simp: system_call_handler_def save_stack [OF esp0] switch_eqs entered_def [symmetric]
          MAX_SYSCALL_def len elim!: bind_eq_SomeE)
    then show ?thesis by (intro moved_keeps [OF moved_still [OF quiet_moved [OF q(2)] syscall_return_still] ok])
  qed
qed

section \<open>Interrupts\<close>

lemma clock_interrupt_still:
  assumes dr: "draws show_clock" and run: "clock_interrupt show_clock s = Some (r, s')"
  shows "still s s'"
proof -
  obtain z v s1 where 1: "update_sched_data_rr (s\<lparr>zeos_ticks := z\<rparr>) = Some (v, s1)"
    "(case v of Switched \<Rightarrow> Some (Switched, s1) | Return _ \<Rightarrow> Some (Return (), show_clock s1)) = Some (r, s')"
    using run by (auto simp: clock_interrupt_def elim!: bind_eq_SomeE)
  have "still s (s\<lparr>zeos_ticks := z\<rparr>)" by (simp add: still_def same_maps_def)
  then have "still s s1" by (rule still_trans) (rule tick_still [OF 1(1)])
  moreover have "still s1 s'" using 1(2) draws_still [OF dr] by (auto split: outcome.splits)
  ultimately show ?thesis by (rule still_trans)
qed

lemma clock_handler_moved:
  assumes inv: "kernel_inv P s qs" and dr: "draws show_clock"
    and run: "clock_handler show_clock u s = Some (r, s')"
  shows "moved s s'"
proof -
  obtain v s1 where 1: "clock_interrupt show_clock (entered u s) = Some (v, s1)"
    "(case v of Switched \<Rightarrow> Some (Switched, s1)
      | Return _ \<Rightarrow> do { (u, s) \<leftarrow> interrupt_return 1008 s1; Some (Return u, s) }) = Some (r, s')"
    using run by (auto simp: clock_handler_def save_stack [OF kernel_invD(8) [OF inv]] switch_eqs
        entered_def [symmetric] elim!: bind_eq_SomeE)
  have "still s1 s'" using 1(2) interrupt_return_still by (auto split: outcome.splits elim!: bind_eq_SomeE)
  from still_trans [OF clock_interrupt_still [OF dr 1(1)] this] show ?thesis
    by (intro moved_still [OF quiet_moved]) simp_all
qed

lemma keyboard_handler_moved:
  assumes inv: "kernel_inv P s qs" and run: "keyboard_handler k u s = Some (u', s')"
  shows "moved s s'"
proof -
  obtain s1 where 1: "keyboard_interrupt k (entered u s) = Some s1" "interrupt_return 1008 s1 = Some (u', s')"
    using run by (auto simp: keyboard_handler_def save_stack [OF kernel_invD(8) [OF inv]] switch_eqs
        entered_def [symmetric] elim!: bind_eq_SomeE)
  from still_trans [OF key_still [OF 1(1)] interrupt_return_still [OF 1(2)]] show ?thesis
    by (intro moved_still [OF quiet_moved]) simp_all
qed

lemma idle_entered_quiet:
  "switch_user_to_system (snd (interrupted_idle sp u s)) = Some s1 \<Longrightarrow> quiet s s1"
  using interrupted_idle_quiet [of s sp u] by (auto simp: switch_eqs intro: quiet_trans)

lemma clock_on_idle_moved:
  assumes dr: "draws show_clock" and run: "clock_on_idle show_clock sp u s = Some (r, s')"
  shows "moved s s'"
proof -
  obtain s1 v s2 where 1: "switch_user_to_system (snd (interrupted_idle sp u s)) = Some s1"
    "clock_interrupt show_clock s1 = Some (v, s2)"
    "(case v of Switched \<Rightarrow> Some (Switched, s2)
      | Return _ \<Rightarrow> do { s \<leftarrow> switch_system_to_user s2; Some (Return (), s) }) = Some (r, s')"
    using run unfolding clock_on_idle_def by (auto elim!: bind_eq_SomeE)
  have "still s2 s'" using 1(3) system_to_user_still by (auto split: outcome.splits elim!: bind_eq_SomeE)
  from still_trans [OF clock_interrupt_still [OF dr 1(2)] this] show ?thesis
    by (rule moved_still [OF quiet_moved [OF idle_entered_quiet [OF 1(1)]]])
qed

lemma key_on_idle_moved:
  assumes run: "key_on_idle k sp u s = Some s'"
  shows "moved s s'"
proof -
  obtain s1 s2 where 1: "switch_user_to_system (snd (interrupted_idle sp u s)) = Some s1"
    "keyboard_interrupt k s1 = Some s2" "switch_system_to_user s2 = Some s'"
    using run unfolding key_on_idle_def by (auto elim!: bind_eq_SomeE)
  from still_trans [OF key_still [OF 1(2)] system_to_user_still [OF 1(3)]] show ?thesis
    by (rule moved_still [OF quiet_moved [OF idle_entered_quiet [OF 1(1)]]])
qed

lemma resume_moved:
  assumes inv: "kernel_inv P s qs" and res: "resumable s (cur s)" and dr: "draws show_clock"
    and run: "resume show_clock s = Some (r, s')"
  shows "moved s s'"
  using res kernel_invD(5) [OF inv]
proof (rule resumable_target)
  fix n assume "switch_target s = Some (Routine (In_sem_wait n))"
  with run syscall_return_still show ?thesis
    by (auto simp: resume_def sem_wait_resumed_def split: if_splits elim!: bind_eq_SomeE intro: still_moved)
next
  fix buf n assume t: "switch_target s = Some (Routine (In_read buf n))"
  with run obtain v s1 where v: "read_resumed buf n s = Some (v, s1)"
    "(case v of Switched \<Rightarrow> Some (Switched, s1)
      | Return v \<Rightarrow> do { (u, s) \<leftarrow> syscall_return CONTEXT (to_u32 v) s1; Some (Return (Some u), s) }) = Some (r, s')"
    by (auto simp: resume_def elim!: bind_eq_SomeE)
  have "still s1 s'" using v(2) syscall_return_still by (auto split: outcome.splits elim!: bind_eq_SomeE)
  with read_resumed_moved [OF v(1)] show ?thesis by (rule moved_still)
next
  assume "switch_target s = Some (Routine In_clock)"
  then have "still (show_clock s) s'"
    using run interrupt_return_still system_to_user_still
    by (auto simp: resume_def split: if_splits elim!: bind_eq_SomeE)
  with draws_still [OF dr, of s] show ?thesis by (intro still_moved) (rule still_trans)
next
  assume "switch_target s = Some (At_ret_from_fork 1007)"
  with run syscall_return_still show ?thesis
    by (auto simp: resume_def split: if_splits elim!: bind_eq_SomeE intro: still_moved)
next
  assume "switch_target s = Some At_cpu_idle"
  with run show ?thesis by (auto simp: resume_def)
qed

section \<open>Steps and reachable states\<close>

definition full_inv :: "mode \<times> kstate \<Rightarrow> bool" where
  "full_inv ms \<longleftrightarrow> state_inv {} ms \<and> maps_ok (snd ms)"

lemma kernel_step_keeps:
  assumes "kernel_step show_clock a b" and dr: "draws show_clock" and "full_inv a"
  shows "keeps_spaces (snd a) (snd b)"
  using assms(1,3)
proof (induction rule: kernel_step.induct)
  case (store s va b s')
  then have "quiet s s'" using store_byte_ram [of va b s s' s] by auto
  with store show ?case by (simp add: full_inv_def moved_keeps [OF quiet_moved])
next
  case (call s u r s')
  with system_call_keeps show ?case by (auto simp: full_inv_def state_inv_def)
next
  case (clock s u r s')
  with clock_handler_moved [OF _ dr] show ?case by (auto simp: full_inv_def state_inv_def intro: moved_keeps)
next
  case (key s k u u' s')
  with keyboard_handler_moved show ?case by (auto simp: full_inv_def state_inv_def intro: moved_keeps)
next
  case (idle_clock s sp u r s')
  with clock_on_idle_moved [OF dr] show ?case by (auto simp: full_inv_def intro: moved_keeps)
next
  case (idle_key s k sp u s')
  with key_on_idle_moved show ?case by (auto simp: full_inv_def intro: moved_keeps)
next
  case (continue s r s')
  with resume_moved [OF _ _ dr] show ?case by (auto simp: full_inv_def state_inv_def intro: moved_keeps)
qed

lemma full_inv_step: "kernel_step show_clock a b \<Longrightarrow> draws show_clock \<Longrightarrow> full_inv a \<Longrightarrow> full_inv b"
  using kernel_step_keeps [of show_clock a b] kernel_step_inv [of show_clock a b]
  by (simp add: full_inv_def keeps_spaces_def)

lemma full_inv_reachable:
  assumes "(kernel_step show_clock)\<^sup>*\<^sup>* a b" and "draws show_clock" and "full_inv a"
  shows "full_inv b"
  using assms(1) by (induction rule: rtranclp_induct) (auto intro: assms(3) full_inv_step [OF _ assms(2)])

section \<open>The first process\<close>

lemma kernel_row_frame:
  assumes "kernel_row y p \<noteq> 0"
  shows "p < 256 \<and> unat (get_pbase_addr (kernel_row y p)) < 256"
  using assms
  by (auto simp: kernel_row_def unsigned_take_bit_eq take_bit_nat_eq_self split: if_splits)

lemma first_row_frames:
  assumes "pagusr_table s d = (if d < 2 then user_row (28 * d) y else kernel_row y)" and "pagusr_table s d p \<noteq> 0"
  shows "p < 256 \<and> frame_of s d p < 256 \<or>
    d < 2 \<and> 256 \<le> p \<and> p < 284 \<and> frame_of s d p = 256 + 2 * (28 * d + (p - 256))"
proof (cases "d < 2 \<and> 256 \<le> p \<and> p < 284")
  case True
  then show ?thesis using assms by (auto simp: frame_of_def user_row_def frame_of_user_entry)
next
  case False
  then have "pagusr_table s d p = kernel_row y p" using assms(1) by (auto simp: user_row_def)
  with kernel_row_frame [of y p] assms(2) show ?thesis by (auto simp: frame_of_def)
qed

lemma first_process_maps:
  assumes "first_process s"
  shows "maps_ok s"
proof -
  note f = assms [unfolded first_process_def]
  have fr: "p < 256 \<and> frame_of s d p < 256 \<or>
      d < 2 \<and> 256 \<le> p \<and> p < 284 \<and> frame_of s d p = 256 + 2 * (28 * d + (p - 256))" if "mapped s d p" for d p
    by (rule first_row_frames [where y = "syms s"]) (use f that in \<open>auto simp: mapped_def\<close>)
  have "phys_mem s (frame_of s d p) \<noteq> 0" if "mapped s d p" for d p
    using fr [OF that] f by (auto simp: taken_def)
  moreover have "256 \<le> frame_of s d p" if "owned s d p" for d p
    using fr [OF owned_mapped [OF that]] that by (auto simp: owned_iff)
  moreover have "d = e \<and> p = q" if "owned s d p" "mapped s e q" "frame_of s d p = frame_of s e q" for d p e q
  proof -
    have "d < 2" "e < 2" "264 \<le> p" "p < 284" "256 \<le> q" "q < 284" "28 * d + (p - 256) = 28 * e + (q - 256)"
      using fr [OF owned_mapped [OF that(1)]] fr [OF that(2)] that(1,3) by (auto simp: owned_iff)
    then show ?thesis by (auto simp: less_2_cases_iff)
  qed
  ultimately have "frames_once s" unfolding frames_once_def by simp
  moreover have "dirs_in_use s"
  proof -
    have dp: "data_pages_ok s 1" using first_fork_ready [OF assms] by (simp add: fork_ready_def)
    have "data_pages_ok s i" if "i \<noteq> 0" "dir_references s i \<noteq> 0" for i
    proof -
      have "i = 1" using that f by (cases "i < 2") auto
      with dp show ?thesis by simp
    qed
    then show ?thesis
      unfolding dirs_in_use_def using f by (intro exI [of _ 9] exI [of _ 0]) simp
  qed
  ultimately show ?thesis using f by (simp add: maps_ok_def taken_def)
qed

lemma first_process_full: "first_process s \<Longrightarrow> full_inv (In_user, s)"
  using first_process_maps [of s] kernel_inv_mono [OF first_process_inv empty_subsetI]
  by (auto simp: full_inv_def state_inv_def)

section \<open>What a process finds in its memory\<close>

text \<open>The byte at an address of address space \<open>i\<close>.\<close>

definition space_byte :: "kstate \<Rightarrow> nat \<Rightarrow> DWord \<Rightarrow> Byte option" where
  "space_byte s i va = load_byte va (s\<lparr>cr3 := dir_addr (syms s) i\<rparr>)"

lemma translate_high:
  assumes "paging_ok s" and "cr3 s = dir_addr (syms s) i" and "i < 10" and "4194304 \<le> unat va"
  shows "translate va s = None"
proof -
  have "unat va div 4194304 < 1024" by (rule less_mult_imp_div_less) simp
  then have "unat (drop_bit 22 va) < 1024" "0 < unat (drop_bit 22 va)"
    using assms(4) by (simp_all add: drop_bit_eq_div unat_div)
  then show ?thesis using assms(1-3) by (simp add: translate_def paging_ok_def Let_def)
qed

lemma own_frames_mapped:
  assumes "paging_ok s" and "cr3 s = dir_addr (syms s) i" and "i < 10" and "f \<in> own_frames s"
  obtains p where "mapped s i p" "frame_of s i p = f"
proof -
  obtain va k where t: "translate va s = Some (f, k)" using assms(4) by (auto simp: own_frames_def)
  then have low: "unat va < 4194304" using translate_high [OF assms(1-3), of va] by (cases "unat va < 4194304") auto
  with t translate_low [OF assms(1-3) low] assms(3) have "mapped s i (unat va div 4096)"
    "frame_of s i (unat va div 4096) = f"
    by (auto simp: Let_def mapped_def frame_of_def split: if_splits dest: entry_present_nonzero)
  then show ?thesis by (rule that)
qed

lemma space_byte_kept:
  assumes keep: "keeps_spaces s s'" and inv: "kernel_inv P s qs" and ok: "maps_ok s"
    and i: "i < 10" "dir_references s i \<noteq> 0" "\<not> space s (cur s) i" and va: "1081344 \<le> unat va"
  shows "space_byte s' i va = space_byte s i va"
proof -
  note iso = keep [unfolded keeps_spaces_def isolated_def]
  note v = kernel_invD [OF inv]
  obtain j where j: "space s (cur s) j" "j < 10" by (rule cur_space [OF inv])
  have cr: "cr3 s = dir_addr (syms s) j" using v(7) j(1) by (simp add: get_DIR_def space_def)
  have ne: "j \<noteq> i" using i(3) j(1) by auto
  then have "dir_addr (syms s) i \<noteq> cr3 s" using cr dir_addr_inj [OF i(1) j(2)] by auto
  then have row: "pagusr_table s' i = pagusr_table s i" using iso i by simp
  let ?t = "s\<lparr>cr3 := dir_addr (syms s) i\<rparr>" and ?t' = "s'\<lparr>cr3 := dir_addr (syms s) i\<rparr>"
  have sy: "syms s' = syms s" "dir_pages s' = dir_pages s" using iso by simp_all
  have pk: "paging_ok ?t" "paging_ok ?t'" using v(5) sy by (simp_all add: paging_ok_def)
  show ?thesis
  proof (cases "unat va < 4194304")
    case False
    then show ?thesis
      using translate_high [OF pk(1)] translate_high [OF pk(2)] i(1) sy
      by (simp add: space_byte_def load_byte_def)
  next
    case True
    let ?p = "unat va div 4096"
    have p: "264 \<le> ?p" "?p < 1024" using va True by linarith+
    have tr: "translate va ?t' = translate va ?t"
      using translate_low [OF pk(1) _ i(1) True] translate_low [OF pk(2) _ i(1) True] row sy by simp
    have same: "ram s' f = ram s f" if t: "translate va ?t = Some (f, k)" for f k
    proof -
      have own: "owned s i ?p" "frame_of s i ?p = f"
        using t translate_low [OF pk(1) _ i(1) True] i(1) p
        by (auto simp: Let_def owned_iff mapped_def frame_of_def split: if_splits dest: entry_present_nonzero)
      have "f \<notin> own_frames s"
      proof
        assume "f \<in> own_frames s"
        then obtain q where "mapped s j q" "frame_of s j q = f" by (rule own_frames_mapped [OF v(5) cr j(2)])
        with maps_okD(5) [OF ok own(1)] own(2) ne show False by auto
      qed
      moreover have "f \<notin> avail (phys_mem s)"
        using maps_okD(3) [OF ok owned_mapped [OF own(1)]] own(2) by (auto simp: avail_def)
      ultimately show ?thesis using iso by simp
    qed
    then show ?thesis
      unfolding space_byte_def load_byte_def sy tr by (auto split: bind_splits)
  qed
qed

end
