(* ===== verification/SpaceTheorems.thy ===== *)
theory SpaceTheorems
  imports SpaceSteps StepTheorems
begin

text \<open>
  The properties of the address spaces: whose frames are whose in every reachable state, what a
  process keeps while the others run, and that a fork always returns. All three are about runs in
  which no process stores to kernel frames (see \<open>KernelSteps\<close>): a forked child could do so, and by
  that change any page table.
\<close>

section \<open>A fork and a store\<close>

text \<open>The first process forks; the child in space 2 has pages of its own.\<close>

lemma sample_forked:
  "\<exists>s1. kernel_step (\<lambda>s. s) (In_user, sample) (In_user, s1) \<and> cur s1 = 8 \<and> idle_task s1 = Some 9 \<and>
    dir_references s1 2 = 1 \<and> \<not> space s1 8 2 \<and> user_region s1 0x108000 4096 \<and>
    space_byte s1 2 0x108000 \<noteq> None"
proof -
  note f = sample_first [unfolded first_process_def]
  let ?u = "sample_regs 2" and ?c = "called (sample_regs 2) sample"
  have n: "to_s32 (r_eax ?u) = int 2" by (simp add: to_s32_small)
  have "fork_ready ?c first_queues 1 2 7 [6, 5, 4, 3, 2, 1, 0] [] 284"
    using first_fork_ready [OF sample_first] by simp
  from fork_works [OF this] obtain s2 gs where
    s2: "sys_fork ?c = Some (to_s32 (nextPid ?c + 1), s2)" "set gs \<subseteq> avail (phys_mem ?c)" "length gs = 20"
      "child_table ?c 1 gs (pagusr_table ?c 2) (pagusr_table s2 2)"
      "\<And>q. q \<noteq> 2 \<Longrightarrow> pagusr_table s2 q = pagusr_table ?c q"
      "dir_references s2 = (dir_references ?c)(2 := 1)" "call_frame ?c s2"
      "\<And>t. t \<noteq> 7 \<Longrightarrow> tasks s2 t = tasks ?c t" by blast
  have fr: "syms s2 = syms sample" "cur s2 = 8" "idle_task s2 = Some 9" "cr3 s2 = dir_addr (syms sample) 1"
    "dir_pages s2 = dir_pages sample"
    using s2(7) f by (simp_all add: call_frame_def in_space_def)
  obtain e where e: "syscall_return 1008 e s2 = Some (?u\<lparr>r_eax := e\<rparr>,
      charge system_ticks_update (cur s2) (upd_stack (cur s2) 1014 e s2))" "e = to_u32 (to_s32 (nextPid ?c + 1))"
    using syscall_return_spec [of _ s2] s2(8) [of 8] user_context_entered(2) [of ?u sample] f fr(2)
    by (auto simp: user_context_def)
  define s1 where "s1 = charge system_ticks_update (cur s2) (upd_stack (cur s2) 1014 e s2)"
  have "sys_call_table ! 2 = Sys_fork" by (simp add: sys_call_table_def)
  with dispatch [OF sample_esp0 n] s2(1) e have run: "system_call_handler ?u sample = Some (Return (?u\<lparr>r_eax := e\<rparr>), s1)"
    by (simp add: call_routine_def s1_def)
  have step: "kernel_step (\<lambda>s. s) (In_user, sample) (mode_of (Return (?u\<lparr>r_eax := e\<rparr>)), s1)"
    using run f by (intro kernel_step.call) simp_all
  have s1: "syms s1 = syms sample" "cur s1 = 8" "idle_task s1 = Some 9" "cr3 s1 = dir_addr (syms sample) 1"
    "dir_pages s1 = dir_pages sample" "pagusr_table s1 = pagusr_table s2" "dir_references s1 2 = 1"
    "dir_pages_baseAddr (task_of s1 8) = dir_addr (syms sample) 1"
    using fr s2(6) s2(8) [of 8] f by (simp_all add: s1_def task_of_def [of s2] space_def) (simp add: task_of_def [symmetric])
  have pok: "paging_ok s1" using f s1 by (simp add: in_space_def paging_ok_def)
  have "translate va s1 = translate va sample" if "unat va < 4194304" for va
    using translate_low [OF pok _ _ that, of 1] translate_low [of sample 1 va] that s1 s2(5) f
    by (simp add: in_space_def)
  moreover have "unat (0x108000 + of_nat k :: DWord) < 4194304" if "k < 4096" for k
    using that by (subst unat_add_u32) (simp_all add: unat_of_nat_u32)
  ultimately have reg: "user_region s1 0x108000 4096"
    using sample_region [of 4096] by (simp add: user_region_def inj_on_def)
  have "pagusr_table s1 2 264 = set_ss_pag_entry (of_nat (gs ! 0))"
    using s2(4) s1(6) by (simp add: child_table_def)
  moreover have "gs ! 0 \<in> avail (phys_mem ?c)" using s2(2,3) nth_mem [of 0 gs] by auto
  then have "256 \<le> gs ! 0" "gs ! 0 < 1024" using avail_less by blast+
  moreover have "paging_ok (s1\<lparr>cr3 := dir_addr (syms s1) 2\<rparr>)" using pok by (simp add: paging_ok_def)
  ultimately have "space_byte s1 2 0x108000 \<noteq> None"
    using translate_low [of "s1\<lparr>cr3 := dir_addr (syms s1) 2\<rparr>" 2 "0x108000"]
    by (simp add: space_byte_def load_byte_def unsigned_take_bit_eq take_bit_nat_eq_self)
  moreover have "\<not> space s1 8 2" using s1(1,8) dir_addr_inj [of 1 2] by (auto simp: space_def)
  ultimately show ?thesis using step s1 reg by (intro exI [of _ s1]) simp
qed

lemma sample_store:
  assumes "user_region s va 4096"
  shows "\<exists>s'. store_byte va b s = Some s' \<and> load_byte va s' = Some b"
  using store_at_region [OF assms, of 0 b] by (fastforce simp: store_at_def load_at_def dest: spec [of _ 0])

section \<open>Steps of the others\<close>

text \<open>A step while address space \<open>i\<close> is in use and the current task is in another one.\<close>

definition runs_elsewhere ::
  "(kstate \<Rightarrow> kstate) \<Rightarrow> nat \<Rightarrow> mode \<times> kstate \<Rightarrow> mode \<times> kstate \<Rightarrow> bool" where
  "runs_elsewhere show_clock i a b \<longleftrightarrow> kernel_step show_clock a b \<and>
     dir_references (snd a) i \<noteq> 0 \<and> \<not> space (snd a) (cur (snd a)) i"

lemma runs_elsewhere_kept:
  assumes run: "(runs_elsewhere show_clock i)\<^sup>*\<^sup>* a b" and dr: "draws show_clock" and inv: "full_inv a"
    and i: "i < 10" and va: "1081344 \<le> unat va"
  shows "full_inv b \<and> space_byte (snd b) i va = space_byte (snd a) i va"
  using run
proof (induction rule: rtranclp_induct)
  case (step b c)
  from step(2) have k: "kernel_step show_clock b c" "dir_references (snd b) i \<noteq> 0"
    "\<not> space (snd b) (cur (snd b)) i" by (auto simp: runs_elsewhere_def)
  have inv: "full_inv b" using step(3) by simp
  then obtain qs where qs: "kernel_inv {} (snd b) qs" "maps_ok (snd b)" by (auto simp: full_inv_def state_inv_def)
  have "space_byte (snd c) i va = space_byte (snd b) i va"
    by (rule space_byte_kept [OF kernel_step_keeps [OF k(1) dr inv] qs i k(2,3) va])
  with step(3) full_inv_step [OF k(1) dr inv] show ?case by simp
qed (use inv in simp)

section \<open>Properties\<close>

text \<open>
  C5: No frame of a data or heap page is mapped twice: in every reachable state each such page of each
  page table has a frame of the user area that is marked as used and that no other entry of any page
  table names, whether the address space is in use or left over from a dead process; every address
  space in use, but that of the idle task, has its 20 data pages. Reachable is meant by \<open>kernel_step\<close>:
  as long as no process, by means of the page table of a forked child, stores to kernel frames, nobody
  uses the trap of the library, and the code has a defined behaviour.
\<close>

theorem frames_mapped_once:
  assumes "first_process s0" and "draws show_clock"
    and "(kernel_step show_clock)\<^sup>*\<^sup>* (In_user, s0) (m, s)"
  shows "frames_once s \<and> dirs_in_use s"
  using full_inv_reachable [OF assms(3,2) first_process_full [OF assms(1)]]
  by (simp add: full_inv_def maps_ok_def)

theorem frames_mapped_once_witness:
  "\<exists>s1. kernel_step (\<lambda>s. s) (In_user, sample) (In_user, s1) \<and> dir_references s1 2 = 1 \<and>
    frames_once s1 \<and> dirs_in_use s1"
proof -
  obtain s1 where s1: "kernel_step (\<lambda>s. s) (In_user, sample) (In_user, s1)" "dir_references s1 2 = 1"
    using sample_forked by blast
  then have "(kernel_step (\<lambda>s. s))\<^sup>*\<^sup>* (In_user, sample) (In_user, s1)" by (intro r_into_rtranclp)
  with s1 frames_mapped_once [OF sample_first draws_id this] show ?thesis by blast
qed

text \<open>
  C4: Processes are isolated: as long as the address space \<open>i\<close> is in use and the tasks that run are
  in other ones, the bytes of its data and heap pages stay what they are, whatever steps the others
  do: stores to their own pages, system calls (a fork, a read, a growing heap), exits and interrupts.
  This is under the condition that no process stores to a kernel frame, which \<open>kernel_step\<close> leaves
  out: the page table of a forked child maps the kernel's pages writable, so that the code does not
  protect one process from a malicious other one. The trap of the library and undefined behaviour are
  no steps either.
\<close>

theorem processes_isolated:
  assumes "first_process s0" and "draws show_clock"
    and "(kernel_step show_clock)\<^sup>*\<^sup>* (In_user, s0) (m, s)"
    and "(runs_elsewhere show_clock i)\<^sup>*\<^sup>* (m, s) (m', s')" and "i < NR_TASKS"
    and "PAG_LOG_INIT_DATA * PAGE_SIZE \<le> unat va"
  shows "space_byte s' i va = space_byte s i va"
  using runs_elsewhere_kept [OF assms(4,2) full_inv_reachable [OF assms(3,2) first_process_full [OF assms(1)]],
      of va] assms(5,6) by simp

theorem processes_isolated_witness:
  "\<exists>s1 s2. kernel_step (\<lambda>s. s) (In_user, sample) (In_user, s1) \<and> store_byte 0x108000 7 s1 = Some s2 \<and>
    load_byte 0x108000 s2 = Some 7 \<and> space_byte s1 2 0x108000 \<noteq> None \<and>
    space_byte s2 2 0x108000 = space_byte s1 2 0x108000"
proof -
  obtain s1 where s1: "kernel_step (\<lambda>s. s) (In_user, sample) (In_user, s1)" "cur s1 = 8" "idle_task s1 = Some 9"
    "dir_references s1 2 = 1" "\<not> space s1 8 2" "user_region s1 0x108000 4096" "space_byte s1 2 0x108000 \<noteq> None"
    using sample_forked by blast
  obtain s2 where s2: "store_byte 0x108000 7 s1 = Some s2" "load_byte 0x108000 s2 = Some 7"
    using sample_store [OF s1(6)] by blast
  have "kernel_step (\<lambda>s. s) (In_user, s1) (In_user, s2)"
    using s1(2,3) s2(1) by (intro kernel_step.store) simp_all
  then have "runs_elsewhere (\<lambda>s. s) 2 (In_user, s1) (In_user, s2)"
    using s1(2,4,5) by (simp add: runs_elsewhere_def)
  then have run: "(runs_elsewhere (\<lambda>s. s) 2)\<^sup>*\<^sup>* (In_user, s1) (In_user, s2)" by (rule r_into_rtranclp)
  have "(kernel_step (\<lambda>s. s))\<^sup>*\<^sup>* (In_user, sample) (In_user, s1)" using s1(1) by (rule r_into_rtranclp)
  from processes_isolated [OF sample_first draws_id this run, of "0x108000"]
  have "space_byte s2 2 0x108000 = space_byte s1 2 0x108000" by simp
  with s1 s2 show ?thesis by blast
qed

text \<open>
  C6: A fork of a process always returns: in every reachable state, with a free entry in its page
  table, the process gets its registers back with the new process number in EAX when a task and 20
  frames are free, and with \<open>-ENOMEM\<close> otherwise. A free directory is always found. Reachable is
  meant by \<open>kernel_step\<close>: no stores to kernel frames, no trap of the library, defined behaviour only.
\<close>

theorem fork_always_returns:
  assumes "first_process s0" and "draws show_clock"
    and "(kernel_step show_clock)\<^sup>*\<^sup>* (In_user, s0) (In_user, s)" and "idle_task s \<noteq> Some (cur s)"
    and "to_s32 (r_eax u) = 2"
    and "space s (cur s) i" and "284 \<le> p" and "p < TOTAL_PAGES" and "pagusr_table s i p = 0"
  shows "\<exists>s'. system_call_handler u s = Some (Return (u\<lparr>r_eax :=
      if list_empty (Some Freequeue) (lists s) = Some False \<and> 20 \<le> card (avail (phys_mem s))
      then nextPid s + 1 else to_u32 (- ENOMEM)\<rparr>), s')"
proof -
  have "full_inv (In_user, s)" by (rule full_inv_reachable [OF assms(3,2) first_process_full [OF assms(1)]])
  then obtain qs where inv: "kernel_inv {} s qs" and ok: "maps_ok s" by (auto simp: full_inv_def state_inv_def)
  note v = kernel_invD [OF inv]
  obtain fs rs where q: "qs Freequeue = Some fs" "qs Readyqueue = Some rs" using sched_okD(2,3) [OF v(1)] by blast
  note e = queues_empty [OF sched_okD(1) [OF v(1)] q(1)]
  show ?thesis
  proof (cases "fs \<noteq> [] \<and> 20 \<le> card (avail (phys_mem s))")
    case True
    then obtain c gs where "fs = c # gs" by (cases fs) auto
    then have c: "qs Freequeue = Some (c # gs)" using q(1) by simp
    obtain j k where "fork_ready s qs i j c gs rs k"
      by (rule fork_ready_intro [OF inv ok assms(4) c q(2) _ assms(6,7) _ assms(9)]) (use True assms(8) in auto)
    from call_fork [OF v(8) assms(5) this] True e show ?thesis by auto
  next
    case False
    with call_fork_fails [OF v(8) assms(5) v(1) q(1)] maps_okD(2) [OF ok] e show ?thesis by auto
  qed
qed

theorem fork_always_returns_witness:
  "\<exists>s'. system_call_handler (sample_regs 2) sample = Some (Return (sample_regs 14), s')"
proof -
  note f = sample_first [unfolded first_process_def]
  have row: "pagusr_table sample 1 284 = 0" using f by (simp add: user_row_def kernel_row_def)
  have busy: "idle_task sample \<noteq> Some (cur sample)" "space sample (cur sample) 1" using f by simp_all
  have "queues (lists sample) first_queues" using f sched_okD(1) by blast
  from queues_empty [OF this, of Freequeue "[7, 6, 5, 4, 3, 2, 1, 0]"]
  have free: "list_empty (Some Freequeue) (lists sample) = Some False" by (simp add: first_queues_def)
  have "20 \<le> card (avail (phys_mem sample))" "nextPid sample + 1 = 14" using f enough_frames by simp_all
  moreover have "(sample_regs 2)\<lparr>r_eax := 14\<rparr> = sample_regs 14" by (simp add: sample_regs_def)
  moreover have "to_s32 (r_eax (sample_regs 2)) = 2" by (simp add: to_s32_small)
  ultimately show ?thesis
    using fork_always_returns [OF sample_first draws_id rtranclp.rtrancl_refl busy(1) _ busy(2) _ _ row, of "sample_regs 2"]
      free by simp
qed

end
