(* ===== verification/Spec2Isabelle.thy ===== *)
theory Spec2Isabelle
  imports BaseTheorems KernelTheorems CallTheorems InputTheorems EntryTheorems MainTheorems
    LibcTheorems BuildTheorems StepTheorems SpaceTheorems
begin

text \<open>
  A model of ZeOS, a small teaching operating system for the x86, and of its correctness.

  \<^bold>\<open>The program.\<close> The kernel is linked as one image; \<open>main\<close> (\<open>system.c\<close>) initialises the
  memory (\<open>mm.c\<close>) and the tasks (\<open>sched.c\<close>), and enters the first user process. From then on it
  runs when a process traps (\<open>sys.c\<close>) or an interrupt arrives (\<open>interrupt.c\<close>): the clock drives
  the round-robin scheduler, the keyboard fills a ring buffer (\<open>circular_buffer.c\<close>) that
  \<open>devices.c\<close> drains. Tasks are in circular doubly linked lists (\<open>list.c\<close>): free, ready,
  waiting for the keyboard, or waiting for a semaphore.

  \<^bold>\<open>The theories.\<close>
  \<^item> \<open>ZPrelude\<close>: machine integers, checked signed arithmetic, loops and the lemma collections;
    \<open>ZTypes\<close>: the constants and bit fields of the headers.
  \<^item> \<open>KList\<close>: \<open>list.c\<close> over a heap of nodes, the representation predicate \<open>dll\<close>, the
    interface \<open>node_queues\<close>; \<open>CircularBuffer\<close>: \<open>circular_buffer.c\<close>, the interface
    \<open>bounded_fifo\<close> and the refinement of a bounded queue; \<open>Frames\<close>: the frame map of
    \<open>mm.c\<close> and the allocation loop of the system calls, with the interface \<open>frame_allocator\<close>;
    \<open>Utils\<close>: \<open>utils.c\<close>, with the interface \<open>copy_regions\<close> of the copy loops.
  \<^item> \<open>KState\<close>: the record \<open>kstate\<close> of all global variables and the parts of the machine the
    kernel acts on; \<open>Paging\<close>: page table entries, directories, and the translation of user
    addresses; \<open>UserMem\<close>: the copies between user memory and the kernel.
  \<^item> \<open>Sched\<close>: \<open>sched.c\<close>; \<open>SchedProps\<close>: the invariant \<open>sched_ok\<close> of the queues and what
    every operation does to it; \<open>SchedTicks\<close>: the policy over many clock ticks.
  \<^item> \<open>ScreenIO\<close>: \<open>io.c\<close>; \<open>SysBasic\<close>, \<open>SysSem\<close>, \<open>SysSbrk\<close>, \<open>SysProc\<close>: the system
    calls of \<open>sys.c\<close>; \<open>ForkSpace\<close>, \<open>ForkProps\<close>, \<open>ProcProps\<close>: what process creation
    and termination do.
  \<^item> \<open>Devices\<close>: \<open>devices.c\<close>, \<open>sys_read\<close> and the keyboard interrupt of \<open>interrupt.c\<close>;
    \<open>DeviceProps\<close>: readers that find their characters, wait for them and are woken by them.
  \<^item> \<open>Entry\<close>: \<open>entry.S\<close>, \<open>sys_call_table.S\<close> and the return of a switched task to user mode;
    \<open>EntryProps\<close>: the saved context survives, and what the registers of the processes are.
  \<^item> \<open>Boot\<close>, \<open>BootProps\<close>: the initialisation of \<open>mm.c\<close> and \<open>sched.c\<close>; \<open>Platform\<close>: the
    descriptor tables of \<open>interrupt.c\<close> and \<open>mm.c\<close>, \<open>hardware.c\<close> and \<open>main\<close> of \<open>system.c\<close>;
    \<open>PlatformProps\<close>: the tables decode to the handlers, and the user image arrives.
  \<^item> \<open>CLib\<close>, \<open>Libc\<close>: the pure routines of \<open>libc.c\<close>, and its wrappers of the system calls with
    \<open>errno\<close>; \<open>UserProgram\<close>, \<open>UserCounter\<close>: \<open>user.c\<close>; \<open>BuildImage\<close>: the image builder \<open>build.c\<close>, a program of
    the host.
  \<^item> \<open>Quiet\<close>: what the operations that only move data leave alone; \<open>KernelInv\<close>: the invariant
    \<open>kernel_inv\<close> of the whole kernel; \<open>KernelOps\<close>, \<open>KernelProc\<close>: every operation keeps it;
    \<open>KernelSteps\<close>: the kernel as a state machine \<open>kernel_step\<close>, in which user code, system calls,
    the clock and the keyboard alternate in any order, and the invariant of its reachable states; the
    introduction of this theory says what is no step.
  \<^item> \<open>SpaceInv\<close>: whose memory is whose, the invariant \<open>maps_ok\<close> that each frame of the user area is
    mapped at most once, and the operations that keep the mappings; \<open>SpaceGrow\<close>: the two that map
    new pages, \<open>sys_fork\<close> and \<open>sys_sbrk\<close>; \<open>SpaceSteps\<close>: every step of the kernel.
  \<^item> \<open>Samples\<close>: concrete states. The properties, each with an application to a concrete state:
    \<open>BaseTheorems\<close> (lists, ring, frames, arithmetic, console), \<open>KernelTheorems\<close> (process creation
    and termination), \<open>CallTheorems\<close> (scheduling, semaphores, \<open>sbrk\<close>, \<open>write\<close>), \<open>InputTheorems\<close>
    (keyboard), \<open>EntryTheorems\<close> (what a process sees of the kernel), \<open>MainTheorems\<close> (start-up),
    \<open>LibcTheorems\<close> (library and user program), \<open>BuildTheorems\<close> (disk image), \<open>StepTheorems\<close> (all
    reachable states), \<open>SpaceTheorems\<close> (isolation of the processes).

  \<^bold>\<open>Conventions.\<close> An operation takes and returns the state. A result of type \<open>option\<close> is None
  when the C program has no defined behaviour: a null pointer, an access outside an array or
  to an unmapped page, an overflow of a signed integer. Functions that may give the processor away
  return an \<open>outcome\<close>: they return, or they have switched to another task, whose saved frames
  are named by a \<open>kcont\<close>. Pointers to list nodes and tasks are names of the known objects; page
  directories and tables are 32-bit addresses, as the code computes with them.

  \<^bold>\<open>Binary libraries.\<close> Three routines that the initialisation calls are in archives of object code
  only, and are written down from the instructions there: \<open>monoprocess_init_addr_space\<close> (\<open>zeos_mm.o\<close> of
  \<open>libzeos.a\<close>, called at \<open>system.c\<close> line 93) gives user pages to the first task of the array and loads
  its directory, so that 28 frames are in use that no process gets, and the directory that the idle
  task is given has user pages; \<open>set_handlers\<close> (\<open>libzeos.a\<close>) fills the gates of the exceptions 0 to
  17; \<open>zeos_init_auxjp\<close> (\<open>libauxjp.a\<close>) prints, clears its own semaphores and sets the gate of trap
  \<open>0x82\<close>. The routine of the clock display, \<open>zeos_show_clock\<close>, is a parameter; the object code writes
  cells of the screen and counters of its own, which is the hypothesis \<open>draws\<close>.

  \<^bold>\<open>Reachable states.\<close> The properties of \<open>StepTheorems\<close> and \<open>SpaceTheorems\<close> are about the states that
  \<open>kernel_step\<close> leads to from the one in which \<open>main\<close> leaves the kernel (\<open>first_process\<close>). There is no
  restriction on the system calls that processes make. No steps are: stores to kernel frames, which
  the page table of a forked child allows (finding \<open>mm.c\<close> 72); operations for which C defines no
  behaviour, such as following a null pointer; exceptions and the trap \<open>0x82\<close>.

  \<^bold>\<open>Bounds.\<close> The arrays that \<open>sys_sbrk\<close> puts on the kernel stack may have \<open>FREE_STACK\<close> entries: what
  is left of the 1024 words of a task union after the \<open>task_struct\<close>, the saved context and 64 words
  for the frames of the routines.

  \<^bold>\<open>Interfaces.\<close> A locale states what a client needs of a component, and is interpreted on the
  component's definitions: \<open>node_queues\<close> (the lists, for the queues of \<open>sched.c\<close>),
  \<open>bounded_fifo\<close> (the ring, for the keyboard), \<open>frame_allocator\<close> (the frame map, for the
  allocation loop of \<open>sys_fork\<close> and \<open>sys_sbrk\<close>), \<open>copy_regions\<close> (readable and writable bytes, for
  the copy loops), \<open>bit_field\<close> (the fields of a page table entry).

  \<^bold>\<open>Loops.\<close> Every loop of the code is a recursion with a termination proof, except three that may
  run forever on a corrupt state and are a \<open>partial_function\<close>, where None also means no end: the one
  of \<open>sys_sem_destroy\<close> (\<open>release_all\<close>) and the two of \<open>sys_read_keyboard\<close> (\<open>drain_keys\<close>,
  \<open>read_resumed\<close>). The properties that are about them state that they return. The walks
  along a list take fuel, and the length of the list is enough (\<open>dll_for_each\<close>,
  \<open>dll_for_each_safe\<close>).

  \<^bold>\<open>Not modelled.\<close> The binary libraries but for the routines named above: the routines of the
  exceptions, the calls of trap \<open>0x82\<close>, and the test programs \<open>libjp1.a\<close> and \<open>libjp2.a\<close>; the loader
  \<open>bootsect.S\<close>, real-mode code of the BIOS; the translation lookaside buffer and the write
  protection bit of the processor; the words of a kernel stack below the saved
  context, except those a new task starts with; the messages that \<open>build\<close> prints on its standard
  error; the stores of user code to kernel frames, which the page table of a forked child allows (see
  the findings of the manifest), so that the isolation of processes is about the frames of users; the
  place of the key ring, which in the code is the dead stack frame of \<open>circular_buffer_init\<close> inside the
  task unions 2 and 3, where the model gives it storage of its own.
\<close>

end
